(* ===== verification/Prelude.thy ===== *)
theory Prelude
  imports Main "HOL-Library.Word" "HOL-Library.Monad_Syntax" "HOL-Library.Sublist" "HOL-Library.Char_ord"
begin

unbundle bit_operations_syntax

text \<open>
  Shared vocabulary of the development: the Go types the sources use, the byte order
  conversions of \<^verbatim>\<open>encoding/binary\<close>, decimal formatting, loops, and the generic lemmas
  the components rely on.

  Conventions. A Go \<^verbatim>\<open>string\<close> and a Go \<^verbatim>\<open>[]byte\<close> are both \<^typ>\<open>string\<close>: the type
  \<^typ>\<open>char\<close> has exactly 256 values, so the conversions \<^verbatim>\<open>[]byte(s)\<close> and
  \<^verbatim>\<open>string(b)\<close> are the identity. Unsigned integers are words; \<^verbatim>\<open>int64\<close> and
  \<^verbatim>\<open>int\<close> are \<^typ>\<open>int\<close> with the wrap-around \<open>i64\<close> written where the source computes.
  A Go error is a value of \<open>error option\<close> (\<open>None\<close> is \<^verbatim>\<open>nil\<close>). A call that
  may fail to return (a run-time panic, an endless loop) has an option result, \<open>None\<close>
  meaning that it does not return.
\<close>

section \<open>Types\<close>

type_synonym bytes = string
type_synonym u32 = "32 word"
type_synonym u64 = "64 word"
type_synonym hash = bytes

datatype error =
    ErrNotFound
  | Err string
  | Wrap string error

type_synonym err = "error option"

named_theorems bytes_simps and loop_simps and store_simps

section \<open>Signed 64-bit arithmetic\<close>

definition i64 :: "int \<Rightarrow> int" where
  "i64 x = sint (word_of_int x :: u64)"

definition in_i64 :: "int \<Rightarrow> bool" where
  "in_i64 x \<longleftrightarrow> - (2 ^ 63) \<le> x \<and> x < 2 ^ 63"

definition u64_of_int :: "int \<Rightarrow> u64" where
  "u64_of_int x = word_of_int x"

definition int_of_u64 :: "u64 \<Rightarrow> int" where
  "int_of_u64 w = sint w"

lemma i64_eq: "i64 x = (x + 2 ^ 63) mod 2 ^ 64 - 2 ^ 63"
  unfolding i64_def by (subst int_word_sint) simp

lemma i64_id [simp]: "in_i64 x \<Longrightarrow> i64 x = x"
  unfolding i64_eq in_i64_def by simp

lemma i64_small: "0 \<le> x \<Longrightarrow> x < 2 ^ 63 \<Longrightarrow> i64 x = x"
  by (intro i64_id) (simp add: in_i64_def)

lemma i64_in [simp]: "in_i64 (i64 x)"
proof -
  have "0 \<le> (x + 2 ^ 63) mod 2 ^ 64" "(x + 2 ^ 63) mod 2 ^ 64 < (2 ^ 64 :: int)"
    by simp_all
  then show ?thesis unfolding i64_eq in_i64_def by auto
qed

lemma int_of_u64_of_int [simp]: "int_of_u64 (u64_of_int x) = i64 x"
  by (simp add: int_of_u64_def u64_of_int_def i64_def)

lemma int_of_u64_in [simp]: "in_i64 (int_of_u64 w)"
proof -
  have "i64 (uint w) = sint w" by (simp add: i64_def)
  then show ?thesis unfolding int_of_u64_def by (metis i64_in)
qed

lemma u64_of_int_of_u64 [simp]: "u64_of_int (int_of_u64 w) = w"
  by (simp add: int_of_u64_def u64_of_int_def)

lemma u64_of_int_inj: "in_i64 x \<Longrightarrow> in_i64 y \<Longrightarrow> u64_of_int x = u64_of_int y \<Longrightarrow> x = y"
  by (metis i64_id int_of_u64_of_int)

text \<open>Go's integer division truncates towards zero.\<close>

definition go_div :: "int \<Rightarrow> int \<Rightarrow> int" where
  "go_div a b = sgn a * sgn b * (\<bar>a\<bar> div \<bar>b\<bar>)"

lemma go_div_nonneg: "0 \<le> a \<Longrightarrow> 0 < b \<Longrightarrow> go_div a b = a div b"
  by (cases "a = 0") (auto simp: go_div_def)

lemma in_i64_simps:
  "in_i64 0" "0 \<le> x \<Longrightarrow> x \<le> y \<Longrightarrow> in_i64 y \<Longrightarrow> in_i64 x"
  by (auto simp: in_i64_def)


section \<open>Byte order\<close>

text \<open>\<^verbatim>\<open>binary.LittleEndian\<close> and \<^verbatim>\<open>binary.BigEndian\<close> of the Go standard library.\<close>

fun le_bytes :: "nat \<Rightarrow> nat \<Rightarrow> bytes" where
  "le_bytes 0 v = []"
| "le_bytes (Suc n) v = char_of (v mod 256) # le_bytes n (v div 256)"

fun be_bytes :: "nat \<Rightarrow> nat \<Rightarrow> bytes" where
  "be_bytes 0 v = []"
| "be_bytes (Suc n) v = be_bytes n (v div 256) @ [char_of (v mod 256)]"

definition be_nat :: "bytes \<Rightarrow> nat" where
  "be_nat bs = foldl (\<lambda>acc c. acc * 256 + of_char c) 0 bs"

fun le_nat :: "bytes \<Rightarrow> nat" where
  "le_nat [] = 0"
| "le_nat (c # cs) = of_char c + 256 * le_nat cs"

lemma length_le_bytes [simp]: "length (le_bytes n v) = n"
  by (induction n arbitrary: v) auto

lemma length_be_bytes [simp]: "length (be_bytes n v) = n"
  by (induction n arbitrary: v) auto

lemma of_char_of_mod [simp]: "(of_char (char_of (n :: nat)) :: nat) = n mod 256"
  by simp

lemma be_nat_snoc [bytes_simps]: "be_nat (bs @ [c]) = be_nat bs * 256 + of_char c"
  by (simp add: be_nat_def)

lemma be_nat_Nil [bytes_simps]: "be_nat [] = 0"
  by (simp add: be_nat_def)

lemma be_nat_be_bytes [bytes_simps]: "be_nat (be_bytes n v) = v mod 256 ^ n"
proof (induction n arbitrary: v)
  case (Suc n)
  have "v mod (256 * 256 ^ n) = 256 * (v div 256 mod 256 ^ n) + v mod 256"
    by (rule mod_mult2_eq)
  with Suc show ?case by (simp add: be_nat_snoc mult.commute)
qed (simp add: be_nat_Nil)

lemma le_nat_le_bytes [bytes_simps]: "le_nat (le_bytes n v) = v mod 256 ^ n"
proof (induction n arbitrary: v)
  case (Suc n)
  have "v mod (256 * 256 ^ n) = 256 * (v div 256 mod 256 ^ n) + v mod 256"
    by (rule mod_mult2_eq)
  with Suc show ?case by simp
qed simp

lemma be_nat_bound: "be_nat bs < 256 ^ length bs"
proof (induction bs rule: rev_induct)
  case (snoc c bs)
  have "be_nat bs * 256 + of_char c < (be_nat bs + 1) * 256" by simp
  also from snoc have "\<dots> \<le> 256 ^ length bs * 256"
    by (intro mult_right_mono) simp_all
  finally have "be_nat bs * 256 + of_char c < 256 ^ length bs * 256" .
  then show ?case by (simp add: be_nat_snoc mult.commute)
qed (simp add: be_nat_Nil)

lemma be_nat_append: "be_nat (xs @ ys) = be_nat xs * 256 ^ length ys + be_nat ys"
proof (induction ys rule: rev_induct)
  case (snoc y ys)
  have "be_nat (xs @ ys @ [y]) = be_nat (xs @ ys) * 256 + of_char y"
    using be_nat_snoc [of "xs @ ys" y] by simp
  with snoc show ?case by (simp add: be_nat_snoc algebra_simps)
qed (simp add: be_nat_Nil)

lemma le_bytes_inj:
  assumes "v < 256 ^ n" "w < 256 ^ n" "le_bytes n v = le_bytes n w" shows "v = w"
  using assms by (metis le_nat_le_bytes mod_less)

lemma be_bytes_be_nat [bytes_simps]: "be_bytes (length bs) (be_nat bs) = bs"
proof (induction bs rule: rev_induct)
  case (snoc c bs)
  have "(of_char c :: nat) < 256" by (rule nat_of_char_less_256)
  with snoc show ?case by (simp add: be_nat_snoc)
qed simp

text \<open>\<^verbatim>\<open>binary.BigEndian.PutUint64\<close> and \<^verbatim>\<open>Uint64\<close>; the latter panics on fewer than eight
  bytes and ignores the rest.\<close>

definition PutUint64 :: "u64 \<Rightarrow> bytes" where
  "PutUint64 v = map (\<lambda>n. char_of (uint (drop_bit n v))) [56, 48, 40, 32, 24, 16, 8, 0]"

definition be_int :: "bytes \<Rightarrow> int" where
  "be_int bs = foldl (\<lambda>acc c. acc * 256 + of_char c) 0 bs"

definition Uint64 :: "bytes \<Rightarrow> u64 option" where
  "Uint64 b = (if length b < 8 then None else Some (of_int (be_int (take 8 b))))"

lemma be_int_be_nat: "be_int bs = int (be_nat bs)"
  by (induction bs rule: rev_induct) (simp_all add: be_int_def be_nat_def of_nat_of_char)

lemma char_of_uint_drop:
  fixes v :: u64
  shows "char_of (uint (drop_bit n v)) = char_of (unat v div 2 ^ n)"
proof -
  have "int (unat (drop_bit n v)) = uint (drop_bit n v)" by simp
  then have "char_of (uint (drop_bit n v)) = char_of (unat (drop_bit n v))"
    by (metis char_of_nat)
  also have "unat (drop_bit n v) = unat v div 2 ^ n"
  proof -
    have "take_bit 64 (unat v) = unat v"
      using unsigned_less [of v, where ?'a = nat] by (simp add: take_bit_nat_eq_self_iff)
    then show ?thesis by (subst unsigned_drop_bit_eq) (simp add: drop_bit_eq_div)
  qed
  finally show ?thesis .
qed

lemma PutUint64_be_bytes: "PutUint64 v = be_bytes 8 (unat v)"
proof -
  have "be_bytes (Suc (Suc (Suc (Suc (Suc (Suc (Suc (Suc 0)))))))) x
      = map (\<lambda>n. char_of (x div 2 ^ n)) [56, 48, 40, 32, 24, 16, 8, 0]" for x :: nat
    by (simp add: div_mult2_eq [symmetric])
  moreover have "(8 :: nat) = Suc (Suc (Suc (Suc (Suc (Suc (Suc (Suc 0)))))))" by simp
  ultimately have "be_bytes 8 x = map (\<lambda>n. char_of (x div 2 ^ n)) [56, 48, 40, 32, 24, 16, 8, 0]"
    for x :: nat by (simp only:)
  then show ?thesis by (simp add: PutUint64_def char_of_uint_drop)
qed

lemma length_PutUint64 [simp]: "length (PutUint64 v) = 8"
  by (simp add: PutUint64_def)

lemma Uint64_PutUint64 [simp]: "Uint64 (PutUint64 v) = Some v"
proof -
  have "unat v < 256 ^ 8" using unsigned_less [of v, where ?'a = nat] by simp
  then have "be_int (PutUint64 v) = uint v"
    by (simp add: be_int_be_nat PutUint64_be_bytes be_nat_be_bytes)
  then show ?thesis by (simp add: Uint64_def)
qed

section \<open>Decimal formatting\<close>

text \<open>
  \<^verbatim>\<open>fmt.Sprintf("%d", n)\<close> and \<^verbatim>\<open>strconv.FormatUint(n, 10)\<close> on an unsigned number.
\<close>

definition digit :: "nat \<Rightarrow> char" where
  "digit d = char_of (48 + d)"

fun dec_nat :: "nat \<Rightarrow> string" where
  "dec_nat n = (if n < 10 then [digit n] else dec_nat (n div 10) @ [digit (n mod 10)])"

declare dec_nat.simps [simp del]

definition dec_u64 :: "u64 \<Rightarrow> string" where
  "dec_u64 v = dec_nat (unat v)"

definition dec_val :: "string \<Rightarrow> nat" where
  "dec_val s = foldl (\<lambda>n c. n * 10 + (of_char c - 48)) 0 s"

lemma of_char_digit [simp]: "d < 10 \<Longrightarrow> (of_char (digit d) :: nat) = 48 + d"
  by (simp add: digit_def)

lemma digit_inj: "d < 10 \<Longrightarrow> e < 10 \<Longrightarrow> digit d = digit e \<Longrightarrow> d = e"
  by (metis of_char_digit add_left_cancel)

lemma dec_nat_not_Nil [simp]: "dec_nat n \<noteq> []"
  by (subst dec_nat.simps) simp

lemma dec_nat_digits: "c \<in> set (dec_nat n) \<Longrightarrow> \<exists>d < 10. c = digit d"
proof (induction n rule: dec_nat.induct)
  case (1 n)
  then show ?case
    by (cases "n < 10") (force simp: dec_nat.simps [of n])+
qed

lemma dec_val_snoc: "dec_val (s @ [c]) = dec_val s * 10 + (of_char c - 48)"
  by (simp add: dec_val_def)

lemma dec_val_dec_nat [simp]: "dec_val (dec_nat n) = n"
proof (induction n rule: dec_nat.induct)
  case (1 n)
  show ?case
  proof (cases "n < 10")
    case True
    then show ?thesis by (simp add: dec_nat.simps [of n] dec_val_def)
  next
    case False
    with 1 show ?thesis by (simp add: dec_nat.simps [of n] dec_val_snoc)
  qed
qed

lemma dec_nat_inj: "dec_nat m = dec_nat n \<Longrightarrow> m = n"
  by (metis dec_val_dec_nat)

lemma dec_u64_inj: "dec_u64 m = dec_u64 n \<Longrightarrow> m = n"
  unfolding dec_u64_def by (blast dest: dec_nat_inj intro: unsigned_word_eqI)

lemma dec_nat_no_colon: "CHR '':'' \<notin> set (dec_nat n)"
proof
  assume "CHR '':'' \<in> set (dec_nat n)"
  then obtain d where "d < 10" "CHR '':'' = digit d" by (blast dest: dec_nat_digits)
  then have "(of_char (CHR '':'') :: nat) = 48 + d" by simp
  with \<open>d < 10\<close> show False by simp
qed

text \<open>A decimal field ended by a colon determines the number and what follows.\<close>

lemma sep_append_inj:
  assumes "x @ c # xs = y @ c # ys" "c \<notin> set x" "c \<notin> set y"
  shows "x = y \<and> xs = ys"
  using assms
proof (induction x arbitrary: y)
  case Nil
  then show ?case by (cases y) auto
next
  case (Cons a x)
  then show ?case by (cases y) auto
qed

lemma dec_u64_colon_inj:
  "dec_u64 m @ CHR '':'' # xs = dec_u64 n @ CHR '':'' # ys \<Longrightarrow> m = n \<and> xs = ys"
  using sep_append_inj [of "dec_u64 m" "CHR '':''" xs "dec_u64 n" ys]
  by (auto simp: dec_u64_def dec_nat_no_colon intro: dec_u64_inj [unfolded dec_u64_def])

section \<open>Loops\<close>

text \<open>
  \<open>foldE body xs s\<close> is \<^verbatim>\<open>for _, x := range xs { ... }\<close> over a loop state: the body
  panics (\<open>None\<close>), leaves the loop with a result (\<open>Inl\<close>) or goes on (\<open>Inr\<close>).
\<close>

fun foldE :: "('a \<Rightarrow> 's \<Rightarrow> ('r + 's) option) \<Rightarrow> 'a list \<Rightarrow> 's \<Rightarrow> ('r + 's) option" where
  "foldE body [] s = Some (Inr s)"
| "foldE body (x # xs) s =
     (case body x s of
        None \<Rightarrow> None
      | Some (Inl r) \<Rightarrow> Some (Inl r)
      | Some (Inr s') \<Rightarrow> foldE body xs s')"

lemma foldE_append:
  "foldE body (xs @ ys) s =
     (case foldE body xs s of
        None \<Rightarrow> None
      | Some (Inl r) \<Rightarrow> Some (Inl r)
      | Some (Inr s') \<Rightarrow> foldE body ys s')"
  by (induction xs arbitrary: s) (auto split: option.splits sum.splits)

lemma foldE_cong:
  "(\<And>x s. x \<in> set xs \<Longrightarrow> f x s = g x s) \<Longrightarrow> foldE f xs s = foldE g xs s"
  by (induction xs arbitrary: s) (auto split: option.splits sum.splits)

lemma foldE_inv:
  assumes "foldE body xs s = Some (Inr s')" "P s"
    and "\<And>x s s'. x \<in> set xs \<Longrightarrow> P s \<Longrightarrow> body x s = Some (Inr s') \<Longrightarrow> P s'"
  shows "P s'"
  using assms
proof (induction xs arbitrary: s)
  case (Cons x xs)
  from Cons.prems(1) obtain s1 where s1: "body x s = Some (Inr s1)" "foldE body xs s1 = Some (Inr s')"
    by (auto split: option.splits sum.splits)
  show ?case
  proof (rule Cons.IH [OF s1(2)])
    show "P s1" by (rule Cons.prems(3) [OF _ Cons.prems(2) s1(1)]) simp
  qed (rule Cons.prems(3), simp_all)
qed simp

text \<open>Going on with the state of a part of a body that did not leave.\<close>

definition bindE :: "('r + 's) option \<Rightarrow> ('s \<Rightarrow> ('r + 't) option) \<Rightarrow> ('r + 't) option" where
  "bindE m f = (case m of None \<Rightarrow> None | Some (Inl r) \<Rightarrow> Some (Inl r) | Some (Inr s) \<Rightarrow> f s)"

lemma bindE_simps [simp]:
  "bindE None f = None" "bindE (Some (Inl r)) f = Some (Inl r)" "bindE (Some (Inr s)) f = f s"
  by (simp_all add: bindE_def)

lemma foldE_Cons_bindE: "foldE body (x # xs) s = bindE (body x s) (foldE body xs)"
  by (simp add: bindE_def)

lemma bindE_eq_Inr: "bindE m f = Some (Inr t) \<longleftrightarrow> (\<exists>s. m = Some (Inr s) \<and> f s = Some (Inr t))"
  by (auto simp: bindE_def split: option.splits sum.splits)

text \<open>A chain of checks that stops at the first error.\<close>

fun first_err :: "('a \<Rightarrow> err) \<Rightarrow> 'a list \<Rightarrow> err" where
  "first_err chk [] = None"
| "first_err chk (x # xs) = (case chk x of Some e \<Rightarrow> Some e | None \<Rightarrow> first_err chk xs)"

lemma first_err_None: "first_err chk xs = None \<longleftrightarrow> (\<forall>x \<in> set xs. chk x = None)"
  by (induction xs) (auto split: option.splits)

text \<open>
  \<open>for_u64 body h hi s\<close> is \<^verbatim>\<open>for ; h <= hi; h++ { ... }\<close> on \<^verbatim>\<open>uint64\<close>: the increment
  wraps, so the loop does not end when \<open>hi\<close> is the largest value and no iteration leaves it.
\<close>

partial_function (option) for_u64 ::
  "(u64 \<Rightarrow> 's \<Rightarrow> ('r + 's) option) \<Rightarrow> u64 \<Rightarrow> u64 \<Rightarrow> 's \<Rightarrow> ('r + 's) option" where
  [code]: "for_u64 body h hi s =
     (if h \<le> hi
      then (case body h s of
              None \<Rightarrow> None
            | Some r \<Rightarrow> (case r of Inl x \<Rightarrow> Some (Inl x) | Inr s' \<Rightarrow> for_u64 body (h + 1) hi s'))
      else Some (Inr s))"

lemma unat_inc:
  fixes h hi :: u64
  assumes "h \<le> hi" "hi \<noteq> - 1"
  shows "unat (h + 1) = Suc (unat h)"
proof -
  have "h \<noteq> - 1" using assms by (metis word_order.extremum_uniqueI)
  then have "1 + h \<noteq> 0" by (simp add: add_eq_0_iff)
  then show ?thesis using unatSuc [of h] by (simp add: add.commute)
qed

definition u64_range :: "u64 \<Rightarrow> u64 \<Rightarrow> u64 list" where
  "u64_range lo hi = map of_nat [unat lo ..< Suc (unat hi)]"

lemma u64_range_empty [loop_simps]: "\<not> lo \<le> hi \<Longrightarrow> u64_range lo hi = []"
  by (simp add: u64_range_def word_le_nat_alt)

lemma u64_range_step [loop_simps]:
  assumes "lo \<le> hi" "hi \<noteq> - 1"
  shows "u64_range lo hi = lo # u64_range (lo + 1) hi"
proof -
  have "unat (lo + 1) = Suc (unat lo)" using assms by (rule unat_inc)
  moreover have "unat lo < Suc (unat hi)" using assms(1) by (simp add: word_le_nat_alt)
  ultimately show ?thesis by (simp add: u64_range_def upt_conv_Cons del: upt_Suc)
qed

lemma set_u64_range: "x \<in> set (u64_range lo hi) \<longleftrightarrow> lo \<le> x \<and> x \<le> hi"
proof
  assume "x \<in> set (u64_range lo hi)"
  then obtain n where n: "unat lo \<le> n" "n \<le> unat hi" "x = of_nat n"
    by (auto simp: u64_range_def simp del: upt_Suc)
  have "n < 2 ^ 64" using n(2) unsigned_less [of hi, where ?'a = nat] by simp
  then have "unat x = n" unfolding n(3) by (subst of_nat_inverse) auto
  with n show "lo \<le> x \<and> x \<le> hi" by (simp add: word_le_nat_alt)
next
  assume "lo \<le> x \<and> x \<le> hi"
  then have "unat x \<in> set [unat lo ..< Suc (unat hi)]"
    unfolding word_le_nat_alt by (simp del: upt_Suc)
  then have "of_nat (unat x) \<in> (of_nat :: nat \<Rightarrow> u64) ` set [unat lo ..< Suc (unat hi)]"
    by (rule imageI)
  then show "x \<in> set (u64_range lo hi)"
    unfolding u64_range_def set_map by simp
qed

text \<open>Away from the largest bound the loop is the fold over the heights it names.\<close>

lemma for_u64_eq_foldE [loop_simps]:
  assumes "hi \<noteq> - 1"
  shows "for_u64 body h hi s = foldE body (u64_range h hi) s"
proof (induction "Suc (unat hi) - unat h" arbitrary: h s)
  case 0
  then have "\<not> h \<le> hi" by (simp add: word_le_nat_alt)
  then show ?case by (simp add: for_u64.simps [of body h] u64_range_empty)
next
  case (Suc n)
  then have le: "h \<le> hi" by (simp add: word_le_nat_alt)
  have "unat (h + 1) = Suc (unat h)" using le assms by (rule unat_inc)
  with Suc.hyps(2) have "n = Suc (unat hi) - unat (h + 1)" by simp
  note IH = Suc.hyps(1) [OF this]
  show ?case
    using le assms
    by (simp add: for_u64.simps [of body h] u64_range_step IH split: option.split sum.split)
qed

section \<open>\<^verbatim>\<open>make\<close>\<close>

text \<open>
  \<^verbatim>\<open>make([]T, 0, n)\<close> panics on a negative \<open>n\<close>, and where \<open>n\<close> elements need more than the
  \<open>2 ^ 48\<close> bytes the 64-bit ports can address.
\<close>

definition make_panics :: "int \<Rightarrow> int \<Rightarrow> bool" where
  "make_panics sz n \<longleftrightarrow> n < 0 \<or> sz * n > 2 ^ 48"

end
