(* ===== verification/Sha256.thy ===== *)
theory Sha256
  imports Prelude
begin

text \<open>
  The part of the Go standard library's \<^verbatim>\<open>crypto/sha256\<close> the node uses: \<^verbatim>\<open>sha256.Sum256\<close>
  (and \<^verbatim>\<open>h.Write\<close> followed by \<^verbatim>\<open>h.Sum(nil)\<close>, which hashes the concatenation of what was
  written), as FIPS 180-4 defines it on 32-bit words.
\<close>

text \<open>The round constants: the leading 32 bits of the fractional parts of the cube roots of the
  first 64 primes, in decimal.\<close>

definition sha256_K :: "u32 list" where
  "sha256_K = [
     1116352408, 1899447441, 3049323471, 3921009573, 961987163, 1508970993,
     2453635748, 2870763221, 3624381080, 310598401, 607225278, 1426881987,
     1925078388, 2162078206, 2614888103, 3248222580, 3835390401, 4022224774,
     264347078, 604807628, 770255983, 1249150122, 1555081692, 1996064986,
     2554220882, 2821834349, 2952996808, 3210313671, 3336571891, 3584528711,
     113926993, 338241895, 666307205, 773529912, 1294757372, 1396182291,
     1695183700, 1986661051, 2177026350, 2456956037, 2730485921, 2820302411,
     3259730800, 3345764771, 3516065817, 3600352804, 4094571909, 275423344,
     430227734, 506948616, 659060556, 883997877, 958139571, 1322822218,
     1537002063, 1747873779, 1955562222, 2024104815, 2227730452, 2361852424,
     2428436474, 2756734187, 3204031479, 3329325298]"

type_synonym sha_state = "u32 \<times> u32 \<times> u32 \<times> u32 \<times> u32 \<times> u32 \<times> u32 \<times> u32"

definition sha256_IV :: sha_state where
  "sha256_IV = (1779033703, 3144134277, 1013904242, 2773480762,
                1359893119, 2600822924, 528734635, 1541459225)"

definition rotr :: "nat \<Rightarrow> u32 \<Rightarrow> u32" where
  "rotr n x = drop_bit n x OR push_bit (32 - n) x"

definition Ch :: "u32 \<Rightarrow> u32 \<Rightarrow> u32 \<Rightarrow> u32" where
  "Ch x y z = (x AND y) XOR (NOT x AND z)"

definition Maj :: "u32 \<Rightarrow> u32 \<Rightarrow> u32 \<Rightarrow> u32" where
  "Maj x y z = (x AND y) XOR (x AND z) XOR (y AND z)"

definition Sigma0 :: "u32 \<Rightarrow> u32" where
  "Sigma0 x = rotr 2 x XOR rotr 13 x XOR rotr 22 x"

definition Sigma1 :: "u32 \<Rightarrow> u32" where
  "Sigma1 x = rotr 6 x XOR rotr 11 x XOR rotr 25 x"

definition sigma0 :: "u32 \<Rightarrow> u32" where
  "sigma0 x = rotr 7 x XOR rotr 18 x XOR drop_bit 3 x"

definition sigma1 :: "u32 \<Rightarrow> u32" where
  "sigma1 x = rotr 17 x XOR rotr 19 x XOR drop_bit 10 x"

text \<open>The message schedule, built backwards: the head is the last word computed.\<close>

fun sha_schedule :: "nat \<Rightarrow> u32 list \<Rightarrow> u32 list" where
  "sha_schedule 0 w = w"
| "sha_schedule (Suc n) w =
     sha_schedule n ((sigma1 (w ! 1) + w ! 6 + sigma0 (w ! 14) + w ! 15) # w)"

fun sha_round :: "u32 \<times> u32 \<Rightarrow> sha_state \<Rightarrow> sha_state" where
  "sha_round (k, w) (a, b, c, d, e, f, g, h) =
     (let t1 = h + Sigma1 e + Ch e f g + k + w;
          t2 = Sigma0 a + Maj a b c
      in (t1 + t2, a, b, c, d + t1, e, f, g))"

fun sha_add :: "sha_state \<Rightarrow> sha_state \<Rightarrow> sha_state" where
  "sha_add (a, b, c, d, e, f, g, h) (a', b', c', d', e', f', g', h') =
     (a + a', b + b', c + c', d + d', e + e', f + f', g + g', h + h')"

text \<open>Cutting a byte string into groups of \<open>n\<close>.\<close>

function groups :: "nat \<Rightarrow> 'a list \<Rightarrow> 'a list list" where
  "groups n xs = (if n = 0 \<or> xs = [] then [] else take n xs # groups n (drop n xs))"
  by pat_completeness auto
termination by (relation "measure (\<lambda>(n, xs). length xs)") auto

declare groups.simps [simp del]

definition be_u32 :: "bytes \<Rightarrow> u32" where
  "be_u32 g = of_int (be_int g)"

definition u32_be :: "u32 \<Rightarrow> bytes" where
  "u32_be x = map (\<lambda>n. char_of (uint (drop_bit n x))) [24, 16, 8, 0]"

definition sha_block :: "bytes \<Rightarrow> sha_state \<Rightarrow> sha_state" where
  "sha_block blk s =
     (let w = rev (sha_schedule 48 (rev (map be_u32 (groups 4 blk))))
      in sha_add s (fold sha_round (zip sha256_K w) s))"

definition sha_pad :: "bytes \<Rightarrow> bytes" where
  "sha_pad m = m @ CHR 0x80 # replicate ((119 - length m mod 64) mod 64) (CHR 0x00)
                 @ PutUint64 (of_int (8 * int (length m)))"

fun sha_out :: "sha_state \<Rightarrow> bytes" where
  "sha_out (a, b, c, d, e, f, g, h) = concat (map u32_be [a, b, c, d, e, f, g, h])"

definition Sum256 :: "bytes \<Rightarrow> bytes" where
  "Sum256 m = sha_out (fold sha_block (groups 64 (sha_pad m)) sha256_IV)"

lemma length_u32_be [simp]: "length (u32_be x) = 4"
  by (simp add: u32_be_def)

lemma length_sha_out [simp]: "length (sha_out s) = 32"
  by (cases s rule: sha_out.cases) simp

lemma length_Sum256 [simp]: "length (Sum256 m) = 32"
  by (simp add: Sum256_def)

text \<open>The padded message is a whole number of 64-byte blocks.\<close>

lemma sha_pad_zeros:
  fixes r :: nat
  assumes "r < 64"
  shows "64 dvd r + 9 + (119 - r) mod 64"
proof (cases "r \<le> 55")
  case True
  then have "119 - r = 64 + (55 - r)" by arith
  then have "(119 - r) mod 64 = (55 - r) mod 64" by (simp only: mod_add_self1)
  also have "\<dots> = 55 - r" by (rule mod_less) simp
  finally have "r + 9 + (119 - r) mod 64 = 64" using True by simp
  then show ?thesis by (simp only: dvd_refl)
next
  case False
  then have "(119 - r) mod 64 = 119 - r" by (intro mod_less) simp
  with assms have "r + 9 + (119 - r) mod 64 = 64 * 2" by simp
  then show ?thesis by (simp only: dvd_triv_left)
qed

lemma sha_pad_blocks: "64 dvd length (sha_pad m)"
proof -
  define r where "r = length m mod 64"
  have "r < 64" unfolding r_def by (rule mod_less_divisor) simp
  then have "64 dvd r + 9 + (119 - r) mod 64"
    by (rule sha_pad_zeros)
  moreover have "length m = 64 * (length m div 64) + r"
    unfolding r_def by (rule mult_div_mod_eq [symmetric])
  moreover have "length (sha_pad m) = length m + 9 + (119 - r) mod 64"
    by (simp add: sha_pad_def r_def [symmetric] del: mod_less)
  ultimately show ?thesis by (metis add.assoc dvd_add dvd_triv_left)
qed

end
