(* ===== verification/Hashes.thy ===== *)
theory Hashes
  imports Sha256
begin

text \<open>
  The hash type of \<^verbatim>\<open>core/chain\<close> with its hexadecimal spelling (\<^verbatim>\<open>block.go\<close>,
  \<^verbatim>\<open>hash_parse.go\<close>, \<^verbatim>\<open>tx.go\<close>) and the byte encoders of \<^verbatim>\<open>codec.go\<close>. The encoders are
  self-delimiting: the locale \<open>prefix_code\<close> states it, and every encoder is an interpretation.
\<close>

section \<open>Hashes: \<^verbatim>\<open>block.go\<close>, \<^verbatim>\<open>hash_parse.go\<close>, \<^verbatim>\<open>tx.go\<close>\<close>

definition zero_hash :: hash where
  "zero_hash = replicate 32 (CHR 0x00)"

definition hexd :: string where
  "hexd = ''0123456789abcdef''"

text \<open>The two digits of a byte: \<^verbatim>\<open>hexd[b>>4]\<close> and \<^verbatim>\<open>hexd[b&0x0f]\<close>.\<close>

definition hex_byte :: "char \<Rightarrow> string" where
  "hex_byte b = [hexd ! drop_bit 4 (of_char b), hexd ! (of_char b AND 15)]"

text \<open>\<^verbatim>\<open>func (h Hash) String() string\<close>; a \<^verbatim>\<open>Hash\<close> is an array of 32 bytes.\<close>

definition Hash_String :: "hash \<Rightarrow> string" where
  "Hash_String h = concat (map (\<lambda>i. hex_byte (h ! i)) [0 ..< 32])"

definition hex32 :: "bytes \<Rightarrow> string" where
  "hex32 b = concat (map (\<lambda>i. hex_byte (b ! i)) [0 ..< length b])"

definition sha256d :: "bytes \<Rightarrow> hash" where
  "sha256d b = (let h1 = Sum256 b in Sum256 h1)"

definition fromHex :: "char \<Rightarrow> int" where
  "fromHex c =
     (if CHR ''0'' \<le> c \<and> c \<le> CHR ''9'' then of_char c - of_char (CHR ''0'')
      else if CHR ''a'' \<le> c \<and> c \<le> CHR ''f'' then of_char c - of_char (CHR ''a'') + 10
      else if CHR ''A'' \<le> c \<and> c \<le> CHR ''F'' then of_char c - of_char (CHR ''A'') + 10
      else - 1)"

text \<open>
  One iteration of the loop of \<^verbatim>\<open>HashFromHex\<close>; on a bad digit the array filled so far is
  returned beside the error.
\<close>

definition HashFromHex_step :: "string \<Rightarrow> nat \<Rightarrow> hash \<Rightarrow> ((hash \<times> err) + hash) option" where
  "HashFromHex_step s i h =
     (let a = fromHex (s ! (i * 2));
          b = fromHex (s ! (i * 2 + 1))
      in if a < 0 \<or> b < 0 then Some (Inl (h, Some (Err ''bad_hex'')))
         else Some (Inr (h[i := char_of (push_bit 4 a OR b)])))"

definition HashFromHex :: "string \<Rightarrow> hash \<times> err" where
  "HashFromHex s =
     (if length s \<noteq> 64 then (zero_hash, Some (Err ''bad_len''))
      else case foldE (HashFromHex_step s) [0 ..< 32] zero_hash of
             Some (Inr h) \<Rightarrow> (h, None)
           | Some (Inl r) \<Rightarrow> r
           | None \<Rightarrow> (zero_hash, None))"

lemma hex_byte_length [simp]: "length (hex_byte b) = 2"
  by (simp add: hex_byte_def)

lemma sha256d_length [simp]: "length (sha256d b) = 32"
  by (simp add: sha256d_def Let_def)

lemma zero_hash_length [simp]: "length zero_hash = 32"
  by (simp add: zero_hash_def)

lemma concat_nth2:
  assumes "\<forall>x \<in> set xs. length (f x) = 2" "i < length xs" "j < 2"
  shows "concat (map f xs) ! (i * 2 + j) = f (xs ! i) ! j"
  using assms
proof (induction xs arbitrary: i)
  case (Cons x xs)
  then show ?case
    by (cases i) (auto simp: nth_append)
qed simp

lemma length_concat2:
  "\<forall>x \<in> set xs. length (f x) = 2 \<Longrightarrow> length (concat (map f xs)) = 2 * length xs"
  by (induction xs) auto

lemma Hash_String_length [simp]: "length (Hash_String h) = 64"
  by (simp add: Hash_String_def length_concat2)

lemma Hash_String_hex32: "length h = 32 \<Longrightarrow> Hash_String h = hex32 h"
  by (simp add: Hash_String_def hex32_def)

text \<open>The digits are read back by \<open>fromHex\<close>: checked for the sixteen digit values.\<close>

lemma map_fromHex_hexd: "map fromHex hexd = map int [0 ..< 16]"
  by code_simp

lemma fromHex_hexd:
  assumes "n < 16" shows "fromHex (hexd ! n) = int n"
proof -
  have "length hexd = 16" by (simp add: hexd_def)
  with assms have "fromHex (hexd ! n) = map fromHex hexd ! n" by (simp only: nth_map)
  also have "\<dots> = int n" unfolding map_fromHex_hexd using assms by (simp del: upt_rec_numeral)
  finally show ?thesis .
qed

lemma mask_4: "mask 4 = (15 :: nat)"
  by (simp add: mask_eq_exp_minus_1)

lemma and_mask_4: "n AND mask 4 = (n :: nat) mod 2 ^ 4"
  by (simp only: take_bit_eq_mask [symmetric] take_bit_eq_mod)

lemma nat_and_15: "n AND (15 :: nat) = n mod 16"
  using and_mask_4 [of n] unfolding mask_4 by simp

lemma fromHex_hex_byte:
  "fromHex (hex_byte b ! 0) = of_char b div 16"
  "fromHex (hex_byte b ! 1) = of_char b mod 16"
proof -
  have "of_char b div 16 < (16 :: nat)"
    by (rule less_mult_imp_div_less) simp
  then have "fromHex (hexd ! (of_char b div 16)) = int (of_char b div 16)"
    by (rule fromHex_hexd)
  then show "fromHex (hex_byte b ! 0) = of_char b div 16"
    by (simp add: hex_byte_def drop_bit_eq_div zdiv_int of_nat_of_char)
  have "fromHex (hexd ! (of_char b mod 16)) = int (of_char b mod 16)"
    by (rule fromHex_hexd) simp
  then show "fromHex (hex_byte b ! 1) = of_char b mod 16"
    by (simp add: hex_byte_def nat_and_15 zmod_int of_nat_of_char)
qed

lemma nibbles_or: "push_bit 4 (k div 16) OR k mod 16 = (k :: int)"
proof -
  have "concat_bit 4 (k mod 16) (k div 16) = k mod 16 + push_bit 4 (k div 16)"
    by (simp add: concat_bit_eq take_bit_eq_mod)
  moreover have "concat_bit 4 (k mod 16) (k div 16) = k mod 16 OR push_bit 4 (k div 16)"
    by (simp add: concat_bit_def take_bit_eq_mod)
  ultimately show ?thesis by (simp add: push_bit_eq_mult or.commute)
qed

lemma of_char_int_nonneg [simp]: "(0 :: int) \<le> of_char c"
  by (metis of_nat_0_le_iff of_nat_of_char)

lemma of_char_int: "(of_char c :: int) = int (of_char c)"
  by (simp add: of_nat_of_char)

text \<open>What the digits of a hash parse to, one byte at a time.\<close>

lemma Hash_String_nth:
  assumes "i < 32" "j < 2"
  shows "Hash_String h ! (i * 2 + j) = hex_byte (h ! i) ! j"
  unfolding Hash_String_def
  by (subst concat_nth2) (use assms in \<open>simp_all del: upt_rec_numeral\<close>)

lemma HashFromHex_step_String:
  assumes "i < 32"
  shows "HashFromHex_step (Hash_String h) i g = Some (Inr (g[i := h ! i]))"
proof -
  have "Hash_String h ! (i * 2) = hex_byte (h ! i) ! 0" "Hash_String h ! (i * 2 + 1) = hex_byte (h ! i) ! 1"
    using Hash_String_nth [OF assms, of 0] Hash_String_nth [OF assms, of 1] by simp_all
  then show ?thesis
    by (simp add: HashFromHex_step_def Let_def fromHex_hex_byte nibbles_or not_less
        pos_imp_zdiv_nonneg_iff del: One_nat_def)
qed

lemma HashFromHex_loop:
  assumes "length h = 32" "k \<le> 32"
  shows "foldE (HashFromHex_step (Hash_String h)) [0 ..< k] zero_hash
       = Some (Inr (take k h @ drop k zero_hash))"
  using assms(2)
proof (induction k)
  case (Suc k)
  have "(take k h @ drop k zero_hash)[k := h ! k] = take (Suc k) h @ drop (Suc k) zero_hash"
    using assms(1) Suc.prems
    by (simp add: list_update_append take_Suc_conv_app_nth flip: Cons_nth_drop_Suc)
  with Suc show ?case
    by (simp add: foldE_append HashFromHex_step_String)
qed (simp add: zero_hash_def)

definition hex_lower :: "char \<Rightarrow> char" where
  "hex_lower c = (if CHR ''A'' \<le> c \<and> c \<le> CHR ''F'' then char_of (of_char c + (32 :: nat)) else c)"

lemma fromHex_digits:
  "0 \<le> fromHex c \<Longrightarrow> c \<in> set ''0123456789abcdefABCDEF''"
proof -
  let ?ns = "[48 ..< 58] @ [97 ..< 103] @ [65 ..< 71] :: nat list"
  assume "0 \<le> fromHex c"
  then have "of_char c \<in> set ?ns"
    by (auto simp: fromHex_def less_eq_char_def split: if_splits simp del: upt_rec_numeral)
  then have "char_of (of_char c :: nat) \<in> set (map char_of ?ns)"
    unfolding set_map by (rule imageI)
  moreover have "map char_of ?ns = ''0123456789abcdefABCDEF''" by code_simp
  ultimately show ?thesis by simp
qed

lemma fromHex_cases:
  "fromHex c < 0 \<or> fromHex c < 16 \<and> hexd ! nat (fromHex c) = hex_lower c"
proof (cases "0 \<le> fromHex c")
  case True
  have "list_all (\<lambda>c. fromHex c < 16 \<and> hexd ! nat (fromHex c) = hex_lower c)
          ''0123456789abcdefABCDEF''"
    by code_simp
  with fromHex_digits [OF True] show ?thesis unfolding list_all_iff by blast
qed simp

lemma hex_byte_nibbles:
  assumes "0 \<le> a" "a < 16" "0 \<le> b" "b < 16"
  shows "hex_byte (char_of (push_bit 4 a OR b)) = [hexd ! nat a, hexd ! nat b]"
proof -
  define n where "n = nat a * 16 + nat b"
  have "int n div 16 = a" "int n mod 16 = b" using assms by (simp_all add: n_def)
  then have "push_bit 4 a OR b = int n" using nibbles_or [of "int n"] by simp
  then have c: "char_of (push_bit 4 a OR b) = char_of n" by simp
  have "n < 256" "n div 16 = nat a" "n mod 16 = nat b" using assms by (auto simp: n_def)
  then show ?thesis
    unfolding c hex_byte_def by (simp add: drop_bit_eq_div nat_and_15)
qed

lemma HashFromHex_step_ok:
  assumes "HashFromHex_step s i g = Some (Inr g')" "i < length g"
  shows "length g' = length g" "hex_byte (g' ! i) = [hex_lower (s ! (i * 2)), hex_lower (s ! (i * 2 + 1))]"
    "j \<noteq> i \<Longrightarrow> g' ! j = g ! j"
proof -
  from assms have nn: "0 \<le> fromHex (s ! (i * 2))" "0 \<le> fromHex (s ! (i * 2 + 1))"
    and g': "g' = g[i := char_of (push_bit 4 (fromHex (s ! (i * 2))) OR fromHex (s ! (i * 2 + 1)))]"
    by (auto simp: HashFromHex_step_def Let_def split: if_splits)
  then show "hex_byte (g' ! i) = [hex_lower (s ! (i * 2)), hex_lower (s ! (i * 2 + 1))]"
    using fromHex_cases [of "s ! (i * 2)"] fromHex_cases [of "s ! (i * 2 + 1)"] assms(2)
    by (simp add: hex_byte_nibbles)
  show "length g' = length g" "j \<noteq> i \<Longrightarrow> g' ! j = g ! j" using g' by simp_all
qed

lemma HashFromHex_loop_ok:
  assumes "foldE (HashFromHex_step s) [0 ..< k] zero_hash = Some (Inr g)" "k \<le> 32"
  shows "length g = 32 \<and>
    (\<forall>i < k. hex_byte (g ! i) = [hex_lower (s ! (i * 2)), hex_lower (s ! (i * 2 + 1))])"
  using assms
proof (induction k arbitrary: g)
  case (Suc k)
  from Suc.prems(1) obtain g0 where g0: "foldE (HashFromHex_step s) [0 ..< k] zero_hash = Some (Inr g0)"
    and st: "HashFromHex_step s k g0 = Some (Inr g)"
    by (auto simp: foldE_append split: option.splits sum.splits)
  from Suc.IH [OF g0] Suc.prems(2) have IH: "length g0 = 32"
    "\<forall>i < k. hex_byte (g0 ! i) = [hex_lower (s ! (i * 2)), hex_lower (s ! (i * 2 + 1))]" by simp_all
  show ?case
    using HashFromHex_step_ok [OF st] IH Suc.prems(2) by (auto simp: less_Suc_eq)
qed simp

text \<open>The loop never panics and leaves early only with an error.\<close>

lemma HashFromHex_loop_total: "foldE (HashFromHex_step s) xs g \<noteq> None"
  by (induction xs arbitrary: g) (auto simp: HashFromHex_step_def Let_def split: if_splits)

lemma HashFromHex_loop_exit: "foldE (HashFromHex_step s) xs g \<noteq> Some (Inl (h, None))"
  by (induction xs arbitrary: g) (auto simp: HashFromHex_step_def Let_def split: if_splits)

lemma HashFromHex_String:
  "length h = 32 \<Longrightarrow> HashFromHex (Hash_String h) = (h, None)"
  using HashFromHex_loop [of h 32] by (simp add: HashFromHex_def del: upt_rec_numeral)

lemma fromHex_hex_lower: "fromHex (hex_lower c) = fromHex c"
proof (cases "CHR ''A'' \<le> c \<and> c \<le> CHR ''F''")
  case True
  then have "0 \<le> fromHex c"
    by (simp add: fromHex_def less_eq_char_def of_char_int)
  then have "c \<in> set ''0123456789abcdefABCDEF''" by (rule fromHex_digits)
  moreover have "list_all (\<lambda>c. fromHex (hex_lower c) = fromHex c) ''0123456789abcdefABCDEF''"
    by code_simp
  ultimately show ?thesis unfolding list_all_iff by blast
qed (auto simp: hex_lower_def)

lemma HashFromHex_lower: "HashFromHex (map hex_lower s) = HashFromHex s"
proof (cases "length s = 64")
  case True
  then have "foldE (HashFromHex_step (map hex_lower s)) [0 ..< 32] zero_hash
    = foldE (HashFromHex_step s) [0 ..< 32] zero_hash"
    by (intro foldE_cong) (simp add: HashFromHex_step_def fromHex_hex_lower del: upt_rec_numeral)
  then show ?thesis by (simp add: HashFromHex_def del: upt_rec_numeral)
qed (simp add: HashFromHex_def)

lemma HashFromHex_ok_String:
  assumes "HashFromHex s = (h, None)"
  shows "length h = 32" "Hash_String h = map hex_lower s"
proof -
  from assms have len: "length s = 64" and
    lp: "foldE (HashFromHex_step s) [0 ..< 32] zero_hash = Some (Inr h)"
    using HashFromHex_loop_total [of s "[0 ..< 32]" zero_hash]
      HashFromHex_loop_exit [of s "[0 ..< 32]" zero_hash h]
    by (auto simp: HashFromHex_def simp del: upt_rec_numeral split: if_splits option.splits sum.splits)
  from HashFromHex_loop_ok [OF lp] have h: "length h = 32"
    "\<And>i. i < 32 \<Longrightarrow> hex_byte (h ! i) = [hex_lower (s ! (i * 2)), hex_lower (s ! (i * 2 + 1))]" by auto
  then show "length h = 32" by simp
  show "Hash_String h = map hex_lower s"
  proof (rule nth_equalityI)
    fix n assume "n < length (Hash_String h)"
    then have n: "n < 64" by simp
    then have i: "n div 2 < 32" by simp
    define j where "j = n mod 2"
    have j: "j < 2" "n = n div 2 * 2 + j" unfolding j_def by simp_all
    have "Hash_String h ! (n div 2 * 2 + j) = hex_byte (h ! (n div 2)) ! j"
      using i j(1) by (rule Hash_String_nth)
    then have "Hash_String h ! n = hex_lower (s ! (n div 2 * 2 + j))"
      using h(2) [OF i] j by (auto simp: less_2_cases_iff)
    with j n len show "Hash_String h ! n = map hex_lower s ! n" by simp
  qed (simp add: len)
qed

text \<open>
  Parsing and printing of hashes are inverse to each other up to letter case:
  \<^verbatim>\<open>HashFromHex\<close> accepts exactly the spellings, in either case, of what \<^verbatim>\<open>String\<close>
  prints for a 32-byte hash, and returns that hash.
\<close>

theorem HashFromHex_iff:
  "HashFromHex s = (h, None) \<longleftrightarrow> length h = 32 \<and> map hex_lower s = Hash_String h"
  using HashFromHex_ok_String [of s h] HashFromHex_lower [of s] HashFromHex_String [of h] by metis

section \<open>Encoders: \<^verbatim>\<open>codec.go\<close>\<close>

definition putU32 :: "bytes \<Rightarrow> u32 \<Rightarrow> bytes" where
  "putU32 b v = b @ le_bytes 4 (unat v)"

definition putU64 :: "bytes \<Rightarrow> u64 \<Rightarrow> bytes" where
  "putU64 b v = b @ le_bytes 8 (unat v)"

definition putI64 :: "bytes \<Rightarrow> int \<Rightarrow> bytes" where
  "putI64 b v = b @ le_bytes 8 (unat (u64_of_int v))"

definition putBytes :: "bytes \<Rightarrow> bytes \<Rightarrow> bytes" where
  "putBytes b x = putU32 b (of_nat (length x)) @ x"

definition putString :: "bytes \<Rightarrow> string \<Rightarrow> bytes" where
  "putString b s = putBytes b s"

text \<open>
  An encoder is a \<^emph>\<open>prefix code\<close> on the values \<open>ok\<close> when no encoding is a proper prefix of another:
  an encoding followed by anything determines the value and what follows.
\<close>

locale prefix_code =
  fixes enc :: "'a \<Rightarrow> bytes" and ok :: "'a \<Rightarrow> bool"
  assumes prefix: "ok a \<Longrightarrow> ok b \<Longrightarrow> enc a @ xs = enc b @ ys \<Longrightarrow> a = b \<and> xs = ys"
begin

lemma append_eq_iff: "ok a \<Longrightarrow> ok b \<Longrightarrow> enc a @ xs = enc b @ ys \<longleftrightarrow> a = b \<and> xs = ys"
  using prefix [of a b xs ys] by auto

lemma enc_eq_iff: "ok a \<Longrightarrow> ok b \<Longrightarrow> enc a = enc b \<longleftrightarrow> a = b"
  using append_eq_iff [of a b "[]" "[]"] by simp

lemma concat_eq_iff:
  assumes "length as = length bs" "\<forall>a \<in> set as. ok a" "\<forall>b \<in> set bs. ok b"
  shows "concat (map enc as) @ xs = concat (map enc bs) @ ys \<longleftrightarrow> as = bs \<and> xs = ys"
  using assms by (induction as bs rule: list_induct2) (auto simp: append_eq_iff)

end

lemma fixed_le_bytes_append:
  assumes "v < 256 ^ n" "w < 256 ^ n"
  shows "le_bytes n v @ xs = le_bytes n w @ ys \<longleftrightarrow> v = w \<and> xs = ys"
  using le_bytes_inj [OF assms] by auto

lemma le_bytes4_u32:
  fixes a b :: u32
  shows "le_bytes 4 (unat a) @ xs = le_bytes 4 (unat b) @ ys \<longleftrightarrow> a = b \<and> xs = ys"
proof -
  have "unat a < 256 ^ 4" "unat b < 256 ^ 4"
    using unsigned_less [of a, where ?'a = nat] unsigned_less [of b, where ?'a = nat] by simp_all
  from fixed_le_bytes_append [OF this, of xs ys] show ?thesis
    by (metis unsigned_word_eqI)
qed

lemma le_bytes8_u64:
  fixes a b :: u64
  shows "le_bytes 8 (unat a) @ xs = le_bytes 8 (unat b) @ ys \<longleftrightarrow> a = b \<and> xs = ys"
proof -
  have "unat a < 256 ^ 8" "unat b < 256 ^ 8"
    using unsigned_less [of a, where ?'a = nat] unsigned_less [of b, where ?'a = nat] by simp_all
  from fixed_le_bytes_append [OF this, of xs ys] show ?thesis
    by (metis unsigned_word_eqI)
qed

interpretation u32_code: prefix_code "putU32 []" "\<lambda>_. True"
  by unfold_locales (simp add: putU32_def le_bytes4_u32 del: append_eq_append_conv)

interpretation u64_code: prefix_code "putU64 []" "\<lambda>_. True"
  by unfold_locales (simp add: putU64_def le_bytes8_u64 del: append_eq_append_conv)

interpretation i64_code: prefix_code "putI64 []" in_i64
  by unfold_locales
    (auto simp: putI64_def le_bytes8_u64 simp del: append_eq_append_conv intro: u64_of_int_inj)

interpretation bytes_code: prefix_code "putBytes []" "\<lambda>x. length x < 2 ^ 32"
proof
  fix a b xs ys :: bytes
  assume len: "length a < 2 ^ 32" "length b < 2 ^ 32"
    and eq: "putBytes [] a @ xs = putBytes [] b @ ys"
  then have "of_nat (length a) = (of_nat (length b) :: u32)" and ap: "a @ xs = b @ ys"
    by (simp_all add: putBytes_def u32_code.append_eq_iff del: append_eq_append_conv)
  then have "unat (of_nat (length a) :: u32) = unat (of_nat (length b) :: u32)" by simp
  then have "length a = length b"
    using len by (simp add: of_nat_inverse)
  with ap show "a = b \<and> xs = ys" by simp
qed

end
