(* ===== verification/Chain.thy ===== *)
theory Chain
  imports Hashes
begin

text \<open>
  Blocks and transactions of \<^verbatim>\<open>core/chain\<close>: the header and its hash (\<^verbatim>\<open>block.go\<close>), the
  transaction types (\<^verbatim>\<open>tx.go\<close>), the canonical transaction bytes (\<^verbatim>\<open>codec.go\<close>) and the
  transaction root (\<^verbatim>\<open>txroot.go\<close>).

  \<^verbatim>\<open>tx.go\<close> calls a function \<^verbatim>\<open>hash256\<close> that no file of the package defines: it is the
  parameter \<open>hash256\<close> of every definition that needs a transaction identifier. The type
  \<^verbatim>\<open>OTAPClaim\<close> is not declared in the package either; \<open>otap_claim\<close> has the fields
  \<^verbatim>\<open>codec.go\<close> encodes.
\<close>

section \<open>Block headers: \<^verbatim>\<open>block.go\<close>\<close>

record block_header =
  bh_Version :: u32
  bh_ChainID :: string
  bh_Height :: u64
  bh_TimeUnix :: int
  bh_PrevHash :: hash
  bh_StateRoot :: hash
  bh_TxRoot :: hash
  bh_Bits :: u32
  bh_Nonce :: u64

text \<open>
  The buffer is filled by \<^verbatim>\<open>append\<close> from four- and eight-byte scratch slices, little endian.
\<close>

definition BytesForHash :: "block_header \<Rightarrow> bytes" where
  "BytesForHash h =
     (let chainIDb = bh_ChainID h;
          buf = putU32 [] (bh_Version h);
          buf = putU32 buf (of_nat (length chainIDb));
          buf = buf @ chainIDb;
          buf = putU64 buf (bh_Height h);
          buf = putU64 buf (u64_of_int (bh_TimeUnix h));
          buf = buf @ bh_PrevHash h;
          buf = buf @ bh_StateRoot h;
          buf = buf @ bh_TxRoot h;
          buf = putU32 buf (bh_Bits h);
          buf = putU64 buf (bh_Nonce h)
      in buf)"

definition Header_Hash :: "block_header \<Rightarrow> hash" where
  "Header_Hash h = sha256d (BytesForHash h)"

lemma Header_Hash_length [simp]: "length (Header_Hash h) = 32"
  by (simp add: Header_Hash_def)

text \<open>The values a Go header can hold.\<close>

definition header_ok :: "block_header \<Rightarrow> bool" where
  "header_ok h \<longleftrightarrow> length (bh_ChainID h) < 2 ^ 32 \<and> in_i64 (bh_TimeUnix h)
     \<and> length (bh_PrevHash h) = 32 \<and> length (bh_StateRoot h) = 32 \<and> length (bh_TxRoot h) = 32"

text \<open>Appending to a non-empty buffer is appending to what the empty buffer gives.\<close>

lemma put_acc [bytes_simps]:
  "NO_MATCH [] b \<Longrightarrow> putU32 b v = b @ putU32 [] v"
  "NO_MATCH [] b \<Longrightarrow> putU64 b w = b @ putU64 [] w"
  "NO_MATCH [] b \<Longrightarrow> putI64 b i = b @ putI64 [] i"
  "NO_MATCH [] b \<Longrightarrow> putBytes b x = b @ putBytes [] x"
  by (simp_all add: putU32_def putU64_def putI64_def putBytes_def)

lemma putString_eq [bytes_simps]: "putString b s = putBytes b s"
  by (simp add: putString_def)

lemmas code_eq_iff =
  u32_code.append_eq_iff u32_code.enc_eq_iff u64_code.append_eq_iff u64_code.enc_eq_iff
  i64_code.append_eq_iff i64_code.enc_eq_iff bytes_code.append_eq_iff bytes_code.enc_eq_iff

text \<open>A 32-byte field followed by anything determines the field and what follows.\<close>

lemma hash_append_eq_iff:
  "length a = 32 \<Longrightarrow> length b = 32 \<Longrightarrow> a @ xs = b @ ys \<longleftrightarrow> a = b \<and> xs = ys"
  by simp

lemma putBytes_fold: "putU32 [] (of_nat (length x)) @ x @ ys = putBytes [] x @ ys"
  by (simp add: putBytes_def)

lemma BytesForHash_eq:
  "BytesForHash h =
     putU32 [] (bh_Version h) @ putBytes [] (bh_ChainID h) @ putU64 [] (bh_Height h)
     @ putI64 [] (bh_TimeUnix h) @ bh_PrevHash h @ bh_StateRoot h @ bh_TxRoot h
     @ putU32 [] (bh_Bits h) @ putU64 [] (bh_Nonce h)"
  by (simp add: BytesForHash_def Let_def putU32_def putU64_def putI64_def putBytes_def)

text \<open>
  C34. The bytes that are hashed for a block header determine the header: two headers of the
  types Go gives the fields, with chain identifiers shorter than four gigabytes, have the same
  \<^verbatim>\<open>BytesForHash\<close> only if they are equal in every field.
\<close>

theorem BytesForHash_inj:
  assumes "header_ok a" "header_ok b"
  shows "BytesForHash a = BytesForHash b \<longleftrightarrow> a = b"
proof
  assume "BytesForHash a = BytesForHash b"
  then show "a = b"
    using assms unfolding BytesForHash_eq header_ok_def
    by (intro block_header.equality)
      (simp_all add: code_eq_iff hash_append_eq_iff del: append_eq_append_conv)
qed simp

definition sample_header :: block_header where
  "sample_header = \<lparr>bh_Version = 1, bh_ChainID = ''reserve-test'', bh_Height = 7, bh_TimeUnix = 1700000000,
     bh_PrevHash = zero_hash, bh_StateRoot = zero_hash, bh_TxRoot = zero_hash,
     bh_Bits = 0x1f00ffff, bh_Nonce = 42\<rparr>"

lemma sample_header_ok: "header_ok sample_header" "header_ok (sample_header\<lparr>bh_Nonce := 43\<rparr>)"
  by (simp_all add: header_ok_def sample_header_def in_i64_def)

theorem BytesForHash_inj_witness:
  "BytesForHash sample_header \<noteq> BytesForHash (sample_header\<lparr>bh_Nonce := 43\<rparr>)"
  using BytesForHash_inj [OF sample_header_ok] by (simp add: sample_header_def)

section \<open>Transactions: \<^verbatim>\<open>tx.go\<close>, \<^verbatim>\<open>codec.go\<close>\<close>

record otap_claim =
  oc_P :: string
  oc_R :: string
  oc_Tag :: string
  oc_To :: string
  oc_Amount :: int
  oc_ClaimSigHex :: string

record tx_out =
  o_Amount :: int
  o_Asset :: string
  o_Address :: string
  o_P :: string
  o_R :: string
  o_Tag :: string
  o_EncMemo :: string
  o_PolicyBits :: u32

record tx =
  tx_From :: string
  tx_PubKey :: string
  tx_SigHex :: string
  tx_Type :: string
  tx_OTAPClaim :: "otap_claim option"
  tx_Version :: u32
  tx_Nonce :: u64
  tx_Fee :: int
  tx_GasAsset :: string
  tx_Outputs :: "tx_out list"
  tx_Memo :: string

record block =
  b_Header :: block_header
  b_Txs :: "tx list"

definition Block_SizeHint :: "block \<Rightarrow> int" where
  "Block_SizeHint b =
     (let sz = 256 + int (length (b_Txs b)) * 128
      in foldl (\<lambda>sz tx. sz + int (length (tx_Outputs tx)) * 64) sz (b_Txs b))"

text \<open>The body of the loop over the outputs.\<close>

definition putOut :: "bytes \<Rightarrow> tx_out \<Rightarrow> bytes" where
  "putOut buf out =
     (let buf = putI64 buf (o_Amount out);
          buf = putString buf (o_Asset out);
          buf = putString buf (o_Address out);
          buf = putString buf (o_P out);
          buf = putString buf (o_R out);
          buf = putString buf (o_Tag out);
          buf = putString buf (o_EncMemo out)
      in putU32 buf (o_PolicyBits out))"

definition putClaim :: "bytes \<Rightarrow> otap_claim option \<Rightarrow> bool \<Rightarrow> bytes" where
  "putClaim buf claim includeSigs =
     (case claim of
        None \<Rightarrow> buf @ [CHR 0x00]
      | Some c \<Rightarrow>
          (let buf = buf @ [CHR 0x01];
               buf = putString buf (oc_P c);
               buf = putString buf (oc_R c);
               buf = putString buf (oc_Tag c);
               buf = putString buf (oc_To c);
               buf = putI64 buf (oc_Amount c)
           in if includeSigs then putString buf (oc_ClaimSigHex c) else putString buf []))"

definition CanonicalTxBytes :: "tx \<Rightarrow> bool \<Rightarrow> bytes" where
  "CanonicalTxBytes tx includeSigs =
     (let buf = ''RSVTX1'';
          buf = putU32 buf (tx_Version tx);
          buf = putString buf (tx_Type tx);
          buf = putString buf (tx_From tx);
          buf = putString buf (tx_PubKey tx);
          buf = putU64 buf (tx_Nonce tx);
          buf = putI64 buf (tx_Fee tx);
          buf = putString buf (tx_GasAsset tx);
          buf = putU32 buf (of_nat (length (tx_Outputs tx)));
          buf = foldl putOut buf (tx_Outputs tx);
          buf = putClaim buf (tx_OTAPClaim tx) includeSigs
      in if includeSigs then putString buf (tx_SigHex tx) else putString buf [])"

definition SigningBytes :: "tx \<Rightarrow> bytes" where
  "SigningBytes tx = CanonicalTxBytes tx False"

definition Tx_ID :: "(bytes \<Rightarrow> hash) \<Rightarrow> tx \<Rightarrow> string" where
  "Tx_ID hash256 tx = (let b = SigningBytes tx; h = hash256 b in Hash_String h)"

lemma Tx_ID_length [simp]: "length (Tx_ID hash256 tx) = 64"
  by (simp add: Tx_ID_def Let_def)

text \<open>The values Go can hold, with strings and output lists shorter than \<open>2 ^ 32\<close>.\<close>

definition out_ok :: "tx_out \<Rightarrow> bool" where
  "out_ok out \<longleftrightarrow> in_i64 (o_Amount out) \<and>
     list_all (\<lambda>s. length s < 2 ^ 32)
       [o_Asset out, o_Address out, o_P out, o_R out, o_Tag out, o_EncMemo out]"

definition claim_ok :: "otap_claim \<Rightarrow> bool" where
  "claim_ok c \<longleftrightarrow> in_i64 (oc_Amount c) \<and>
     list_all (\<lambda>s. length s < 2 ^ 32) [oc_P c, oc_R c, oc_Tag c, oc_To c, oc_ClaimSigHex c]"

definition tx_ok :: "tx \<Rightarrow> bool" where
  "tx_ok tx \<longleftrightarrow> in_i64 (tx_Fee tx) \<and> length (tx_Outputs tx) < 2 ^ 32 \<and>
     list_all (\<lambda>s. length s < 2 ^ 32)
       [tx_Type tx, tx_From tx, tx_PubKey tx, tx_GasAsset tx, tx_SigHex tx] \<and>
     list_all out_ok (tx_Outputs tx) \<and> pred_option claim_ok (tx_OTAPClaim tx)"

text \<open>
  What the canonical bytes cover: never the memo, and the signatures only when asked for.
\<close>

definition tx_covered :: "bool \<Rightarrow> tx \<Rightarrow> tx" where
  "tx_covered s tx = tx\<lparr>tx_Memo := [], tx_SigHex := (if s then tx_SigHex tx else []),
     tx_OTAPClaim := map_option (\<lambda>c. c\<lparr>oc_ClaimSigHex := (if s then oc_ClaimSigHex c else [])\<rparr>)
       (tx_OTAPClaim tx)\<rparr>"

lemma putOut_acc: "putOut b out = b @ putOut [] out"
  by (simp add: putOut_def Let_def bytes_simps)

lemma foldl_putOut: "foldl putOut b outs = b @ concat (map (putOut []) outs)"
proof (induction outs arbitrary: b)
  case (Cons out outs)
  have "foldl putOut b (out # outs) = putOut b out @ concat (map (putOut []) outs)"
    by (simp only: foldl_Cons Cons.IH)
  then show ?case by (simp add: putOut_acc [of b])
qed simp

lemma putClaim_acc: "putClaim b c s = b @ putClaim [] c s"
  by (simp add: putClaim_def Let_def bytes_simps split: option.split)

lemma CanonicalTxBytes_eq:
  "CanonicalTxBytes tx s =
     ''RSVTX1'' @ putU32 [] (tx_Version tx) @ putBytes [] (tx_Type tx) @ putBytes [] (tx_From tx)
     @ putBytes [] (tx_PubKey tx) @ putU64 [] (tx_Nonce tx) @ putI64 [] (tx_Fee tx)
     @ putBytes [] (tx_GasAsset tx) @ putU32 [] (of_nat (length (tx_Outputs tx)))
     @ concat (map (putOut []) (tx_Outputs tx)) @ putClaim [] (tx_OTAPClaim tx) s
     @ putBytes [] (if s then tx_SigHex tx else [])"
proof -
  let ?b = "''RSVTX1'' @ putU32 [] (tx_Version tx) @ putBytes [] (tx_Type tx) @ putBytes [] (tx_From tx)
     @ putBytes [] (tx_PubKey tx) @ putU64 [] (tx_Nonce tx) @ putI64 [] (tx_Fee tx)
     @ putBytes [] (tx_GasAsset tx) @ putU32 [] (of_nat (length (tx_Outputs tx)))"
  let ?c = "putClaim (?b @ concat (map (putOut []) (tx_Outputs tx))) (tx_OTAPClaim tx) s"
  have "CanonicalTxBytes tx s = putBytes ?c (if s then tx_SigHex tx else [])"
    by (simp add: CanonicalTxBytes_def Let_def bytes_simps foldl_putOut)
  also have "\<dots> = ?c @ putBytes [] (if s then tx_SigHex tx else [])"
    by (simp add: putBytes_def putU32_def)
  also have "?c = ?b @ concat (map (putOut []) (tx_Outputs tx)) @ putClaim [] (tx_OTAPClaim tx) s"
    by (subst putClaim_acc) simp
  finally show ?thesis by simp
qed

lemma CanonicalTxBytes_covered: "CanonicalTxBytes tx s = CanonicalTxBytes (tx_covered s tx) True"
  by (simp add: CanonicalTxBytes_eq tx_covered_def putClaim_def Let_def split: option.split)

interpretation out_code: prefix_code "putOut []" out_ok
proof
  fix a b :: tx_out and xs ys
  assume "out_ok a" "out_ok b" "putOut [] a @ xs = putOut [] b @ ys"
  then show "a = b \<and> xs = ys"
    by (intro conjI tx_out.equality)
      (simp_all add: putOut_def Let_def bytes_simps out_ok_def code_eq_iff del: append_eq_append_conv)
qed

interpretation claim_code: prefix_code "\<lambda>c. putClaim [] c True" "pred_option claim_ok"
proof
  fix a b :: "otap_claim option" and xs ys
  assume "pred_option claim_ok a" "pred_option claim_ok b"
    "putClaim [] a True @ xs = putClaim [] b True @ ys"
  then show "a = b \<and> xs = ys"
    by (cases a; cases b)
      (auto simp: putClaim_def Let_def bytes_simps claim_ok_def code_eq_iff
        simp del: append_eq_append_conv intro!: otap_claim.equality)
qed

lemma tx_ok_covered: "tx_ok tx \<Longrightarrow> tx_ok (tx_covered s tx)"
  by (cases "tx_OTAPClaim tx") (auto simp: tx_ok_def tx_covered_def claim_ok_def)

lemma length_u32_inj:
  assumes "length a < 2 ^ 32" "length b < 2 ^ 32"
  shows "of_nat (length a) = (of_nat (length b) :: u32) \<longleftrightarrow> length a = length b"
proof
  assume "of_nat (length a) = (of_nat (length b) :: u32)"
  then have "unat (of_nat (length a) :: u32) = unat (of_nat (length b) :: u32)" by simp
  then show "length a = length b" using assms by (simp add: of_nat_inverse)
qed simp

lemma CanonicalTxBytes_True_inj:
  assumes "tx_ok a" "tx_ok b" "tx_Memo a = tx_Memo b"
    and eq: "CanonicalTxBytes a True = CanonicalTxBytes b True"
  shows "a = b"
proof -
  have len: "length (tx_Outputs a) = length (tx_Outputs b)"
    using eq assms unfolding CanonicalTxBytes_eq tx_ok_def
    by (simp add: code_eq_iff length_u32_inj del: append_eq_append_conv)
  show ?thesis
    using eq assms len unfolding CanonicalTxBytes_eq tx_ok_def list_all_iff
    by (intro tx.equality)
      (simp_all add: code_eq_iff out_code.concat_eq_iff claim_code.append_eq_iff
        del: append_eq_append_conv)
qed

lemma CanonicalTxBytes_eq_iff:
  assumes "tx_ok a" "tx_ok b"
  shows "CanonicalTxBytes a s = CanonicalTxBytes b s \<longleftrightarrow> tx_covered s a = tx_covered s b"
proof
  assume "CanonicalTxBytes a s = CanonicalTxBytes b s"
  then have "CanonicalTxBytes (tx_covered s a) True = CanonicalTxBytes (tx_covered s b) True"
    by (simp only: CanonicalTxBytes_covered [of _ s])
  then show "tx_covered s a = tx_covered s b"
    using assms by (intro CanonicalTxBytes_True_inj tx_ok_covered) (simp_all add: tx_covered_def)
next
  assume "tx_covered s a = tx_covered s b"
  then show "CanonicalTxBytes a s = CanonicalTxBytes b s"
    by (simp only: CanonicalTxBytes_covered [of _ s])
qed

text \<open>
  C35. The canonical bytes of a transaction determine everything they are meant to cover, and
  nothing else: two transactions (strings and output lists shorter than \<open>2 ^ 32\<close>) have the same
  canonical bytes exactly if they agree on all fields but the memo and, when the signatures are
  left out, the two signature fields.
\<close>

theorem CanonicalTxBytes_determines:
  assumes "tx_ok a" "tx_ok b"
  shows "CanonicalTxBytes a includeSigs = CanonicalTxBytes b includeSigs
     \<longleftrightarrow> tx_covered includeSigs a = tx_covered includeSigs b"
  using assms by (rule CanonicalTxBytes_eq_iff)

definition sample_out :: tx_out where
  "sample_out = \<lparr>o_Amount = 5, o_Asset = ''RSV'', o_Address = ''bob'', o_P = [], o_R = [], o_Tag = [],
     o_EncMemo = [], o_PolicyBits = 0\<rparr>"

definition sample_tx :: tx where
  "sample_tx = \<lparr>tx_From = ''alice'', tx_PubKey = ''alice'', tx_SigHex = ''00'', tx_Type = ''transfer'',
     tx_OTAPClaim = None, tx_Version = 1, tx_Nonce = 1, tx_Fee = 2, tx_GasAsset = ''RSV'',
     tx_Outputs = [sample_out], tx_Memo = ''hi''\<rparr>"

lemma sample_tx_ok:
  "tx_ok sample_tx" "tx_ok (sample_tx\<lparr>tx_Nonce := n\<rparr>)" "tx_ok (sample_tx\<lparr>tx_Memo := m\<rparr>)"
  by (simp_all add: tx_ok_def sample_tx_def sample_out_def out_ok_def in_i64_def)

text \<open>Changing the nonce changes the signing bytes; changing the memo does not.\<close>

theorem CanonicalTxBytes_determines_witness:
  "CanonicalTxBytes sample_tx False \<noteq> CanonicalTxBytes (sample_tx\<lparr>tx_Nonce := 2\<rparr>) False
   \<and> CanonicalTxBytes sample_tx False = CanonicalTxBytes (sample_tx\<lparr>tx_Memo := ''x''\<rparr>) False"
  using CanonicalTxBytes_determines [OF sample_tx_ok(1) sample_tx_ok(2) [of 2], of False]
    CanonicalTxBytes_determines [OF sample_tx_ok(1) sample_tx_ok(3) [of "''x''"], of False]
  by (simp add: tx_covered_def sample_tx_def)

section \<open>The transaction root: \<^verbatim>\<open>txroot.go\<close>\<close>

definition sha :: "bytes \<Rightarrow> bytes \<Rightarrow> bytes" where
  "sha a b = Sum256 (a @ b)"

text \<open>The inner loop: pairs are hashed, an odd last element with itself.\<close>

fun TxRoot_next :: "bytes list \<Rightarrow> bytes list" where
  "TxRoot_next [] = []"
| "TxRoot_next [x] = [sha x x]"
| "TxRoot_next (x # y # level) = sha x y # TxRoot_next level"

lemma length_TxRoot_next [simp]: "length (TxRoot_next level) = (length level + 1) div 2"
  by (induction level rule: TxRoot_next.induct) auto

function TxRoot_levels :: "bytes list \<Rightarrow> bytes list" where
  "TxRoot_levels level = (if length level > 1 then TxRoot_levels (TxRoot_next level) else level)"
  by pat_completeness auto
termination by (relation "measure length") auto

declare TxRoot_levels.simps [simp del]

definition TxRoot :: "(bytes \<Rightarrow> hash) \<Rightarrow> tx list \<Rightarrow> hash" where
  "TxRoot hash256 txs =
     (if length txs = 0 then sha256d ''txroot:empty''
      else let level = map (Tx_ID hash256) txs;
               level = TxRoot_levels level
           in Sum256 (level ! 0))"

lemma length_TxRoot [simp]: "length (TxRoot hash256 txs) = 32"
  by (simp add: TxRoot_def Let_def)

text \<open>The loop ends with exactly one element, so \<^verbatim>\<open>level[0]\<close> is in range.\<close>

lemma length_TxRoot_levels: "level \<noteq> [] \<Longrightarrow> length (TxRoot_levels level) = 1"
proof (induction level rule: TxRoot_levels.induct)
  case (1 level)
  show ?case
  proof (cases "length level > 1")
    case True
    then have "length (TxRoot_next level) > 0" by simp
    then have "TxRoot_next level \<noteq> []" by blast
    with 1(1) True show ?thesis by (simp add: TxRoot_levels.simps [of level])
  next
    case False
    with 1(2) have "length level = 1" by (cases level) auto
    then show ?thesis by (simp add: TxRoot_levels.simps [of level])
  qed
qed

text \<open>The byte strings the two functions hash, and the levels whose elements have one length.\<close>

fun next_inputs :: "bytes list \<Rightarrow> bytes list" where
  "next_inputs [] = []"
| "next_inputs [x] = [x @ x]"
| "next_inputs (x # y # level) = (x @ y) # next_inputs level"

function TxRoot_inputs :: "bytes list \<Rightarrow> bytes list" where
  "TxRoot_inputs level =
     (if length level > 1 then next_inputs level @ TxRoot_inputs (TxRoot_next level) else level)"
  by pat_completeness auto
termination by (relation "measure length") auto

declare TxRoot_inputs.simps [simp del]

definition equal_lengths :: "nat \<Rightarrow> bytes list \<Rightarrow> bool" where
  "equal_lengths n xs \<longleftrightarrow> (\<forall>x \<in> set xs. length x = n)"

lemma equal_lengths_simps [simp]:
  "equal_lengths n []" "equal_lengths n (x # xs) \<longleftrightarrow> length x = n \<and> equal_lengths n xs"
  by (auto simp: equal_lengths_def)

lemma equal_lengths_TxRoot_next: "equal_lengths 32 (TxRoot_next level)"
  by (induction level rule: TxRoot_next.induct) (auto simp: sha_def)

lemma sha_eqD:
  assumes "inj_on Sum256 S" "a @ b \<in> S" "c @ d \<in> S" "length a = length c" "sha a b = sha c d"
  shows "a = c \<and> b = d"
  using assms unfolding sha_def by (metis append_eq_append_conv inj_onD)

lemma TxRoot_next_inj:
  assumes inj: "inj_on Sum256 S"
    and "set (next_inputs xs) \<subseteq> S" "set (next_inputs ys) \<subseteq> S"
    and "length xs = length ys" "equal_lengths n xs" "equal_lengths n ys"
    and "TxRoot_next xs = TxRoot_next ys"
  shows "xs = ys"
  using assms(2-)
proof (induction xs arbitrary: ys rule: TxRoot_next.induct)
  case (2 x)
  then obtain y where "ys = [y]" by (cases ys) auto
  with 2 sha_eqD [OF inj, of x x y y] show ?case by simp
next
  case (3 x x' xs)
  from 3(4) have "Suc (Suc (length xs)) = length ys" by simp
  then obtain y y' zs where ys: "ys = y # y' # zs" by (cases ys rule: TxRoot_next.cases) auto
  with 3 have "xs = zs" by (intro "3.IH") simp_all
  with 3 ys sha_eqD [OF inj, of x x' y y'] show ?case by simp
qed simp

lemma TxRoot_levels_inj:
  assumes inj: "inj_on Sum256 S"
    and "set (TxRoot_inputs xs) \<subseteq> S" "set (TxRoot_inputs ys) \<subseteq> S"
    and "length xs = length ys" "equal_lengths n xs" "equal_lengths n ys"
    and "TxRoot_levels xs = TxRoot_levels ys"
  shows "xs = ys"
  using assms(2-)
proof (induction xs arbitrary: ys n rule: TxRoot_levels.induct)
  case (1 xs)
  show ?case
  proof (cases "length xs > 1")
    case True
    with 1(4) have l: "length ys > 1" by simp
    from True l 1(2,3) have sub: "set (next_inputs xs) \<subseteq> S" "set (next_inputs ys) \<subseteq> S"
      "set (TxRoot_inputs (TxRoot_next xs)) \<subseteq> S" "set (TxRoot_inputs (TxRoot_next ys)) \<subseteq> S"
      by (simp_all add: TxRoot_inputs.simps [of xs] TxRoot_inputs.simps [of ys])
    have "TxRoot_next xs = TxRoot_next ys"
      by (rule 1(1) [OF True sub(3,4) _ equal_lengths_TxRoot_next equal_lengths_TxRoot_next])
        (use 1(4,7) True l in \<open>simp_all add: TxRoot_levels.simps [of xs] TxRoot_levels.simps [of ys]\<close>)
    then show ?thesis by (rule TxRoot_next_inj [OF inj sub(1,2) 1(4-6)])
  next
    case False
    with 1 show ?thesis by (simp add: TxRoot_levels.simps [of xs] TxRoot_levels.simps [of ys])
  qed
qed

lemma TxRoot_levels_input:
  "level \<noteq> [] \<Longrightarrow> TxRoot_levels level ! 0 \<in> set (TxRoot_inputs level)"
proof (induction level rule: TxRoot_levels.induct)
  case (1 level)
  show ?case
  proof (cases "length level > 1")
    case True
    then have "length (TxRoot_next level) > 0" by simp
    then have "TxRoot_next level \<noteq> []" by blast
    with 1 True show ?thesis
      by (simp add: TxRoot_levels.simps [of level] TxRoot_inputs.simps [of level])
  next
    case False
    with 1(2) show ?thesis by (simp add: TxRoot_levels.simps [of level] TxRoot_inputs.simps [of level])
  qed
qed

lemma TxRoot_ids_inj:
  assumes inj: "inj_on Sum256 (set (TxRoot_inputs (map (Tx_ID H) as)) \<union> set (TxRoot_inputs (map (Tx_ID H) bs)))"
    and len: "length as = length bs" and eq: "TxRoot H as = TxRoot H bs"
  shows "map (Tx_ID H) as = map (Tx_ID H) bs"
proof (cases "as = []")
  case False
  let ?a = "map (Tx_ID H) as" and ?b = "map (Tx_ID H) bs"
  have ne: "?a \<noteq> []" "?b \<noteq> []" using False len by auto
  with eq have "Sum256 (TxRoot_levels ?a ! 0) = Sum256 (TxRoot_levels ?b ! 0)"
    by (auto simp: TxRoot_def)
  with inj ne have "TxRoot_levels ?a ! 0 = TxRoot_levels ?b ! 0"
    by (auto dest!: inj_onD intro: TxRoot_levels_input)
  then have "TxRoot_levels ?a = TxRoot_levels ?b"
    using length_TxRoot_levels [OF ne(1)] length_TxRoot_levels [OF ne(2)]
    by (intro nth_equalityI) auto
  then show ?thesis
    by (rule TxRoot_levels_inj [OF inj, of ?a ?b 64, rotated -1])
      (auto simp: len equal_lengths_def)
qed (use len in simp)

lemma Hash_String_inj:
  "length g = 32 \<Longrightarrow> length h = 32 \<Longrightarrow> Hash_String g = Hash_String h \<Longrightarrow> g = h"
  using HashFromHex_String [of g] HashFromHex_String [of h] by (metis prod.inject)

lemma Tx_ID_eqD:
  assumes "inj_on H (SigningBytes ` T)" "\<And>b. length (H b) = 32" "a \<in> T" "b \<in> T"
    and "tx_ok a" "tx_ok b" "Tx_ID H a = Tx_ID H b"
  shows "tx_covered False a = tx_covered False b"
proof -
  from assms have "H (SigningBytes a) = H (SigningBytes b)"
    by (auto simp: Tx_ID_def Let_def intro: Hash_String_inj)
  with assms have "SigningBytes a = SigningBytes b" by (blast dest: inj_onD)
  with assms show ?thesis by (simp add: SigningBytes_def CanonicalTxBytes_eq_iff)
qed

text \<open>
  C19. The transaction root commits to the list of transactions: if two lists of the same length
  have the same \<^verbatim>\<open>TxRoot\<close>, they agree transaction by transaction on everything the signing
  bytes cover, unless SHA-256 collides on two of the strings hashed for the two roots or
  \<^verbatim>\<open>hash256\<close> collides on two of the signing bytes.
\<close>

theorem TxRoot_commits:
  assumes "inj_on Sum256 (set (TxRoot_inputs (map (Tx_ID hash256) as))
                          \<union> set (TxRoot_inputs (map (Tx_ID hash256) bs)))"
    and "inj_on hash256 (SigningBytes ` (set as \<union> set bs))" "\<And>b. length (hash256 b) = 32"
    and "list_all tx_ok as" "list_all tx_ok bs" "length as = length bs"
    and "TxRoot hash256 as = TxRoot hash256 bs"
  shows "map (tx_covered False) as = map (tx_covered False) bs"
proof (rule nth_equalityI)
  fix i assume i: "i < length (map (tx_covered False) as)"
  have "map (Tx_ID hash256) as = map (Tx_ID hash256) bs"
    using assms(1,6,7) by (rule TxRoot_ids_inj)
  then have "map (Tx_ID hash256) as ! i = map (Tx_ID hash256) bs ! i" by simp
  then have "Tx_ID hash256 (as ! i) = Tx_ID hash256 (bs ! i)" using i assms(6) by simp
  with assms(2-6) i have "tx_covered False (as ! i) = tx_covered False (bs ! i)"
    by (intro Tx_ID_eqD [of hash256 "set as \<union> set bs"]) (simp_all add: list_all_length)
  with i assms(6) show "map (tx_covered False) as ! i = map (tx_covered False) bs ! i" by simp
qed (use assms(6) in simp)

text \<open>Two blocks of one transaction each, which differ in the memo only.\<close>

theorem TxRoot_commits_witness:
  "TxRoot sha256d [sample_tx] = TxRoot sha256d [sample_tx\<lparr>tx_Memo := ''x''\<rparr>]
   \<and> map (tx_covered False) [sample_tx] = map (tx_covered False) [sample_tx\<lparr>tx_Memo := ''x''\<rparr>]"
proof -
  have s: "SigningBytes (sample_tx\<lparr>tx_Memo := ''x''\<rparr>) = SigningBytes sample_tx"
    by (simp add: SigningBytes_def CanonicalTxBytes_def)
  then have i: "Tx_ID sha256d (sample_tx\<lparr>tx_Memo := ''x''\<rparr>) = Tx_ID sha256d sample_tx"
    by (simp add: Tx_ID_def)
  then have r: "TxRoot sha256d [sample_tx] = TxRoot sha256d [sample_tx\<lparr>tx_Memo := ''x''\<rparr>]"
    by (simp add: TxRoot_def)
  have "map (tx_covered False) [sample_tx] = map (tx_covered False) [sample_tx\<lparr>tx_Memo := ''x''\<rparr>]"
    by (rule TxRoot_commits [of sha256d])
      (simp_all add: i s r sample_tx_ok TxRoot_inputs.simps)
  with r show ?thesis by simp
qed

lemma TxRoot_next_last:
  "odd (length xs) \<Longrightarrow> TxRoot_next (xs @ [last xs]) = TxRoot_next xs"
  by (induction xs rule: TxRoot_next.induct) auto

text \<open>
  The root does not determine the number of transactions: a list of odd length greater than
  one has the same \<^verbatim>\<open>TxRoot\<close> as the list with its last transaction repeated, whatever the
  hash functions are.
\<close>

theorem TxRoot_duplicate_last:
  assumes "odd (length txs)" "length txs > 1"
  shows "TxRoot hash256 (txs @ [last txs]) = TxRoot hash256 txs"
proof -
  let ?l = "map (Tx_ID hash256) txs"
  have l: "map (Tx_ID hash256) (txs @ [last txs]) = ?l @ [last ?l]"
    using assms(2) by (cases "txs = []") (simp_all add: last_map)
  have "TxRoot_levels (?l @ [last ?l]) = TxRoot_levels (TxRoot_next (?l @ [last ?l]))"
    using assms(2) by (subst TxRoot_levels.simps) (cases "txs = []", simp_all)
  also have "\<dots> = TxRoot_levels (TxRoot_next ?l)"
    using assms(1) by (subst TxRoot_next_last) simp_all
  also have "\<dots> = TxRoot_levels ?l"
    using assms(2) by (subst (2) TxRoot_levels.simps) simp
  finally show ?thesis using assms(2) unfolding TxRoot_def l by auto
qed

theorem TxRoot_duplicate_last_witness:
  "TxRoot sha256d [sample_tx, sample_tx, sample_tx\<lparr>tx_Nonce := 2\<rparr>, sample_tx\<lparr>tx_Nonce := 2\<rparr>]
   = TxRoot sha256d [sample_tx, sample_tx, sample_tx\<lparr>tx_Nonce := 2\<rparr>]"
  using TxRoot_duplicate_last [of "[sample_tx, sample_tx, sample_tx\<lparr>tx_Nonce := 2\<rparr>]" sha256d] by simp

end
