(* ===== verification/Pow.thy ===== *)
theory Pow
  imports Chain
begin

text \<open>
  The package \<^verbatim>\<open>core/consensus/pow\<close>: compact targets (\<^verbatim>\<open>target.go\<close>), the target check
  (\<^verbatim>\<open>verify.go\<close>), mining (\<^verbatim>\<open>mine.go\<close>), work (\<^verbatim>\<open>work.go\<close>) and retargeting
  (\<^verbatim>\<open>retarget.go\<close>). A \<^verbatim>\<open>big.Int\<close> is an \<^typ>\<open>int\<close>.
\<close>

section \<open>Big integers\<close>

text \<open>
  \<^verbatim>\<open>x.Bytes()\<close> of \<^verbatim>\<open>math/big\<close>: the absolute value in big-endian order with no leading
  zero byte; \<^verbatim>\<open>SetBytes\<close> reads such a string.
\<close>

function big_Bytes :: "int \<Rightarrow> bytes" where
  "big_Bytes x = (if x = 0 then [] else big_Bytes (\<bar>x\<bar> div 256) @ [char_of (\<bar>x\<bar> mod 256)])"
  by pat_completeness auto
termination by (relation "measure (\<lambda>x. nat \<bar>x\<bar>)") auto

declare big_Bytes.simps [simp del]

definition big_SetBytes :: "bytes \<Rightarrow> int" where
  "big_SetBytes bs = foldl (\<lambda>acc c. acc * 256 + of_char c) 0 bs"

lemma big_Bytes_0 [simp]: "big_Bytes 0 = []"
  by (simp add: big_Bytes.simps)

lemma big_Bytes_pos:
  "0 < x \<Longrightarrow> big_Bytes x = big_Bytes (x div 256) @ [char_of (x mod 256)]"
  by (simp add: big_Bytes.simps [of x])

lemma big_SetBytes_append:
  "big_SetBytes (xs @ ys) = big_SetBytes xs * 256 ^ length ys + big_SetBytes ys"
proof -
  have "foldl (\<lambda>acc c. acc * 256 + of_char c) a ys
        = a * 256 ^ length ys + foldl (\<lambda>acc c. acc * 256 + of_char c) 0 ys" for a :: int
  proof (induction ys arbitrary: a rule: rev_induct)
    case (snoc y ys)
    show ?case by (simp add: snoc [of a] distrib_right mult.assoc mult.commute [of 256])
  qed simp
  then show ?thesis unfolding big_SetBytes_def foldl_append .
qed

lemma big_SetBytes_Nil [simp]: "big_SetBytes [] = 0"
  by (simp add: big_SetBytes_def)

lemma big_SetBytes_single [simp]: "big_SetBytes [c] = of_char c"
  by (simp add: big_SetBytes_def)

lemma big_SetBytes_be_nat: "big_SetBytes bs = int (be_nat bs)"
  by (induction bs rule: rev_induct) (simp_all add: big_SetBytes_append bytes_simps of_nat_of_char)

lemma big_SetBytes_nonneg [simp]: "0 \<le> big_SetBytes bs"
  by (simp add: big_SetBytes_be_nat)

lemma big_SetBytes_less: "big_SetBytes bs < 256 ^ length bs"
  unfolding big_SetBytes_be_nat using be_nat_bound [of bs] by (metis of_nat_less_iff of_nat_power of_nat_numeral)

lemma big_SetBytes_Bytes [simp]: "0 \<le> x \<Longrightarrow> big_SetBytes (big_Bytes x) = x"
proof (induction x rule: big_Bytes.induct)
  case (1 x)
  show ?case
  proof (cases "x = 0")
    case False
    with 1 have "0 < x" by simp
    with 1 show ?thesis by (simp add: big_Bytes_pos big_SetBytes_append)
  qed simp
qed

lemma big_Bytes_shift:
  assumes "0 < x"
  shows "big_Bytes (x * 256 ^ k) = big_Bytes x @ replicate k (CHR 0x00)"
proof (induction k)
  case (Suc k)
  have "big_Bytes (x * 256 ^ Suc k)
      = big_Bytes (x * 256 ^ Suc k div 256) @ [char_of (x * 256 ^ Suc k mod 256)]"
    using assms by (intro big_Bytes_pos) simp
  also have "x * 256 ^ Suc k div 256 = x * 256 ^ k" by simp
  also have "x * 256 ^ Suc k mod 256 = 0" by simp
  finally show ?case using Suc by (simp add: replicate_append_same char_of_def)
qed simp

lemma div_256_less: "x div 256 < y \<longleftrightarrow> x < 256 * (y :: int)"
proof -
  have "x = 256 * (x div 256) + x mod 256" "0 \<le> x mod 256" "x mod 256 < 256" by simp_all
  then show ?thesis by linarith
qed

lemma int_div_less:
  fixes x y z :: int assumes "x < z * y" "0 < y" shows "x div y < z"
proof (rule ccontr)
  assume "\<not> x div y < z"
  then have "z * y \<le> x div y * y" using assms(2) by (intro mult_right_mono) auto
  also have "\<dots> \<le> x" using assms(2) div_mult_mod_eq [of x y] pos_mod_sign [of y x] by linarith
  finally show False using assms(1) by simp
qed

text \<open>The first byte is not zero, so \<open>n\<close> bytes mean \<open>256 ^ (n - 1) \<le> x < 256 ^ n\<close>.\<close>

lemma big_Bytes_length_le_iff:
  "0 \<le> x \<Longrightarrow> length (big_Bytes x) \<le> n \<longleftrightarrow> x < 256 ^ n"
proof (induction n arbitrary: x)
  case 0
  then show ?case by (cases "x = 0") (auto simp: big_Bytes_pos)
next
  case (Suc n)
  show ?case
  proof (cases "x = 0")
    case False
    with Suc have "length (big_Bytes x) \<le> Suc n \<longleftrightarrow> x div 256 < 256 ^ n"
      by (simp add: big_Bytes_pos pos_imp_zdiv_nonneg_iff)
    also have "\<dots> \<longleftrightarrow> x < 256 ^ Suc n"
      unfolding power_Suc by (rule div_256_less)
    finally show ?thesis .
  qed simp
qed

section \<open>Compact targets: \<^verbatim>\<open>target.go\<close>\<close>

text \<open>The shift counts are computed in \<^verbatim>\<open>uint8\<close>, where \<open>8 * (exponent - 3)\<close> wraps.\<close>

definition CompactToBig :: "u32 \<Rightarrow> int" where
  "CompactToBig compact =
     (let exponent = (ucast (drop_bit 24 compact) :: 8 word);
          mantissa = compact AND 0x007fffff;
          bn = uint mantissa
      in if exponent \<le> 3
         then let shift = 8 * (3 - exponent) in drop_bit (unat shift) bn
         else let shift = 8 * (exponent - 3) in push_bit (unat shift) bn)"

definition u32_of_char :: "char \<Rightarrow> u32" where
  "u32_of_char c = of_int (of_char c)"

text \<open>
  With at most three bytes they are right-aligned in a four-byte array, read as a big-endian
  number and shifted by eight.
\<close>

definition BigToCompact :: "int \<Rightarrow> u32" where
  "BigToCompact target =
     (if target \<le> 0 then 0
      else let b = big_Bytes target;
               exponent = (of_nat (length b) :: u32);
               mantissa = (if exponent \<le> 3
                           then let tmp = replicate (4 - length b) (CHR 0x00) @ b
                                in drop_bit 8 (of_int (big_SetBytes tmp) :: u32)
                           else (push_bit 16 (u32_of_char (b ! 0)) OR push_bit 8 (u32_of_char (b ! 1)))
                                OR u32_of_char (b ! 2));
               (mantissa, exponent) = (if mantissa AND 0x00800000 \<noteq> 0
                                       then (drop_bit 8 mantissa, exponent + 1)
                                       else (mantissa, exponent))
           in push_bit 24 exponent OR (mantissa AND 0x007fffff))"

definition LeadingZerosToTarget :: "u32 \<Rightarrow> int" where
  "LeadingZerosToTarget lz =
     (if lz \<ge> 256 then 0
      else let one = 1; t = push_bit (unat (256 - lz)) one in t - one)"

text \<open>Joining the low \<open>n\<close> bits of a word with the bits above them.\<close>

lemma int_join: "0 \<le> b \<Longrightarrow> b < 2 ^ n \<Longrightarrow> push_bit n a OR b = a * 2 ^ n + (b :: int)"
proof -
  assume b: "0 \<le> b" "b < 2 ^ n"
  then have t: "take_bit n b = b" by (simp add: take_bit_eq_mod)
  then have "concat_bit n b a = b + push_bit n a" by (simp add: concat_bit_eq)
  moreover from t have "concat_bit n b a = b OR push_bit n a" by (simp add: concat_bit_def)
  ultimately show ?thesis by (simp add: push_bit_eq_mult or.commute)
qed

lemma word_join:
  assumes "0 \<le> b" "b < 2 ^ n"
  shows "push_bit n (of_int a) OR of_int b = (of_int (a * 2 ^ n + b) :: u32)"
  using int_join [OF assms, of a] by (metis of_int_or_eq push_bit_of_int)

lemma uint_of_int_small: "0 \<le> x \<Longrightarrow> x < 2 ^ 32 \<Longrightarrow> uint (of_int x :: u32) = x"
  by (simp add: unsigned_of_int take_bit_eq_mod)

lemma div_pow_bounds:
  fixes x :: int assumes "0 \<le> x" shows "0 \<le> x div 2 ^ n" "x div 2 ^ n \<le> x"
  using assms zdiv_mono2 [of x 1 "2 ^ n"] by (simp_all add: pos_imp_zdiv_nonneg_iff)

lemma uint_drop_bit: "uint (drop_bit n (w :: u32)) = uint w div 2 ^ n"
proof -
  have "take_bit 32 (uint w) = uint w"
    using unsigned_less [of w, where ?'a = int] by (simp add: take_bit_int_eq_self_iff)
  then show ?thesis by (subst unsigned_drop_bit_eq) (simp add: drop_bit_eq_div)
qed

lemma drop_of_int_small:
  assumes "0 \<le> x" "x < 2 ^ 32"
  shows "drop_bit n (of_int x :: u32) = of_int (x div 2 ^ n)"
proof (rule word_uint_eqI)
  have "uint (of_int (x div 2 ^ n) :: u32) = x div 2 ^ n"
    using div_pow_bounds [OF assms(1), of n] assms by (intro uint_of_int_small) auto
  then show "uint (drop_bit n (of_int x :: u32)) = uint (of_int (x div 2 ^ n) :: u32)"
    by (simp only: uint_drop_bit uint_of_int_small [OF assms])
qed

lemma u32_mask_23: "0x007fffff = (mask 23 :: u32)"
  by (simp add: mask_eq_exp_minus_1)

lemma mask_of_int_small:
  assumes "0 \<le> x" "x < 2 ^ 32"
  shows "(of_int x :: u32) AND 0x007fffff = of_int (x mod 2 ^ 23)"
proof (rule word_uint_eqI)
  have "uint (of_int (x mod 2 ^ 23) :: u32) = x mod 2 ^ 23"
    by (intro uint_of_int_small) (auto intro: less_trans [OF pos_mod_bound])
  then show "uint ((of_int x :: u32) AND 0x007fffff) = uint (of_int (x mod 2 ^ 23) :: u32)"
    by (simp only: u32_mask_23 take_bit_eq_mask [symmetric] unsigned_take_bit_eq
        uint_of_int_small [OF assms]) (simp only: take_bit_eq_mod)
qed

lemma bit_23_of_int_small:
  assumes "0 \<le> x" "x < 2 ^ 24"
  shows "(of_int x :: u32) AND 0x00800000 = 0 \<longleftrightarrow> x < 2 ^ 23"
proof -
  have "(0x00800000 :: u32) = 2 ^ 23" by simp
  moreover have "(of_int x :: u32) AND 2 ^ 23 = 0 \<longleftrightarrow> \<not> bit (of_int x :: u32) 23"
    by (rule and_exp_eq_0_iff_not_bit)
  moreover have "bit (of_int x :: u32) 23 \<longleftrightarrow> odd (x div 2 ^ 23)"
    using bit_iff_odd [of x 23] by (simp add: bit_word_of_int_iff)
  moreover have "x div 2 ^ 23 = (if x < 2 ^ 23 then 0 else 1)"
    using assms by (auto simp: div_pos_pos_trivial intro: int_div_pos_eq [of _ _ _ "x - 2 ^ 23"])
  ultimately show ?thesis by (auto split: if_splits)
qed

text \<open>Fields of a compact number: no exponent above 34 wraps the shift.\<close>

lemma CompactToBig_fields:
  assumes e: "0 \<le> e" "e \<le> 34" and m: "0 \<le> m" "m < 2 ^ 23"
  shows "CompactToBig (of_int (e * 2 ^ 24 + m))
       = (if e \<le> 3 then m div 256 ^ nat (3 - e) else m * 256 ^ nat (e - 3))"
proof -
  let ?c = "of_int (e * 2 ^ 24 + m) :: u32"
  have b: "0 \<le> e * 2 ^ 24 + m" "e * 2 ^ 24 + m < 2 ^ 32" using assms by auto
  have "drop_bit 24 ?c = of_int e"
    using m by (simp only: drop_of_int_small [OF b]) simp
  moreover have "uint (of_int e :: u32) = e" using e by (intro uint_of_int_small) auto
  ultimately have ex: "(ucast (drop_bit 24 ?c) :: 8 word) = of_int e"
    by (simp only: ucast_eq)
  have "e * 2 ^ 24 + m = m + e * 2 * 2 ^ 23" by simp
  then have "(e * 2 ^ 24 + m) mod 2 ^ 23 = m" using m by (simp only: mod_mult_self1) simp
  then have "?c AND 0x007fffff = of_int m"
    by (simp only: mask_of_int_small [OF b])
  moreover have "uint (of_int m :: u32) = m" using m by (intro uint_of_int_small) auto
  ultimately have mn: "uint (?c AND 0x007fffff) = m" by simp
  have e3: "(of_int e :: 8 word) \<le> 3 \<longleftrightarrow> e \<le> 3"
    using e by (simp add: word_le_def unsigned_of_int take_bit_eq_mod)
  have u: "unat (of_int k :: 8 word) = nat k" if "0 \<le> k" "k < 256" for k
    using that by (simp add: unsigned_of_int take_bit_eq_mod)
  have s1: "unat (8 * (3 - of_int e) :: 8 word) = 8 * nat (3 - e)" if "e \<le> 3"
    using that e u [of "8 * (3 - e)"] by (simp add: nat_mult_distrib)
  have s2: "unat (8 * (of_int e - 3) :: 8 word) = 8 * nat (e - 3)" if "\<not> e \<le> 3"
    using that e u [of "8 * (e - 3)"] by (simp add: nat_mult_distrib)
  have p: "(256 :: int) ^ n = 2 ^ (8 * n)" for n by (simp add: power_mult)
  show ?thesis
    unfolding CompactToBig_def Let_def ex mn e3
    by (cases "e \<le> 3") (simp_all only: s1 s2 p drop_bit_eq_div push_bit_eq_mult if_True if_False simp_thms)
qed

text \<open>The first three bytes of a number of \<open>n > 3\<close> bytes.\<close>

lemma big_Bytes_top3:
  assumes "0 < t" "length (big_Bytes t) = k + 3"
  shows "of_char (big_Bytes t ! 0) * 65536 + of_char (big_Bytes t ! 1) * 256 + of_char (big_Bytes t ! 2)
       = t div 256 ^ k"
proof -
  let ?b = "big_Bytes t"
  obtain x y z bs where b: "?b = x # y # z # bs" "length bs = k"
    using assms(2) by (auto simp: length_Suc_conv numeral_3_eq_3)
  have "t = big_SetBytes ([x, y, z] @ bs)" using big_SetBytes_Bytes [of t] assms(1) b by simp
  also have "\<dots> = big_SetBytes [x, y, z] * 256 ^ k + big_SetBytes bs"
    by (simp only: big_SetBytes_append b(2))
  finally have t: "t = big_SetBytes [x, y, z] * 256 ^ k + big_SetBytes bs" .
  have "big_SetBytes bs < 256 ^ k" using big_SetBytes_less [of bs] b by simp
  then have "t div 256 ^ k = big_SetBytes [x, y, z]" unfolding t by simp
  then show ?thesis using b by (simp add: big_SetBytes_def algebra_simps)
qed

lemma of_char_bounds: "0 \<le> (of_char c :: int)" "(of_char c :: int) < 256"
  using nat_of_char_less_256 [of c] by (simp_all add: of_char_int)

lemma mantissa3_of_int:
  "(push_bit 16 (u32_of_char x) OR push_bit 8 (u32_of_char y)) OR u32_of_char z
   = of_int (of_char x * 65536 + of_char y * 256 + of_char z)"
proof -
  have "push_bit 16 (u32_of_char x) OR push_bit 8 (u32_of_char y)
      = push_bit 8 (push_bit 8 (u32_of_char x) OR u32_of_char y)"
    by (simp add: push_bit_or)
  also have "push_bit 8 (u32_of_char x) OR u32_of_char y = of_int (of_char x * 2 ^ 8 + of_char y)"
    unfolding u32_of_char_def using of_char_bounds [of y] by (intro word_join) simp_all
  finally have "(push_bit 16 (u32_of_char x) OR push_bit 8 (u32_of_char y)) OR u32_of_char z
      = push_bit 8 (of_int (of_char x * 2 ^ 8 + of_char y)) OR of_int (of_char z)"
    by (simp only: u32_of_char_def)
  also have "\<dots> = of_int ((of_char x * 2 ^ 8 + of_char y) * 2 ^ 8 + of_char z)"
    using of_char_bounds [of z] by (intro word_join) simp_all
  finally show ?thesis by (simp add: algebra_simps)
qed

text \<open>The last step of \<^verbatim>\<open>BigToCompact\<close>: a mantissa with bit 23 set is shifted once more.\<close>

lemma compact_normalise:
  assumes "0 \<le> e" "e < 255" "0 \<le> m" "m < 2 ^ 24"
  shows "(let (mantissa, exponent) = (if (of_int m :: u32) AND 0x00800000 \<noteq> 0
                                     then (drop_bit 8 (of_int m), of_int e + 1)
                                     else (of_int m :: u32, of_int e :: u32))
          in push_bit 24 exponent OR (mantissa AND 0x007fffff))
       = (if m < 2 ^ 23 then of_int (e * 2 ^ 24 + m) else of_int ((e + 1) * 2 ^ 24 + m div 2 ^ 8))"
proof (cases "m < 2 ^ 23")
  case True
  then have "(of_int m :: u32) AND 0x00800000 = 0" using assms by (subst bit_23_of_int_small) auto
  moreover have "(of_int m :: u32) AND 0x007fffff = of_int m"
    using True assms by (subst mask_of_int_small) auto
  moreover have "push_bit 24 (of_int e) OR of_int m = (of_int (e * 2 ^ 24 + m) :: u32)"
    using True assms by (intro word_join) auto
  ultimately show ?thesis using True by simp
next
  case False
  have d: "0 \<le> m div 2 ^ 8" "m div 2 ^ 8 < 2 ^ 23"
    using assms by (auto simp: pos_imp_zdiv_nonneg_iff div_256_less)
  have "(of_int m :: u32) AND 0x00800000 \<noteq> 0" using False assms by (subst bit_23_of_int_small) auto
  moreover have "drop_bit 8 (of_int m :: u32) AND 0x007fffff = of_int (m div 2 ^ 8)"
    using assms d by (subst drop_of_int_small) (auto simp: mask_of_int_small)
  moreover have "push_bit 24 (of_int (e + 1)) OR of_int (m div 2 ^ 8)
      = (of_int ((e + 1) * 2 ^ 24 + m div 2 ^ 8) :: u32)"
    using d by (intro word_join) auto
  ultimately show ?thesis using False by simp
qed

text \<open>
  \<^verbatim>\<open>BigToCompact\<close> in closed form: \<open>n\<close> is the number of bytes of the target. With more than
  three bytes the top three are the mantissa; with at most three, the target shifted by eight.
\<close>

lemma BigToCompact_long:
  assumes "0 < t" "length (big_Bytes t) = k + 3" "0 < k" "k < 250"
  shows "BigToCompact t =
    (let m = t div 256 ^ k; e = int k + 3
     in if m < 2 ^ 23 then of_int (e * 2 ^ 24 + m) else of_int ((e + 1) * 2 ^ 24 + m div 2 ^ 8))"
proof -
  let ?b = "big_Bytes t"
  have e: "(of_nat (length ?b) :: u32) = of_int (int k + 3)" using assms(2) by simp
  have "uint (of_int (int k + 3) :: u32) = int k + 3" using assms(4) by (intro uint_of_int_small) auto
  then have n3: "\<not> (of_int (int k + 3) :: u32) \<le> 3" using assms(3) by (simp only: word_le_def) simp
  have nt: "\<not> t \<le> 0" using assms(1) by simp
  have "0 \<le> t div 256 ^ k" using assms(1) by (simp add: pos_imp_zdiv_nonneg_iff)
  moreover have "t div 256 ^ k < 2 ^ 24"
  proof -
    have "t < 256 ^ (k + 3)" using assms big_Bytes_length_le_iff [of t "k + 3"] by simp
    then have "t < 2 ^ 24 * 256 ^ k" by (simp add: power_add)
    then show ?thesis by (rule int_div_less) simp
  qed
  ultimately have "?thesis \<longleftrightarrow> True"
    unfolding BigToCompact_def e Let_def mantissa3_of_int big_Bytes_top3 [OF assms(1,2)]
      if_not_P [OF nt] if_not_P [OF n3]
    using assms(4) compact_normalise [of "int k + 3" "t div 256 ^ k", unfolded Let_def] by simp
  then show ?thesis by simp
qed

lemma BigToCompact_short:
  assumes "0 < t" "t < 256 ^ 3"
  shows "BigToCompact t = of_int (int (length (big_Bytes t)) * 2 ^ 24 + t div 256)"
proof -
  let ?b = "big_Bytes t"
  have len: "length ?b \<le> 3" using assms big_Bytes_length_le_iff [of t 3] by simp
  have z: "big_SetBytes (replicate n (CHR 0x00)) = 0" for n
    by (induction n) (simp_all add: big_SetBytes_def)
  have b: "big_SetBytes (replicate (4 - length ?b) (CHR 0x00) @ ?b) = t"
    using assms(1) by (simp add: big_SetBytes_append z)
  have e: "(of_nat (length ?b) :: u32) = of_int (int (length ?b))" by simp
  have "uint (of_int (int (length ?b)) :: u32) = int (length ?b)"
    using len by (intro uint_of_int_small) auto
  then have l3: "(of_int (int (length ?b)) :: u32) \<le> 3" using len by (simp only: word_le_def) simp
  have nt: "\<not> t \<le> 0" using assms(1) by simp
  have m: "t div 256 < 2 ^ 23" "0 \<le> t div 256"
    using assms by (auto simp: div_256_less pos_imp_zdiv_nonneg_iff)
  have d: "drop_bit 8 (of_int t :: u32) = of_int (t div 256)"
    using assms by (subst drop_of_int_small) auto
  show ?thesis
    unfolding BigToCompact_def e Let_def b if_not_P [OF nt] if_P [OF l3] d
    by (subst compact_normalise [unfolded Let_def]) (use len m in auto)
qed

text \<open>Reading back what \<^verbatim>\<open>BigToCompact\<close> wrote: the target with its low bytes cleared.\<close>

lemma CompactToBig_BigToCompact_long:
  assumes "0 < t" "length (big_Bytes t) = k + 3" "0 < k" "k \<le> 30"
  obtains j where "CompactToBig (BigToCompact t) = t div 256 ^ j * 256 ^ j" "2 ^ 15 \<le> t div 256 ^ j"
proof -
  define m where "m = t div 256 ^ k"
  have "\<not> t < 256 ^ (k + 2)" using assms(1,2) big_Bytes_length_le_iff [of t "k + 2"] by simp
  then have "2 ^ 16 * 256 ^ k \<le> t" by (simp add: power_add)
  then have lo: "2 ^ 16 \<le> m"
    unfolding m_def using zdiv_mono1 [of "2 ^ 16 * 256 ^ k" t "256 ^ k"] by simp
  show ?thesis
  proof (cases "m < 2 ^ 23")
    case True
    have "CompactToBig (BigToCompact t) = m * 256 ^ k"
      using True lo assms CompactToBig_fields [of "int k + 3" m]
      by (simp add: BigToCompact_long [OF assms(1-3)] flip: m_def)
    with lo show ?thesis by (intro that [of k]) (simp_all add: m_def)
  next
    case False
    have "t < 256 ^ (k + 3)" using assms big_Bytes_length_le_iff [of t "k + 3"] by simp
    then have "m < 2 ^ 24" unfolding m_def by (intro int_div_less) (simp_all add: power_add)
    then have "0 \<le> m div 2 ^ 8" "m div 2 ^ 8 < 2 ^ 23"
      using lo by (auto simp: pos_imp_zdiv_nonneg_iff div_256_less)
    then have "CompactToBig (BigToCompact t) = m div 256 * 256 ^ Suc k"
      using False assms CompactToBig_fields [of "int k + 4" "m div 2 ^ 8"]
      by (simp add: BigToCompact_long [OF assms(1-3)] nat_add_distrib add.commute flip: m_def)
    moreover have "m div 256 = t div 256 ^ Suc k"
      unfolding m_def power_Suc2 by (simp add: zdiv_zmult2_eq)
    moreover have "2 ^ 15 \<le> m div 256" using False zdiv_mono1 [of "2 ^ 23" m 256] by simp
    ultimately show ?thesis by (intro that [of "Suc k"]) simp_all
  qed
qed

lemma CompactToBig_BigToCompact_short:
  assumes "0 < t" "t < 256 ^ 3"
  shows "CompactToBig (BigToCompact t) = t div 256 ^ (4 - length (big_Bytes t))"
proof -
  let ?n = "length (big_Bytes t)"
  have n: "?n \<le> 3" using assms big_Bytes_length_le_iff [of t 3] by simp
  have "t div 256 < 2 ^ 23" "0 \<le> t div 256"
    using assms by (auto simp: div_256_less pos_imp_zdiv_nonneg_iff)
  then have "CompactToBig (BigToCompact t) = t div 256 div 256 ^ (3 - ?n)"
    using n CompactToBig_fields [of "int ?n" "t div 256"]
    by (simp add: BigToCompact_short [OF assms] nat_diff_distrib)
  also have "\<dots> = t div 256 ^ Suc (3 - ?n)" by (simp add: zdiv_zmult2_eq)
  also have "Suc (3 - ?n) = 4 - ?n" using n by simp
  finally show ?thesis .
qed

lemma big_Bytes_long_obtain:
  assumes "256 ^ 3 \<le> t" "t < 256 ^ 33"
  obtains k where "length (big_Bytes t) = k + 3" "0 < k" "k \<le> 30"
proof -
  have "\<not> length (big_Bytes t) \<le> 3" "length (big_Bytes t) \<le> 33"
    using assms big_Bytes_length_le_iff [of t 3] big_Bytes_length_le_iff [of t 33] by simp_all
  then show ?thesis by (intro that [of "length (big_Bytes t) - 3"]) auto
qed

lemma CompactToBig_BigToCompact_le:
  assumes "0 \<le> t" "t < 256 ^ 33"
  shows "0 \<le> CompactToBig (BigToCompact t)" "CompactToBig (BigToCompact t) \<le> t"
proof -
  consider "t = 0" | "0 < t" "t < 256 ^ 3" | "256 ^ 3 \<le> t" using assms(1) by fastforce
  then have "0 \<le> CompactToBig (BigToCompact t) \<and> CompactToBig (BigToCompact t) \<le> t"
  proof cases
    case 1
    then show ?thesis by (simp add: BigToCompact_def CompactToBig_def)
  next
    case 2
    then show ?thesis
      using zdiv_mono2 [of t 1 "256 ^ (4 - length (big_Bytes t))"]
      by (simp add: CompactToBig_BigToCompact_short pos_imp_zdiv_nonneg_iff)
  next
    case 3
    from big_Bytes_long_obtain [OF this assms(2)]
    obtain k where k: "length (big_Bytes t) = k + 3" "0 < k" "k \<le> 30" .
    have "0 < t" using 3 by simp
    from CompactToBig_BigToCompact_long [OF this k]
    obtain j where j: "CompactToBig (BigToCompact t) = t div 256 ^ j * 256 ^ j" .
    have "0 \<le> t mod 256 ^ j" by simp
    then have "t div 256 ^ j * 256 ^ j \<le> t" using div_mult_mod_eq [of t "256 ^ j"] by linarith
    then show ?thesis
      using assms(1) unfolding j by (simp add: pos_imp_zdiv_nonneg_iff)
  qed
  then show "0 \<le> CompactToBig (BigToCompact t)" "CompactToBig (BigToCompact t) \<le> t" by simp_all
qed

text \<open>
  C36. The compact form of a target is the target rounded down: for every positive target below
  \<open>256 ^ 33\<close> that has more than three bytes, \<^verbatim>\<open>CompactToBig(BigToCompact(t))\<close> is at most
  \<open>t\<close> and smaller by less than one part in \<open>2 ^ 15\<close>.
\<close>

theorem compact_rounds_down:
  assumes "256 ^ 3 \<le> t" "t < 256 ^ 33"
  shows "CompactToBig (BigToCompact t) \<le> t \<and> (t - CompactToBig (BigToCompact t)) * 2 ^ 15 < t"
proof -
  from big_Bytes_long_obtain [OF assms]
  obtain k where k: "length (big_Bytes t) = k + 3" "0 < k" "k \<le> 30" .
  have "0 < t" using assms by simp
  from CompactToBig_BigToCompact_long [OF this k]
  obtain j where j: "CompactToBig (BigToCompact t) = t div 256 ^ j * 256 ^ j" "2 ^ 15 \<le> t div 256 ^ j" .
  have "t - t div 256 ^ j * 256 ^ j = t mod 256 ^ j" by (rule minus_div_mult_eq_mod)
  also have "\<dots> < 256 ^ j" by simp
  finally have "(t - t div 256 ^ j * 256 ^ j) * 2 ^ 15 < 256 ^ j * 2 ^ 15" by simp
  also have "\<dots> \<le> t div 256 ^ j * 256 ^ j"
    using mult_right_mono [OF j(2), of "256 ^ j"] by (simp add: mult.commute)
  also have le: "t div 256 ^ j * 256 ^ j \<le> t"
    using CompactToBig_BigToCompact_le(2) [of t] assms j(1) by simp
  finally show ?thesis using le j(1) by simp
qed

theorem compact_rounds_down_witness:
  "CompactToBig (BigToCompact 0x123456789a) \<le> 0x123456789a
   \<and> (0x123456789a - CompactToBig (BigToCompact 0x123456789a)) * 2 ^ 15 < 0x123456789a"
  using compact_rounds_down [of "0x123456789a"] by simp

section \<open>The target check: \<^verbatim>\<open>verify.go\<close>\<close>

definition HashToBig :: "hash \<Rightarrow> int" where
  "HashToBig h = big_SetBytes h"

definition MeetsTarget :: "hash \<Rightarrow> u32 \<Rightarrow> bool" where
  "MeetsTarget hash bits =
     (let target = CompactToBig bits
      in if target \<le> 0 then False else HashToBig hash \<le> target)"

lemma LeadingZerosToTarget_eq:
  "lz < 256 \<Longrightarrow> LeadingZerosToTarget lz = 2 ^ (256 - unat lz) - 1"
proof -
  assume lz: "lz < 256"
  then have "unat (256 - lz) = 256 - unat lz"
    by (simp add: unat_sub order_less_imp_le)
  with lz show ?thesis by (simp add: LeadingZerosToTarget_def Let_def not_le push_bit_eq_mult)
qed

lemma unat_lz: "(lz :: u32) < 256 \<Longrightarrow> unat lz < 256"
  by (simp add: word_less_nat_alt)

lemma LeadingZeros_bounds:
  assumes "lz < 256"
  shows "0 < LeadingZerosToTarget lz" "LeadingZerosToTarget lz < 256 ^ 33"
proof -
  have "(2 :: int) ^ (256 - unat lz) \<le> 2 ^ 256" by (intro power_increasing) auto
  then show "0 < LeadingZerosToTarget lz" "LeadingZerosToTarget lz < 256 ^ 33"
    using unat_lz [OF assms] by (simp_all add: LeadingZerosToTarget_eq [OF assms] one_less_power)
qed

text \<open>From 240 leading zero bits on, the compact form loses the whole target; below it does not.\<close>

lemma leading_zeros_compact:
  assumes "lz < 256"
  shows "CompactToBig (BigToCompact (LeadingZerosToTarget lz)) > 0 \<longleftrightarrow> lz < 240"
proof -
  define t where "t = LeadingZerosToTarget lz"
  have t: "0 < t" "t < 256 ^ 33" "t = 2 ^ (256 - unat lz) - 1"
    using LeadingZeros_bounds [OF assms] LeadingZerosToTarget_eq [OF assms] by (simp_all add: t_def)
  have iff: "lz < 240 \<longleftrightarrow> 256 ^ 2 \<le> t"
  proof (cases "lz < 240")
    case True
    then have "(2 :: int) ^ 17 \<le> 2 ^ (256 - unat lz)"
      by (intro power_increasing) (auto simp: word_less_nat_alt)
    with True show ?thesis by (simp add: t(3))
  next
    case False
    then have "(2 :: int) ^ (256 - unat lz) \<le> 2 ^ 16"
      by (intro power_increasing) (auto simp: word_less_nat_alt)
    with False show ?thesis by (simp add: t(3))
  qed
  show ?thesis
  proof (cases "t < 256 ^ 3")
    case True
    let ?n = "length (big_Bytes t)"
    have n: "?n \<le> 2 \<longleftrightarrow> t < 256 ^ 2" "?n \<le> 3"
      using t True big_Bytes_length_le_iff [of t 2] big_Bytes_length_le_iff [of t 3] by simp_all
    have "t div 256 ^ (4 - ?n) = 0" if "?n \<le> 2"
    proof (rule div_pos_pos_trivial)
      have "(256 :: int) ^ 2 \<le> 256 ^ (4 - ?n)" using that by (intro power_increasing) auto
      with that n show "t < 256 ^ (4 - ?n)" by linarith
    qed (use t in simp)
    moreover have "0 < t div 256 ^ (4 - ?n)" if "\<not> ?n \<le> 2"
    proof -
      have "4 - ?n = 1" "256 \<le> t" using that n by auto
      then show ?thesis by (simp add: pos_imp_zdiv_pos_iff)
    qed
    ultimately show ?thesis
      using CompactToBig_BigToCompact_short [OF t(1) True] iff n unfolding t_def [symmetric]
      by (cases "?n \<le> 2") auto
  next
    case False
    from big_Bytes_long_obtain [of t] False t(2)
    obtain k where k: "length (big_Bytes t) = k + 3" "0 < k" "k \<le> 30" by (metis not_le)
    from CompactToBig_BigToCompact_long [OF t(1) k]
    obtain j where j: "CompactToBig (BigToCompact t) = t div 256 ^ j * 256 ^ j" "2 ^ 15 \<le> t div 256 ^ j" .
    have "0 < t div 256 ^ j" using j(2) by simp
    then have "CompactToBig (BigToCompact t) > 0" unfolding j(1) by (intro mult_pos_pos) simp_all
    moreover have "lz < 240" using False iff by simp
    ultimately show ?thesis by (simp add: t_def)
  qed
qed

text \<open>
  C37. What the leading-zero setting of the genesis file means: a hash that meets the compact
  target computed for \<open>lz\<close> leading zero bits has at least \<open>lz\<close> leading zero bits (it is below
  \<open>2 ^ (256 - lz)\<close>). From \<open>lz = 240\<close> on, where the compact form loses the whole target, no
  hash meets it.
\<close>

theorem leading_zeros_target:
  assumes "lz < 256" "MeetsTarget hash (BigToCompact (LeadingZerosToTarget lz))"
  shows "HashToBig hash < 2 ^ (256 - unat lz) \<and> lz < 240"
proof -
  let ?t = "LeadingZerosToTarget lz"
  from assms(2) have hash: "0 < CompactToBig (BigToCompact ?t)" "HashToBig hash \<le> CompactToBig (BigToCompact ?t)"
    by (auto simp: MeetsTarget_def Let_def split: if_splits)
  have "CompactToBig (BigToCompact ?t) \<le> ?t"
    using LeadingZeros_bounds [OF assms(1)] by (intro CompactToBig_BigToCompact_le) auto
  with hash show ?thesis
    using leading_zeros_compact [OF assms(1)] LeadingZerosToTarget_eq [OF assms(1)] by simp
qed

text \<open>With 16 leading zero bits the compact target is \<^verbatim>\<open>0x1f00ffff\<close>, which the zero hash meets.\<close>

lemma genesis_bits_16: "BigToCompact (LeadingZerosToTarget 16) = 0x1f00ffff"
  by code_simp

lemma zero_hash_meets: "MeetsTarget zero_hash 0x1f00ffff"
  by code_simp

theorem leading_zeros_target_witness:
  "MeetsTarget zero_hash (BigToCompact (LeadingZerosToTarget 16))
   \<and> HashToBig zero_hash < 2 ^ (256 - unat (16 :: u32)) \<and> (16 :: u32) < 240"
  using leading_zeros_target [of 16 zero_hash] zero_hash_meets by (simp add: genesis_bits_16)

section \<open>Mining: \<^verbatim>\<open>mine.go\<close>\<close>

text \<open>
  The loop ends only when a nonce meets the target; the result is the hash and the nonce, and the
  header as the loop leaves it behind its pointer.
\<close>

partial_function (option) MineHeader :: "block_header \<Rightarrow> (hash \<times> u64 \<times> block_header) option" where
  [code]: "MineHeader h =
     (let hash = Header_Hash h
      in if MeetsTarget hash (bh_Bits h) then Some (hash, bh_Nonce h, h)
         else MineHeader (h\<lparr>bh_Nonce := bh_Nonce h + 1\<rparr>))"

definition good_nonce :: "block_header \<Rightarrow> u64 \<Rightarrow> bool" where
  "good_nonce h n \<longleftrightarrow> MeetsTarget (Header_Hash (h\<lparr>bh_Nonce := n\<rparr>)) (bh_Bits h)"

lemma good_nonce_update [simp]: "good_nonce (h\<lparr>bh_Nonce := m\<rparr>) n = good_nonce h n"
  by (simp add: good_nonce_def)

lemma good_nonce_self: "good_nonce h (bh_Nonce h) \<longleftrightarrow> MeetsTarget (Header_Hash h) (bh_Bits h)"
  by (simp add: good_nonce_def)

lemma MineHeader_step:
  "MineHeader h =
     (if good_nonce h (bh_Nonce h) then Some (Header_Hash h, bh_Nonce h, h)
      else MineHeader (h\<lparr>bh_Nonce := bh_Nonce h + 1\<rparr>))"
  by (subst MineHeader.simps) (simp add: good_nonce_self Let_def)

lemma MineHeader_skip:
  assumes "\<forall>i < k. \<not> good_nonce h (bh_Nonce h + of_nat i)" "good_nonce h (bh_Nonce h + of_nat k)"
  shows "MineHeader h =
    (let n = bh_Nonce h + of_nat k; h' = h\<lparr>bh_Nonce := n\<rparr> in Some (Header_Hash h', n, h'))"
  using assms
proof (induction k arbitrary: h)
  case 0
  then show ?case by (simp add: MineHeader_step [of h] Let_def)
next
  case (Suc k)
  let ?h = "h\<lparr>bh_Nonce := bh_Nonce h + 1\<rparr>"
  from Suc.prems(1) have "\<not> good_nonce h (bh_Nonce h)" by (auto dest: spec [of _ 0])
  then have "MineHeader h = MineHeader ?h" by (simp add: MineHeader_step [of h])
  also have "\<dots> = (let n = bh_Nonce ?h + of_nat k; h' = ?h\<lparr>bh_Nonce := n\<rparr> in Some (Header_Hash h', n, h'))"
  proof (rule Suc.IH)
    show "\<forall>i < k. \<not> good_nonce ?h (bh_Nonce ?h + of_nat i)"
    proof (intro allI impI)
      fix i assume "i < k"
      then have "\<not> good_nonce h (bh_Nonce h + of_nat (Suc i))" using Suc.prems(1) by blast
      then show "\<not> good_nonce ?h (bh_Nonce ?h + of_nat i)" by (simp add: ac_simps)
    qed
  qed (use Suc.prems(2) in \<open>simp add: ac_simps\<close>)
  finally show ?case by (simp add: ac_simps)
qed

text \<open>A result of the loop is the first good nonce, by fixpoint induction.\<close>

lemma MineHeader_ind:
  assumes "MineHeader h = Some r"
  shows "\<exists>k. (\<forall>i < k. \<not> good_nonce h (bh_Nonce h + of_nat i)) \<and> good_nonce h (bh_Nonce h + of_nat k)"
proof (rule MineHeader.raw_induct [OF _ assms])
  fix f :: "block_header \<Rightarrow> (hash \<times> u64 \<times> block_header) option" and h r
  assume rec: "\<And>h r. f h = Some r \<Longrightarrow>
      \<exists>k. (\<forall>i < k. \<not> good_nonce h (bh_Nonce h + of_nat i)) \<and> good_nonce h (bh_Nonce h + of_nat k)"
    "(let hash = Header_Hash h
      in if MeetsTarget hash (bh_Bits h) then Some (hash, bh_Nonce h, h)
         else f (h\<lparr>bh_Nonce := bh_Nonce h + 1\<rparr>)) = Some r"
  show "\<exists>k. (\<forall>i < k. \<not> good_nonce h (bh_Nonce h + of_nat i)) \<and> good_nonce h (bh_Nonce h + of_nat k)"
  proof (cases "good_nonce h (bh_Nonce h)")
    case True
    then show ?thesis by (intro exI [of _ 0]) simp
  next
    case False
    with rec(2) have "f (h\<lparr>bh_Nonce := bh_Nonce h + 1\<rparr>) = Some r"
      by (simp add: good_nonce_self Let_def)
    from rec(1) [OF this] obtain k where
      k: "\<forall>i < k. \<not> good_nonce h (bh_Nonce h + of_nat (Suc i))" "good_nonce h (bh_Nonce h + of_nat (Suc k))"
      by (auto simp: ac_simps)
    have "\<not> good_nonce h (bh_Nonce h + of_nat i)" if "i < Suc k" for i
      using that k(1) False by (cases i) auto
    with k(2) show ?thesis by blast
  qed
qed

text \<open>
  C22. Mining returns exactly when some nonce makes the header hash meet the target, and then it
  returns the first such nonce counted from the header's own nonce upwards (with wrap-around),
  with the hash of the header carrying it; the header behind the pointer is left with that nonce
  and otherwise unchanged.
\<close>

theorem MineHeader_first:
  "(MineHeader h \<noteq> None \<longleftrightarrow> (\<exists>n. good_nonce h n)) \<and>
   (\<forall>hash n h'. MineHeader h = Some (hash, n, h') \<longrightarrow>
      h' = h\<lparr>bh_Nonce := n\<rparr> \<and> hash = Header_Hash h' \<and> MeetsTarget hash (bh_Bits h) \<and>
      (\<exists>k. n = bh_Nonce h + of_nat k \<and> (\<forall>i < k. \<not> good_nonce h (bh_Nonce h + of_nat i))))"
proof (intro conjI allI impI)
  show "MineHeader h \<noteq> None \<longleftrightarrow> (\<exists>n. good_nonce h n)"
  proof
    assume "\<exists>n. good_nonce h n"
    then obtain n where n: "good_nonce h n" ..
    define P where "P k = good_nonce h (bh_Nonce h + of_nat k)" for k
    have "P (unat (n - bh_Nonce h))" using n by (simp add: P_def)
    then have "P (LEAST k. P k)" "\<forall>i < (LEAST k. P k). \<not> P i"
      by (auto intro: LeastI dest: not_less_Least)
    then show "MineHeader h \<noteq> None"
      using MineHeader_skip [of "LEAST k. P k" h] by (simp add: P_def Let_def)
  qed (auto dest: MineHeader_ind)
next
  fix hash n h' assume r: "MineHeader h = Some (hash, n, h')"
  then obtain k where k: "\<forall>i < k. \<not> good_nonce h (bh_Nonce h + of_nat i)"
    "good_nonce h (bh_Nonce h + of_nat k)" by (blast dest: MineHeader_ind)
  from MineHeader_skip [OF this] r have n: "n = bh_Nonce h + of_nat k" "h' = h\<lparr>bh_Nonce := n\<rparr>"
    "hash = Header_Hash h'" by (auto simp: Let_def)
  then show "h' = h\<lparr>bh_Nonce := n\<rparr>" "hash = Header_Hash h'" by simp_all
  show "MeetsTarget hash (bh_Bits h)" using k(2) n by (simp add: good_nonce_def)
  show "\<exists>k. n = bh_Nonce h + of_nat k \<and> (\<forall>i < k. \<not> good_nonce h (bh_Nonce h + of_nat i))"
    using n k by blast
qed

text \<open>A header whose target is above every hash: mining returns at once.\<close>

definition easy_header :: block_header where
  "easy_header = sample_header\<lparr>bh_Bits := 0x227fffff\<rparr>"

lemma easy_bits: "256 ^ 32 \<le> CompactToBig 0x227fffff"
  by code_simp

lemma easy_good: "good_nonce easy_header n"
proof -
  let ?g = "Header_Hash (easy_header\<lparr>bh_Nonce := n\<rparr>)"
  have "HashToBig ?g < 256 ^ 32"
    using big_SetBytes_less [of ?g] by (simp only: HashToBig_def Header_Hash_length)
  then have "HashToBig ?g \<le> CompactToBig 0x227fffff" using easy_bits by linarith
  moreover have "0 < CompactToBig 0x227fffff" using easy_bits by simp
  moreover have "bh_Bits easy_header = 0x227fffff" by (simp add: easy_header_def)
  ultimately show ?thesis by (simp add: good_nonce_def MeetsTarget_def)
qed

theorem MineHeader_first_witness:
  "\<exists>hash. MineHeader easy_header = Some (hash, 42, easy_header) \<and> MeetsTarget hash 0x227fffff"
proof -
  have "bh_Nonce easy_header = 42" by (simp add: easy_header_def sample_header_def)
  with easy_good have "MineHeader easy_header = Some (Header_Hash easy_header, 42, easy_header)"
    by (subst MineHeader_step) simp
  with MineHeader_first [of easy_header] show ?thesis
    by (simp add: easy_header_def)
qed

section \<open>Work: \<^verbatim>\<open>work.go\<close>\<close>

definition u64_of_char :: "char \<Rightarrow> u64" where
  "u64_of_char c = of_int (of_char c)"

text \<open>The loop that shifts bytes into \<^verbatim>\<open>top\<close>; dividing by \<^verbatim>\<open>top + 1\<close> panics when it is zero.\<close>

definition Work64 :: "u32 \<Rightarrow> u64 option" where
  "Work64 bits =
     (let t = CompactToBig bits
      in if t \<le> 0 then Some 0
         else let bb = big_Bytes t;
                  tp = (if length bb \<ge> 8
                         then foldl (\<lambda>tp i. push_bit 8 tp OR u64_of_char (bb ! i)) 0 [0 ..< 8]
                         else push_bit (8 * (8 - length bb))
                                (foldl (\<lambda>tp i. push_bit 8 tp OR u64_of_char (bb ! i)) 0 [0 ..< length bb]))
              in if tp = 0 then Some (- 1)
                 else if tp + 1 = 0 then None
                 else Some ((- 1) div (tp + 1)))"

definition Cumulative :: "u64 \<Rightarrow> u64 \<Rightarrow> u64" where
  "Cumulative parent add = (let sum = parent + add in if sum < parent then - 1 else sum)"

lemma unat_8_mult: "unat (8 * (w :: 8 word)) = 8 * (unat w mod 32)"
  by (simp add: unat_word_ariths mult_mod_right)

text \<open>Every compact target is a number below \<open>256 ^ 3\<close> followed by zero bytes.\<close>

lemma CompactToBig_shape:
  obtains m j where "CompactToBig c = m * 256 ^ j" "0 \<le> m" "m < 256 ^ 3"
proof -
  let ?m = "uint (c AND 0x007fffff)"
  let ?e = "ucast (drop_bit 24 c) :: 8 word"
  have "?m = uint c mod 2 ^ 23"
    by (simp only: u32_mask_23 take_bit_eq_mask [symmetric] unsigned_take_bit_eq) (simp only: take_bit_eq_mod)
  then have m: "0 \<le> ?m" "?m < 2 ^ 23" by simp_all
  have p: "(256 :: int) ^ n = 2 ^ (8 * n)" for n by (simp add: power_mult)
  show ?thesis
  proof (cases "?e \<le> 3")
    case True
    then have "CompactToBig c = ?m div 2 ^ unat (8 * (3 - ?e))"
      by (simp only: CompactToBig_def Let_def if_True drop_bit_eq_div)
    with m div_pow_bounds [OF m(1), of "unat (8 * (3 - ?e))"] show ?thesis
      by (intro that [of "?m div 2 ^ unat (8 * (3 - ?e))" 0]) auto
  next
    case False
    then have "CompactToBig c = ?m * 2 ^ (8 * (unat (?e - 3) mod 32))"
      by (simp only: CompactToBig_def Let_def if_False push_bit_eq_mult unat_8_mult)
    with m show ?thesis by (intro that [of ?m "unat (?e - 3) mod 32"]) (auto simp: p)
  qed
qed

lemma even_not_minus_1:
  assumes "\<not> bit (w :: u64) 0" shows "w + 1 \<noteq> 0"
proof
  assume "w + 1 = 0"
  then have "w = - 1" by (simp add: eq_neg_iff_add_eq_0)
  with assms show False by simp
qed

lemma Work64_div:
  assumes "(tp :: u64) \<noteq> 0" "tp + 1 \<noteq> 0"
  shows "(- 1) div (tp + 1) \<noteq> 0"
proof -
  have "unat (tp + 1) > 0" using assms(2) by (simp add: unat_gt_0)
  moreover have "unat (tp + 1) \<le> unat (- 1 :: u64)"
    by (simp only: word_le_nat_alt [symmetric]) simp
  ultimately have "0 < unat (- 1 :: u64) div unat (tp + 1)"
    by (simp only: div_greater_zero_iff)
  then show ?thesis by (metis unat_div_distrib unat_0 less_irrefl)
qed

text \<open>
  \<^verbatim>\<open>Work64\<close> never divides by zero, and the work of a header is zero exactly when its
  compact target is zero, that is when no hash meets it.
\<close>

theorem Work64_total:
  "\<exists>w. Work64 bits = Some w \<and> (w = 0 \<longleftrightarrow> CompactToBig bits = 0)"
proof -
  obtain m j where t: "CompactToBig bits = m * 256 ^ j" "0 \<le> m" "m < 256 ^ 3"
    by (rule CompactToBig_shape)
  show ?thesis
  proof (cases "m = 0")
    case True
    with t show ?thesis by (simp add: Work64_def Let_def)
  next
    case False
    let ?bb = "big_Bytes (CompactToBig bits)"
    let ?f = "\<lambda>tp i. push_bit 8 tp OR u64_of_char (?bb ! i)"
    define tp where "tp = (if length ?bb \<ge> 8 then foldl ?f 0 [0 ..< 8]
      else push_bit (8 * (8 - length ?bb)) (foldl ?f 0 [0 ..< length ?bb]))"
    have pos: "0 < CompactToBig bits" using t False by simp
    have bb: "?bb = big_Bytes m @ replicate j (CHR 0x00)" "length (big_Bytes m) \<le> 3"
      using t False by (simp_all only: big_Bytes_length_le_iff) (simp add: big_Bytes_shift)
    have "\<not> bit tp 0"
    proof (cases "length ?bb \<ge> 8")
      case True
      then have "?bb ! 7 = CHR 0x00" using bb by (simp add: nth_append)
      moreover have "[0 ..< 8] = [0 ..< 7] @ [7 :: nat]" by (simp add: upt_rec)
      ultimately have "tp = push_bit 8 (foldl ?f 0 [0 ..< 7]) OR u64_of_char (CHR 0x00)"
        using True by (simp only: tp_def if_True foldl_append foldl_Cons foldl_Nil)
      also have "u64_of_char (CHR 0x00) = 0" by (simp add: u64_of_char_def)
      finally have "tp = push_bit 8 (foldl ?f 0 [0 ..< 7])" by simp
      then show ?thesis by (simp add: bit_push_bit_iff)
    next
      case False
      then show ?thesis by (simp add: tp_def bit_push_bit_iff)
    qed
    then have "tp + 1 \<noteq> 0" by (rule even_not_minus_1)
    moreover have "Work64 bits = (if tp = 0 then Some (- 1) else if tp + 1 = 0 then None
        else Some ((- 1) div (tp + 1)))"
      using pos unfolding Work64_def Let_def tp_def [symmetric] by simp
    ultimately show ?thesis using pos Work64_div [of tp] by auto
  qed
qed

text \<open>
  The estimate is not monotonic in the target, as the comment on \<^verbatim>\<open>Work64\<close> says: the larger
  target \<^verbatim>\<open>0x1d010000\<close> counts for more work than the smaller \<^verbatim>\<open>0x1d00ffff\<close>, because only
  the leading bytes of the target are compared, whatever their number.
\<close>

lemma Work64_not_monotonic:
  "CompactToBig 0x1d00ffff < CompactToBig 0x1d010000 \<and>
   the (Work64 0x1d00ffff) < the (Work64 0x1d010000)"
proof
  show "CompactToBig 0x1d00ffff < CompactToBig 0x1d010000" by code_simp
  show "the (Work64 0x1d00ffff) < the (Work64 0x1d010000)" by code_simp
qed

text \<open>
  Adding work saturates: \<^verbatim>\<open>Cumulative\<close> is the sum of the two numbers, cut off at the
  largest \<^verbatim>\<open>uint64\<close>, so accumulated work never wraps around and never decreases.
\<close>

theorem Cumulative_saturates:
  "unat (Cumulative parent add) = min (unat parent + unat add) (2 ^ 64 - 1)
   \<and> parent \<le> Cumulative parent add"
proof -
  have b: "unat parent < 2 ^ 64" "unat add < 2 ^ 64"
    using unsigned_less [of parent, where ?'a = nat] unsigned_less [of add, where ?'a = nat] by simp_all
  have s: "unat (parent + add)
      = (if unat parent + unat add < 2 ^ 64 then unat parent + unat add else unat parent + unat add - 2 ^ 64)"
    using unat_plus_if' [of parent add] by simp
  have m: "unat (- 1 :: u64) = 2 ^ 64 - 1"
    by (simp add: unsigned_minus_1_eq_mask mask_eq_exp_minus_1)
  show ?thesis
  proof (cases "unat parent + unat add < 2 ^ 64")
    case True
    with s have n: "\<not> parent + add < parent" by (simp add: word_less_nat_alt)
    then have "Cumulative parent add = parent + add" by (simp only: Cumulative_def Let_def if_False)
    with True s n show ?thesis by (simp add: not_less)
  next
    case False
    with s b have "parent + add < parent" by (simp add: word_less_nat_alt)
    with False m show ?thesis by (simp add: Cumulative_def Let_def)
  qed
qed

section \<open>Retargeting: \<^verbatim>\<open>retarget.go\<close>\<close>

definition Retarget :: "u32 \<Rightarrow> int \<Rightarrow> int \<Rightarrow> u32" where
  "Retarget prevBits actualSpanSec targetSpanSec =
     (if targetSpanSec \<le> 0 then prevBits
      else let min = targetSpanSec div 4;
               max = i64 (targetSpanSec * 4);
               actualSpanSec = (if actualSpanSec < min then min else actualSpanSec);
               actualSpanSec = (if actualSpanSec > max then max else actualSpanSec)
           in if actualSpanSec < targetSpanSec then prevBits + 1
              else if actualSpanSec > targetSpanSec
                   then (if prevBits > 1 then prevBits - 1 else prevBits)
                   else prevBits)"

text \<open>
  Retargeting moves the compact bits by one according to the sign of the deviation alone: as
  long as four times the target span fits \<^verbatim>\<open>int64\<close>, the clamping has no effect, a short span
  adds one (wrapping), a long span subtracts one but not below one, and an exact span or a
  non-positive target span leaves the bits unchanged.
\<close>

theorem Retarget_sign:
  assumes "targetSpanSec < 2 ^ 61"
  shows "Retarget prevBits actualSpanSec targetSpanSec =
    (if targetSpanSec \<le> 0 \<or> actualSpanSec = targetSpanSec then prevBits
     else if actualSpanSec < targetSpanSec then prevBits + 1
     else if prevBits > 1 then prevBits - 1 else prevBits)"
proof (cases "targetSpanSec \<le> 0")
  case False
  with assms have "i64 (targetSpanSec * 4) = targetSpanSec * 4" by (intro i64_id) (simp add: in_i64_def)
  with False show ?thesis by (auto simp: Retarget_def Let_def)
qed (simp add: Retarget_def)

theorem Retarget_sign_witness:
  "Retarget 0x1d00ffff 1000 1209600 = 0x1d010000 \<and> Retarget 0x1d00ffff 9999999 1209600 = 0x1d00fffe"
  using Retarget_sign [of 1209600 "0x1d00ffff" 1000] Retarget_sign [of 1209600 "0x1d00ffff" 9999999]
  by simp

end
