(* ===== verification/Genesis.thy ===== *)
theory Genesis
  imports Pow
begin

text \<open>
  The genesis file and the genesis block: \<^verbatim>\<open>core/chain/genesis.go\<close> and
  \<^verbatim>\<open>core/chain/genesis_block.go\<close>. The free-form \<^verbatim>\<open>params\<close> object of the file is read by
  no code modelled here and is left out of the record.
\<close>

section \<open>The genesis file: \<^verbatim>\<open>genesis.go\<close>\<close>

record genesis_finality =
  gf_CheckpointInterval :: u64
  gf_ThresholdNum :: int
  gf_ThresholdDen :: int

record genesis_validator =
  gv_Name :: string
  gv_PubkeyHex :: string
  gv_Weight :: int

record allocation =
  al_Tag :: string
  al_Address :: string
  al_Balance :: string

record genesis =
  g_ChainID :: string
  g_Network :: string
  g_GenesisTimeUnix :: int
  g_ProtocolVersion :: u32
  g_PoWLeadingZeroBits :: u32
  g_Finality :: "genesis_finality option"
  g_Validators :: "genesis_validator list"
  g_Allocations :: "allocation list"

text \<open>
  \<^verbatim>\<open>itoa\<close> fills a 20-byte array from the right; a write at a negative index would panic
  (\<open>None\<close>).
\<close>

definition itoa_put :: "char \<Rightarrow> bytes \<Rightarrow> bytes option" where
  "itoa_put c buf = (if length buf < 20 then Some (c # buf) else None)"

function itoa_loop :: "int \<Rightarrow> bytes \<Rightarrow> bytes option" where
  "itoa_loop i buf =
     (if i > 0 then do { buf \<leftarrow> itoa_put (char_of (48 + i mod 10)) buf; itoa_loop (i div 10) buf }
      else Some buf)"
  by pat_completeness auto
termination by (relation "measure (\<lambda>(i, buf). nat i)") auto

declare itoa_loop.simps [simp del]

definition itoa :: "int \<Rightarrow> string option" where
  "itoa i =
     (if i = 0 then Some ''0''
      else let (neg, i) = (if i < 0 then (True, i64 (- i)) else (False, i))
           in do { buf \<leftarrow> itoa_loop i [];
                   if neg then itoa_put (CHR ''-'') buf else Some buf })"

definition alloc_error :: "nat \<Rightarrow> string \<Rightarrow> err option" where
  "alloc_error i what =
     do { s \<leftarrow> itoa (int i); Some (Some (Err (''genesis.allocations['' @ s @ what))) }"

definition Validate_alloc :: "nat \<times> allocation \<Rightarrow> unit \<Rightarrow> (err + unit) option" where
  "Validate_alloc ia _ =
     (case ia of (i, a) \<Rightarrow>
        if al_Address a = [] then map_option Inl (alloc_error i ''].address required'')
        else if al_Balance a = [] then map_option Inl (alloc_error i ''].balance required'')
        else Some (Inr ()))"

definition Genesis_Validate :: "genesis \<Rightarrow> err option" where
  "Genesis_Validate g =
     (if g_ChainID g = [] then Some (Some (Err ''genesis.chain_id required''))
      else if g_ProtocolVersion g = 0 then Some (Some (Err ''genesis.protocol_version required''))
      else if g_GenesisTimeUnix g \<le> 0 then Some (Some (Err ''genesis.genesis_time_unix required''))
      else if g_PoWLeadingZeroBits g = 0 \<or> g_PoWLeadingZeroBits g > 255
           then Some (Some (Err ''genesis.consensus.pow_leading_zero_bits invalid''))
      else case foldE Validate_alloc (enumerate 0 (g_Allocations g)) () of
             None \<Rightarrow> None
           | Some (Inl e) \<Rightarrow> Some e
           | Some (Inr _) \<Rightarrow>
               (case g_Finality g of
                  None \<Rightarrow> Some None
                | Some f \<Rightarrow>
                    if gf_CheckpointInterval f = 0
                    then Some (Some (Err ''genesis.finality.checkpoint_interval invalid''))
                    else if gf_ThresholdNum f \<le> 0 \<or> gf_ThresholdDen f \<le> 0
                    then Some (Some (Err ''genesis.finality.threshold invalid''))
                    else Some None))"

text \<open>
  \<^verbatim>\<open>LoadGenesis\<close> over the file system (\<open>ReadFile\<close>) and the decoder of
  \<^verbatim>\<open>encoding/json\<close> (\<open>unmarshal\<close>).
\<close>

definition LoadGenesis ::
  "(string \<Rightarrow> error + bytes) \<Rightarrow> (bytes \<Rightarrow> error + genesis) \<Rightarrow> string \<Rightarrow> (genesis option \<times> err) option" where
  "LoadGenesis ReadFile unmarshal path =
     (case ReadFile path of
        Inl e \<Rightarrow> Some (None, Some e)
      | Inr b \<Rightarrow>
          (case unmarshal b of
             Inl e \<Rightarrow> Some (None, Some e)
           | Inr g \<Rightarrow>
               do { e \<leftarrow> Genesis_Validate g;
                    case e of Some x \<Rightarrow> Some (None, Some x) | None \<Rightarrow> Some (Some g, None) }))"

section \<open>The genesis block: \<^verbatim>\<open>genesis_block.go\<close>\<close>

definition genesisStateRootPlaceholder :: "genesis \<Rightarrow> hash" where
  "genesisStateRootPlaceholder g =
     (let h = ''reserveos:genesis:stateroot:v0'';
          h = h @ g_ChainID g;
          h = foldl (\<lambda>h a. h @ al_Address a @ [CHR 0x00] @ al_Balance a @ [CHR 0x00]) h (g_Allocations g);
          h = putU64 h (ucast (g_PoWLeadingZeroBits g));
          sum = Sum256 h
      in take 32 sum)"

definition GenesisBlock :: "genesis \<Rightarrow> block" where
  "GenesisBlock g =
     (let zero = zero_hash;
          sr = genesisStateRootPlaceholder g;
          t = LeadingZerosToTarget (g_PoWLeadingZeroBits g);
          bits = BigToCompact t
      in \<lparr>b_Header = \<lparr>bh_Version = g_ProtocolVersion g, bh_ChainID = g_ChainID g, bh_Height = 0,
             bh_TimeUnix = g_GenesisTimeUnix g, bh_PrevHash = zero, bh_StateRoot = sr,
             bh_TxRoot = sha256d ''genesis:txroot:none'', bh_Bits = bits, bh_Nonce = 0\<rparr>,
          b_Txs = []\<rparr>)"

section \<open>Properties\<close>

lemma digit_int: "0 \<le> k \<Longrightarrow> char_of (48 + k) = digit (nat k)"
  using char_of_nat [of "48 + nat k", where ?'a = int] by (simp add: digit_def)

lemma digit_values:
  "digit 0 = CHR ''0''" "digit (Suc 0) = CHR ''1''" "digit 2 = CHR ''2''" "digit 3 = CHR ''3''"
  by code_simp+

lemma length_dec_nat: "n < 10 ^ k \<Longrightarrow> 0 < k \<Longrightarrow> length (dec_nat n) \<le> k"
proof (induction k arbitrary: n)
  case (Suc k)
  show ?case
  proof (cases "n < 10")
    case False
    with Suc.prems have "n div 10 < 10 ^ k" "0 < k" by (auto intro: Suc_leI gr0I)
    with Suc.IH [of "n div 10"] False show ?thesis by (simp add: dec_nat.simps [of n])
  qed (simp add: dec_nat.simps)
qed simp

lemma itoa_loop_dec:
  assumes "0 < i" "length (dec_nat (nat i)) + length buf \<le> 20"
  shows "itoa_loop i buf = Some (dec_nat (nat i) @ buf)"
  using assms
proof (induction i buf rule: itoa_loop.induct)
  case (1 i buf)
  have "nat i mod 10 = nat (i mod 10)" "nat i div 10 = nat (i div 10)"
    using 1(2) by (simp_all add: nat_mod_distrib nat_div_distrib)
  note n = this
  show ?case
  proof (cases "i < 10")
    case True
    then have "dec_nat (nat i) = [digit (nat i)]" by (simp add: dec_nat.simps nat_less_iff)
    with 1 True show ?thesis by (simp add: itoa_loop.simps itoa_put_def digit_int)
  next
    case False
    then have d: "dec_nat (nat i) = dec_nat (nat (i div 10)) @ [digit (nat (i mod 10))]"
      by (simp add: dec_nat.simps [of "nat i"] n)
    have "itoa_put (char_of (48 + i mod 10)) buf = Some (digit (nat (i mod 10)) # buf)"
      using 1(3) d by (simp add: itoa_put_def digit_int)
    with 1(1) [of "digit (nat (i mod 10)) # buf"] 1(2,3) False d show ?thesis
      by (simp add: itoa_loop.simps [of i buf])
  qed
qed

text \<open>
  \<^verbatim>\<open>itoa\<close> never writes outside its 20-byte array and prints the decimal spelling of every
  \<^verbatim>\<open>int\<close> but one: for the most negative value, whose negation overflows, it prints a bare
  minus sign.
\<close>

theorem itoa_decimal:
  assumes "in_i64 i"
  shows "itoa i = Some (if i = - (2 ^ 63) then ''-''
                        else if i < 0 then CHR ''-'' # dec_nat (nat (- i)) else dec_nat (nat i))"
proof -
  have small: "length (dec_nat (nat k)) \<le> 19" if "k < 2 ^ 63" for k :: int
    using that by (intro length_dec_nat) auto
  consider "i = 0" | "0 < i" | "i = - (2 ^ 63)" | "i < 0" "i \<noteq> - (2 ^ 63)" by linarith
  then show ?thesis
  proof cases
    case 1
    then show ?thesis by (simp add: itoa_def dec_nat.simps digit_values)
  next
    case 2
    with assms small [of i] itoa_loop_dec [of i "[]"] show ?thesis
      by (simp add: itoa_def in_i64_def)
  next
    case 3
    then have "i64 (- i) = - (2 ^ 63)" by (simp add: i64_eq)
    with 3 show ?thesis by (simp add: itoa_def itoa_loop.simps itoa_put_def)
  next
    case 4
    with assms have "i64 (- i) = - i" "- i < 2 ^ 63" by (auto simp: in_i64_def intro: i64_id)
    with 4 small [of "- i"] itoa_loop_dec [of "- i" "[]"] show ?thesis
      by (simp add: itoa_def itoa_put_def)
  qed
qed

theorem itoa_decimal_witness: "itoa (- 1203) = Some ''-1203''"
  using itoa_decimal [of "- 1203"] by (simp add: in_i64_def dec_nat.simps digit_values)


text \<open>
  C33. A genesis file that passes validation yields a chain that can be mined exactly when it asks
  for fewer than 240 leading zero bits: the compact target in the genesis block, which later
  blocks inherit, is positive exactly then, although values up to 255 are accepted.
\<close>

theorem GenesisBlock_minable:
  assumes "Genesis_Validate g = Some None"
  shows "0 < CompactToBig (bh_Bits (b_Header (GenesisBlock g))) \<longleftrightarrow> g_PoWLeadingZeroBits g < 240"
proof -
  have "g_PoWLeadingZeroBits g \<le> 255" using assms by (auto simp: Genesis_Validate_def split: if_splits)
  then have "g_PoWLeadingZeroBits g < 256"
    by (rule le_less_trans) simp
  from leading_zeros_compact [OF this] show ?thesis by (simp add: GenesisBlock_def Let_def)
qed

definition sample_genesis :: genesis where
  "sample_genesis = \<lparr>g_ChainID = ''reserve-test'', g_Network = ''test'', g_GenesisTimeUnix = 1700000000,
     g_ProtocolVersion = 1, g_PoWLeadingZeroBits = 250,
     g_Finality = Some \<lparr>gf_CheckpointInterval = 10, gf_ThresholdNum = 2, gf_ThresholdDen = 3\<rparr>,
     g_Validators = [], g_Allocations = [\<lparr>al_Tag = ''t'', al_Address = ''alice'', al_Balance = ''100''\<rparr>]\<rparr>"

theorem GenesisBlock_minable_witness:
  "Genesis_Validate sample_genesis = Some None \<and>
   \<not> 0 < CompactToBig (bh_Bits (b_Header (GenesisBlock sample_genesis)))"
proof -
  have "Genesis_Validate sample_genesis = Some None"
    by (simp add: sample_genesis_def Genesis_Validate_def Validate_alloc_def)
  with GenesisBlock_minable [OF this] show ?thesis by (simp add: sample_genesis_def)
qed

end
