(* ===== verification/Fees.thy ===== *)
theory Fees
  imports Chain
begin

text \<open>
  The fee rules of \<^verbatim>\<open>core/economics/fees/fees.go\<close>: the fee of a transaction and the split of a
  block's fees over the four pools. All amounts are \<^verbatim>\<open>int64\<close> and wrap.
\<close>

section \<open>Model\<close>

text \<open>\<^verbatim>\<open>Mode\<close> is a string type with three named values.\<close>

type_synonym fee_mode = string

definition ModeNormal :: fee_mode where "ModeNormal = ''NORMAL''"
definition ModeDefense :: fee_mode where "ModeDefense = ''DEFENSE''"
definition ModeContainment :: fee_mode where "ModeContainment = ''CONTAINMENT''"

lemmas mode_defs = ModeNormal_def ModeDefense_def ModeContainment_def

record fee_params =
  fp_GasAsset :: string
  fp_BaseFeeMin :: int
  fp_PerByte :: int
  fp_OTAPMultiplier :: int
  fp_Mode :: fee_mode

record fee_split =
  sp_ToValidators :: int
  sp_ToParticipation :: int
  sp_ToTreasury :: int
  sp_ToDefensePool :: int

definition EstimateFee :: "int \<Rightarrow> bool \<Rightarrow> fee_params \<Rightarrow> int" where
  "EstimateFee txBytes isOTAP p =
     (let txBytes = (if txBytes < 0 then 0 else txBytes);
          units = txBytes;
          fee = i64 (fp_BaseFeeMin p + i64 (fp_PerByte p * units));
          fee = (if isOTAP \<and> fp_OTAPMultiplier p > 1 then i64 (fee * fp_OTAPMultiplier p) else fee);
          fee = (if fp_Mode p = ModeDefense then i64 (fee * 2)
                 else if fp_Mode p = ModeContainment then i64 (fee * 4)
                 else fee)
      in if fee < fp_BaseFeeMin p then fp_BaseFeeMin p else fee)"

text \<open>A percentage as the code computes it: \<^verbatim>\<open>total*n/100\<close>.\<close>

definition pct :: "int \<Rightarrow> int \<Rightarrow> int" where
  "pct tot n = go_div (i64 (tot * n)) 100"

definition SplitFees :: "int \<Rightarrow> fee_params \<Rightarrow> fee_split" where
  "SplitFees tot p =
     (if tot \<le> 0
      then \<lparr>sp_ToValidators = 0, sp_ToParticipation = 0, sp_ToTreasury = 0, sp_ToDefensePool = 0\<rparr>
      else let (v, pop, tr, def) =
             (if fp_Mode p = ModeDefense
              then let v = pct tot 35; pop = pct tot 15; tr = pct tot 20
                   in (v, pop, tr, i64 (i64 (i64 (tot - v) - pop) - tr))
              else if fp_Mode p = ModeContainment
              then let v = pct tot 25; pop = pct tot 10; tr = pct tot 15
                   in (v, pop, tr, i64 (i64 (i64 (tot - v) - pop) - tr))
              else let v = pct tot 50; pop = pct tot 20
                   in (v, pop, i64 (i64 (tot - v) - pop), 0))
           in \<lparr>sp_ToValidators = v, sp_ToParticipation = pop, sp_ToTreasury = tr, sp_ToDefensePool = def\<rparr>)"

definition TxSizeHint :: "string \<Rightarrow> int \<Rightarrow> int" where
  "TxSizeHint txid outputs =
     (let outputs = (if outputs < 0 then 0 else outputs) in i64 (180 + i64 (80 * outputs)))"

section \<open>Properties\<close>

lemma pct_small:
  assumes "0 \<le> tot" "tot \<le> (2 ^ 63 - 1) div 50" "0 \<le> n" "n \<le> 50"
  shows "pct tot n = tot * n div 100"
proof -
  have "tot * n \<le> tot * 50" using assms by (intro mult_left_mono) auto
  with assms have "in_i64 (tot * n)" by (auto simp: in_i64_def intro: order_trans [of _ 0])
  with assms show ?thesis by (simp add: pct_def go_div_nonneg)
qed

text \<open>Rounded-down percentages of at most a hundred in all do not exceed the total.\<close>

lemma pct_sum:
  fixes tot :: int
  assumes "0 < tot" "0 \<le> a" "0 \<le> b" "0 \<le> c" "a + b + c \<le> 100"
  shows "tot * a div 100 + tot * b div 100 + tot * c div 100 \<le> tot"
proof -
  have d: "100 * (x div 100) \<le> x" for x :: int
    using mult_div_mod_eq [of 100 x] pos_mod_sign [of 100 x] by linarith
  have "tot * a + tot * b + tot * c \<le> tot * 100"
    using assms by (simp flip: distrib_left)
  with d [of "tot * a"] d [of "tot * b"] d [of "tot * c"] show ?thesis by linarith
qed

lemma i64_sub: "0 \<le> x \<Longrightarrow> x \<le> y \<Longrightarrow> y < 2 ^ 62 \<Longrightarrow> i64 (y - x) = y - x"
  by (intro i64_id) (simp add: in_i64_def)

text \<open>
  C32. The split of a block's fees conserves them: for every mode and every total for which the
  percentages do not overflow \<^verbatim>\<open>int64\<close>, each of the four shares is non-negative and they add
  up to the total exactly, the rounding going to the last pool of the mode.
\<close>

theorem SplitFees_conserves:
  assumes "0 \<le> tot" "tot \<le> (2 ^ 63 - 1) div 50"
  shows "let s = SplitFees tot p in
    sp_ToValidators s + sp_ToParticipation s + sp_ToTreasury s + sp_ToDefensePool s = tot
    \<and> 0 \<le> sp_ToValidators s \<and> 0 \<le> sp_ToParticipation s \<and> 0 \<le> sp_ToTreasury s \<and> 0 \<le> sp_ToDefensePool s"
proof (cases "tot = 0")
  case False
  with assms have t: "0 < tot" "tot < 2 ^ 62" by auto
  have nn: "0 \<le> pct tot n" if "0 \<le> n" "n \<le> 50" for n
    using that t by (simp add: pct_small [OF assms] pos_imp_zdiv_nonneg_iff)
  have sum3: "pct tot a + pct tot b + pct tot c \<le> tot"
    if "0 \<le> a" "0 \<le> b" "0 \<le> c" "a + b + c \<le> 100" "a \<le> 50" "b \<le> 50" "c \<le> 50" for a b c
    using that t by (simp add: pct_small [OF assms] pct_sum)
  have nt: "\<not> tot \<le> 0" using t by simp
  consider "fp_Mode p = ModeDefense" | "fp_Mode p = ModeContainment" "fp_Mode p \<noteq> ModeDefense"
    | "fp_Mode p \<noteq> ModeContainment" "fp_Mode p \<noteq> ModeDefense" by blast
  then show ?thesis
  proof cases
    case 1
    then show ?thesis
      using t nn [of 35] nn [of 15] nn [of 20] sum3 [of 35 15 20]
      unfolding SplitFees_def if_not_P [OF nt] by (simp add: Let_def i64_sub)
  next
    case 2
    then show ?thesis
      using t nn [of 25] nn [of 10] nn [of 15] sum3 [of 25 10 15]
      unfolding SplitFees_def if_not_P [OF nt] by (simp add: Let_def i64_sub)
  next
    case 3
    then show ?thesis
      using t nn [of 50] nn [of 20] nn [of 0] sum3 [of 50 20 0]
      unfolding SplitFees_def if_not_P [OF nt] by (simp add: Let_def i64_sub)
  qed
qed (simp add: SplitFees_def)

definition sample_params :: fee_params where
  "sample_params = \<lparr>fp_GasAsset = ''USDR'', fp_BaseFeeMin = 100, fp_PerByte = 1, fp_OTAPMultiplier = 10,
     fp_Mode = ModeDefense\<rparr>"

theorem SplitFees_conserves_witness:
  "sp_ToValidators (SplitFees 1001 sample_params) = 350 \<and> sp_ToDefensePool (SplitFees 1001 sample_params) = 301"
  using SplitFees_conserves [of 1001 sample_params]
  by (simp add: SplitFees_def sample_params_def pct_def go_div_def i64_eq Let_def mode_defs)

text \<open>Beyond that bound a share can be negative.\<close>

lemma SplitFees_overflow:
  "sp_ToValidators (SplitFees 300000000000000000 (sample_params\<lparr>fp_Mode := ModeNormal\<rparr>)) < 0"
  by (simp add: SplitFees_def sample_params_def pct_def go_div_def i64_eq Let_def mode_defs)

text \<open>
  The fee estimate: it is never below the base fee, whatever overflows; and when the
  intermediate products fit \<^verbatim>\<open>int64\<close> it is the base fee plus the price of the bytes, times the
  OTAP multiplier for OTAP transactions, times two in defense and four in containment mode.
\<close>

theorem EstimateFee_spec:
  "fp_BaseFeeMin p \<le> EstimateFee n isOTAP p \<and>
   (0 \<le> fp_BaseFeeMin p \<and> 0 \<le> fp_PerByte p \<and> 0 \<le> n \<and>
    (fp_BaseFeeMin p + fp_PerByte p * n) * max 1 (fp_OTAPMultiplier p) * 4 < 2 ^ 63 \<longrightarrow>
    EstimateFee n isOTAP p =
      (fp_BaseFeeMin p + fp_PerByte p * n) * (if isOTAP then max 1 (fp_OTAPMultiplier p) else 1)
      * (if fp_Mode p = ModeDefense then 2 else if fp_Mode p = ModeContainment then 4 else 1))"
proof (intro conjI impI)
  show "fp_BaseFeeMin p \<le> EstimateFee n isOTAP p" by (simp add: EstimateFee_def Let_def)
next
  define f where "f = fp_BaseFeeMin p + fp_PerByte p * n"
  define k where "k = max 1 (fp_OTAPMultiplier p)"
  assume a: "0 \<le> fp_BaseFeeMin p \<and> 0 \<le> fp_PerByte p \<and> 0 \<le> n \<and>
    (fp_BaseFeeMin p + fp_PerByte p * n) * max 1 (fp_OTAPMultiplier p) * 4 < 2 ^ 63"
  then have f: "0 \<le> fp_PerByte p * n" "fp_BaseFeeMin p \<le> f" "0 \<le> f" by (simp_all add: f_def)
  have k: "1 \<le> k" by (simp add: k_def)
  have fk: "f \<le> f * k" using f(3) k by (simp add: mult_le_cancel_left1)
  from a have lt: "f * k * 4 < 2 ^ 63" by (simp add: f_def k_def)
  have i: "i64 x = x" if "0 \<le> x" "x \<le> f * k * 4" for x
    using that lt by (intro i64_id) (simp add: in_i64_def)
  have "fp_PerByte p * n \<le> f" using a by (simp add: f_def)
  then have "i64 (fp_PerByte p * n) = fp_PerByte p * n" "i64 f = f"
    using f fk by (auto intro!: i)
  then have e1: "i64 (fp_BaseFeeMin p + i64 (fp_PerByte p * n)) = f" by (simp only: f_def)
  define g where "g = f * (if isOTAP then k else 1)"
  have g: "0 \<le> g" "g \<le> f * k" "f \<le> g" using f fk by (auto simp: g_def)
  have e2: "(if isOTAP \<and> fp_OTAPMultiplier p > 1 then i64 (f * fp_OTAPMultiplier p) else f) = g"
    using i [of "f * k"] f fk by (auto simp: g_def k_def)
  have n0: "(if n < 0 then 0 else n) = n" using a by simp
  have e3: "i64 (g * 2) = g * 2" "i64 (g * 4) = g * 4" using g by (auto intro!: i)
  have "EstimateFee n isOTAP p
      = (if fp_Mode p = ModeDefense then g * 2 else if fp_Mode p = ModeContainment then g * 4 else g)"
    using g f(2) unfolding EstimateFee_def Let_def n0 e1 e2 e3 by auto
  then show "EstimateFee n isOTAP p = f * (if isOTAP then k else 1)
      * (if fp_Mode p = ModeDefense then 2 else if fp_Mode p = ModeContainment then 4 else 1)"
    by (simp add: g_def)
qed

theorem EstimateFee_spec_witness: "EstimateFee 340 True sample_params = 8800"
  using EstimateFee_spec [of sample_params 340 True] by (simp add: sample_params_def mode_defs)

end
