(* ===== verification/Sha256_Vectors.thy ===== *)
theory Sha256_Vectors
  imports Sha256
begin

text \<open>
  The model of \<^verbatim>\<open>sha256.Sum256\<close> evaluated in the kernel on a published test vector.
\<close>

text \<open>The test vector \<^verbatim>\<open>abc\<close> of FIPS 180-4.\<close>

lemma Sum256_abc:
  "Sum256 ''abc'' =
     concat (map u32_be [0xba7816bf, 0x8f01cfea, 0x414140de, 0x5dae2223,
                         0xb00361a3, 0x96177a9c, 0xb410ff61, 0xf20015ad])"
  by code_simp

end
