(* ===== verification/Sha512.thy ===== *)
theory Sha512
  imports Sha256
begin

text \<open>
  The part of the Go standard library's \<^verbatim>\<open>crypto/sha512\<close> the node uses: a digest of what was
  written, on 64-bit words. The structure is that of SHA-256 with other constants and rotations.
\<close>

text \<open>Leading 64 bits of the fractional parts of the cube roots of the first 80 primes.\<close>

definition sha512_K :: "u64 list" where
  "sha512_K = [
     4794697086780616226, 8158064640168781261, 13096744586834688815, 16840607885511220156,
     4131703408338449720, 6480981068601479193, 10538285296894168987, 12329834152419229976,
     15566598209576043074, 1334009975649890238, 2608012711638119052, 6128411473006802146,
     8268148722764581231, 9286055187155687089, 11230858885718282805, 13951009754708518548,
     16472876342353939154, 17275323862435702243, 1135362057144423861, 2597628984639134821,
     3308224258029322869, 5365058923640841347, 6679025012923562964, 8573033837759648693,
     10970295158949994411, 12119686244451234320, 12683024718118986047, 13788192230050041572,
     14330467153632333762, 15395433587784984357, 489312712824947311, 1452737877330783856,
     2861767655752347644, 3322285676063803686, 5560940570517711597, 5996557281743188959,
     7280758554555802590, 8532644243296465576, 9350256976987008742, 10552545826968843579,
     11727347734174303076, 12113106623233404929, 14000437183269869457, 14369950271660146224,
     15101387698204529176, 15463397548674623760, 17586052441742319658, 1182934255886127544,
     1847814050463011016, 2177327727835720531, 2830643537854262169, 3796741975233480872,
     4115178125766777443, 5681478168544905931, 6601373596472566643, 7507060721942968483,
     8399075790359081724, 8693463985226723168, 9568029438360202098, 10144078919501101548,
     10430055236837252648, 11840083180663258601, 13761210420658862357, 14299343276471374635,
     14566680578165727644, 15097957966210449927, 16922976911328602910, 17689382322260857208,
     500013540394364858, 748580250866718886, 1242879168328830382, 1977374033974150939,
     2944078676154940804, 3659926193048069267, 4368137639120453308, 4836135668995329356,
     5532061633213252278, 6448918945643986474, 6902733635092675308, 7801388544844847127]"

type_synonym sha512_state = "u64 \<times> u64 \<times> u64 \<times> u64 \<times> u64 \<times> u64 \<times> u64 \<times> u64"

definition sha512_IV :: sha512_state where
  "sha512_IV = (7640891576956012808, 13503953896175478587, 4354685564936845355, 11912009170470909681,
     5840696475078001361, 11170449401992604703, 2270897969802886507, 6620516959819538809)"

definition rotr64 :: "nat \<Rightarrow> u64 \<Rightarrow> u64" where
  "rotr64 n x = drop_bit n x OR push_bit (64 - n) x"

definition mix3 :: "nat \<Rightarrow> nat \<Rightarrow> nat \<Rightarrow> u64 \<Rightarrow> u64" where
  "mix3 i j k x = rotr64 i x XOR rotr64 j x XOR rotr64 k x"

definition mix2 :: "nat \<Rightarrow> nat \<Rightarrow> nat \<Rightarrow> u64 \<Rightarrow> u64" where
  "mix2 i j k x = rotr64 i x XOR rotr64 j x XOR drop_bit k x"

fun sha512_schedule :: "nat \<Rightarrow> u64 list \<Rightarrow> u64 list" where
  "sha512_schedule 0 w = w"
| "sha512_schedule (Suc n) w =
     sha512_schedule n ((mix2 19 61 6 (w ! 1) + w ! 6 + mix2 1 8 7 (w ! 14) + w ! 15) # w)"

fun sha512_round :: "u64 \<times> u64 \<Rightarrow> sha512_state \<Rightarrow> sha512_state" where
  "sha512_round (k, w) (a, b, c, d, e, f, g, h) =
     (let t1 = h + mix3 14 18 41 e + ((e AND f) XOR (NOT e AND g)) + k + w;
          t2 = mix3 28 34 39 a + ((a AND b) XOR (a AND c) XOR (b AND c))
      in (t1 + t2, a, b, c, d + t1, e, f, g))"

fun sha512_add :: "sha512_state \<Rightarrow> sha512_state \<Rightarrow> sha512_state" where
  "sha512_add (a, b, c, d, e, f, g, h) (a', b', c', d', e', f', g', h') =
     (a + a', b + b', c + c', d + d', e + e', f + f', g + g', h + h')"

definition sha512_block :: "bytes \<Rightarrow> sha512_state \<Rightarrow> sha512_state" where
  "sha512_block blk s =
     (let w = rev (sha512_schedule 64 (rev (map (\<lambda>g. of_int (be_int g)) (groups 8 blk))))
      in sha512_add s (fold sha512_round (zip sha512_K w) s))"

text \<open>The length field has 16 bytes; the upper eight are zero for messages below \<open>2 ^ 61\<close> bytes.\<close>

definition sha512_pad :: "bytes \<Rightarrow> bytes" where
  "sha512_pad m = m @ CHR 0x80 # replicate ((239 - length m mod 128) mod 128) (CHR 0x00)
                 @ PutUint64 (of_int (int (length m) div 2 ^ 61)) @ PutUint64 (of_int (8 * int (length m)))"

fun sha512_out :: "sha512_state \<Rightarrow> bytes" where
  "sha512_out (a, b, c, d, e, f, g, h) = concat (map PutUint64 [a, b, c, d, e, f, g, h])"

definition Sum512 :: "bytes \<Rightarrow> bytes" where
  "Sum512 m = sha512_out (fold sha512_block (groups 128 (sha512_pad m)) sha512_IV)"

lemma length_sha512_out [simp]: "length (sha512_out s) = 64"
  by (cases s rule: sha512_out.cases) simp

lemma length_Sum512 [simp]: "length (Sum512 m) = 64"
  by (simp add: Sum512_def)

end
