(* ===== verification/Crypto.thy ===== *)
theory Crypto
  imports Hashes Sha512
begin

text \<open>
  Signatures: \<^verbatim>\<open>encoding/hex\<close>, account signatures (\<^verbatim>\<open>core/crypto/sig/ed25519.go\<close>) and
  the Schnorr signatures of one-time-address claims
  (\<^verbatim>\<open>core/crypto/schnorr/schnorr25519.go\<close>). The group operations are those of the third-party
  package \<^verbatim>\<open>filippo.io/edwards25519\<close>: the fields of the record \<open>edwards\<close>, with the laws its
  documentation gives in \<open>edwards_laws\<close>.
\<close>

section \<open>Hexadecimal strings: \<^verbatim>\<open>encoding/hex\<close>\<close>

definition hex_EncodeToString :: "bytes \<Rightarrow> string" where
  "hex_EncodeToString b = concat (map hex_byte b)"

fun hex_DecodeString :: "string \<Rightarrow> error + bytes" where
  "hex_DecodeString [] = Inr []"
| "hex_DecodeString [c] =
     (if fromHex c < 0 then Inl (Err ''encoding/hex: invalid byte'')
      else Inl (Err ''encoding/hex: odd length hex string''))"
| "hex_DecodeString (p # q # s) =
     (let a = fromHex p; b = fromHex q
      in if a < 0 \<or> b < 0 then Inl (Err ''encoding/hex: invalid byte'')
         else (case hex_DecodeString s of
                 Inl e \<Rightarrow> Inl e
               | Inr bs \<Rightarrow> Inr (char_of (push_bit 4 a OR b) # bs)))"

lemma hex_Decode_Encode [simp]: "hex_DecodeString (hex_EncodeToString b) = Inr b"
proof (induction b)
  case (Cons c b)
  have "fromHex (hex_byte c ! 0) = of_char c div 16" "fromHex (hex_byte c ! 1) = of_char c mod 16"
    by (rule fromHex_hex_byte)+
  moreover have "hex_EncodeToString (c # b) = hex_byte c ! 0 # hex_byte c ! 1 # hex_EncodeToString b"
    unfolding hex_EncodeToString_def by (simp add: hex_byte_def)
  ultimately show ?case
    using Cons by (simp add: Let_def nibbles_or pos_imp_zdiv_nonneg_iff not_less del: One_nat_def)
qed (simp add: hex_EncodeToString_def)

lemma length_hex_EncodeToString [simp]: "length (hex_EncodeToString b) = 2 * length b"
  by (induction b) (simp_all add: hex_EncodeToString_def)

section \<open>The group\<close>

record ('p, 's) edwards =
  pt_SetBytes :: "bytes \<Rightarrow> 'p option"
  pt_Bytes :: "'p \<Rightarrow> bytes"
  pt_Generator :: 'p
  pt_Add :: "'p \<Rightarrow> 'p \<Rightarrow> 'p"
  pt_Negate :: "'p \<Rightarrow> 'p"
  pt_ScalarMult :: "'s \<Rightarrow> 'p \<Rightarrow> 'p"
  pt_Equal :: "'p \<Rightarrow> 'p \<Rightarrow> bool"
  sc_SetCanonicalBytes :: "bytes \<Rightarrow> 's option"
  sc_SetUniformBytes :: "bytes \<Rightarrow> 's option"
  sc_Bytes :: "'s \<Rightarrow> bytes"
  sc_Multiply :: "'s \<Rightarrow> 's \<Rightarrow> 's"
  sc_Add :: "'s \<Rightarrow> 's \<Rightarrow> 's"

definition ScalarBaseMult :: "('p, 's) edwards \<Rightarrow> 's \<Rightarrow> 'p" where
  "ScalarBaseMult E k = pt_ScalarMult E k (pt_Generator E)"

text \<open>
  The scalars of the package are integers modulo the prime order \<open>l\<close> of the generator. The curve has
  points of other orders (its cofactor is 8), on which the sum of two scalars modulo \<open>l\<close> does not act
  as the sum of the points: the last two laws speak of multiples of the generator only. A point is
  taken up to the equality of the package, which ignores the choice of the projective coordinates.
\<close>

definition edwards_laws :: "('p, 's) edwards \<Rightarrow> bool" where
  "edwards_laws E \<longleftrightarrow>
     (\<forall>P. pt_SetBytes E (pt_Bytes E P) = Some P \<and> length (pt_Bytes E P) = 32) \<and>
     (\<forall>s. sc_SetCanonicalBytes E (sc_Bytes E s) = Some s \<and> length (sc_Bytes E s) = 32) \<and>
     (\<forall>b. length b = 64 \<longrightarrow> sc_SetUniformBytes E b \<noteq> None) \<and>
     (\<forall>P Q. pt_Equal E P Q \<longleftrightarrow> P = Q) \<and>
     (\<forall>a b. ScalarBaseMult E (sc_Add E a b) = pt_Add E (ScalarBaseMult E a) (ScalarBaseMult E b)) \<and>
     (\<forall>a b. ScalarBaseMult E (sc_Multiply E a b) = pt_ScalarMult E a (ScalarBaseMult E b))"

section \<open>Account signatures: \<^verbatim>\<open>sig/ed25519.go\<close>\<close>

definition sig_ParsePub :: "string \<Rightarrow> error + bytes" where
  "sig_ParsePub hexPub =
     (case hex_DecodeString hexPub of
        Inl e \<Rightarrow> Inl e
      | Inr b \<Rightarrow> if length b \<noteq> 32 then Inl (Err ''bad pubkey size'') else Inr b)"

definition sig_ParseSig :: "string \<Rightarrow> error + bytes" where
  "sig_ParseSig hexSig =
     (case hex_DecodeString hexSig of
        Inl e \<Rightarrow> Inl e
      | Inr b \<Rightarrow> if length b \<noteq> 64 then Inl (Err ''bad sig size'') else Inr b)"

text \<open>
  \<^verbatim>\<open>ed25519.Verify\<close> of the Go standard library on a 32-byte key: the equation
  \<open>R = [s]B - [k]A\<close> is checked on the encoded point.
\<close>

definition ed25519_Verify :: "('p, 's) edwards \<Rightarrow> bytes \<Rightarrow> bytes \<Rightarrow> bytes \<Rightarrow> bool" where
  "ed25519_Verify E pub msg sig =
     (if length sig \<noteq> 64 then False
      else case pt_SetBytes E pub of
             None \<Rightarrow> False
           | Some A \<Rightarrow>
               (case sc_SetUniformBytes E (Sum512 (take 32 sig @ pub @ msg)) of
                  None \<Rightarrow> False
                | Some k \<Rightarrow>
                    (case sc_SetCanonicalBytes E (drop 32 sig) of
                       None \<Rightarrow> False
                     | Some s \<Rightarrow>
                         take 32 sig = pt_Bytes E (pt_Add E (pt_ScalarMult E k (pt_Negate E A)) (ScalarBaseMult E s)))))"

definition sig_Verify :: "('p, 's) edwards \<Rightarrow> string \<Rightarrow> string \<Rightarrow> bytes \<Rightarrow> bool" where
  "sig_Verify E pubHex sigHex msg =
     (case sig_ParsePub pubHex of
        Inl _ \<Rightarrow> False
      | Inr pub \<Rightarrow>
          (case sig_ParseSig sigHex of
             Inl _ \<Rightarrow> False
           | Inr sig \<Rightarrow> ed25519_Verify E pub msg sig))"

definition VerifyWithPubHex :: "('p, 's) edwards \<Rightarrow> string \<Rightarrow> string \<Rightarrow> bytes \<Rightarrow> bool" where
  "VerifyWithPubHex E pubHex sigHex msg = sig_Verify E pubHex sigHex msg"

section \<open>Claim signatures: \<^verbatim>\<open>schnorr25519.go\<close>\<close>

definition challenge :: "('p, 's) edwards \<Rightarrow> 'p \<Rightarrow> 'p \<Rightarrow> bytes \<Rightarrow> error + 's" where
  "challenge E R P msg =
     (let h = ''ReserveOS:Schnorr25519:v1|'';
          h = h @ pt_Bytes E R;
          h = h @ pt_Bytes E P;
          h = h @ msg;
          sum = Sum512 h
      in if length sum \<noteq> 64 then Inl (Err ''bad hash length'')
         else case sc_SetUniformBytes E sum of
                None \<Rightarrow> Inl (Err ''edwards25519: invalid SetUniformBytes input length'')
              | Some sc \<Rightarrow> Inr sc)"

text \<open>The random bytes are an argument: what \<^verbatim>\<open>rand.Read\<close> filled the 64-byte buffer with, or its error.\<close>

definition randomScalar :: "('p, 's) edwards \<Rightarrow> error + bytes \<Rightarrow> error + 's" where
  "randomScalar E rnd =
     (case rnd of
        Inl e \<Rightarrow> Inl e
      | Inr buf \<Rightarrow>
          (case sc_SetUniformBytes E buf of
             None \<Rightarrow> Inl (Err ''edwards25519: invalid SetUniformBytes input length'')
           | Some s \<Rightarrow> Inr s))"

definition schnorr_Sign :: "('p, 's) edwards \<Rightarrow> error + bytes \<Rightarrow> 's \<Rightarrow> 'p \<Rightarrow> bytes \<Rightarrow> string \<times> err" where
  "schnorr_Sign E rnd x P msg =
     (case randomScalar E rnd of
        Inl e \<Rightarrow> ([], Some e)
      | Inr k \<Rightarrow>
          (let R = ScalarBaseMult E k
           in case challenge E R P msg of
                Inl e \<Rightarrow> ([], Some e)
              | Inr e \<Rightarrow>
                  (let ex = sc_Multiply E e x;
                       s = sc_Add E k ex;
                       out = pt_Bytes E R @ sc_Bytes E s
                   in (hex_EncodeToString out, None))))"

definition schnorr_Verify :: "('p, 's) edwards \<Rightarrow> 'p \<Rightarrow> bytes \<Rightarrow> string \<Rightarrow> bool" where
  "schnorr_Verify E P msg sigHex =
     (case hex_DecodeString sigHex of
        Inl _ \<Rightarrow> False
      | Inr sig \<Rightarrow>
          if length sig \<noteq> 64 then False
          else let Rbytes = take 32 sig; sbytes = drop 32 sig
               in case pt_SetBytes E Rbytes of
                    None \<Rightarrow> False
                  | Some R \<Rightarrow>
                      (case sc_SetCanonicalBytes E sbytes of
                         None \<Rightarrow> False
                       | Some s \<Rightarrow>
                           (case challenge E R P msg of
                              Inl _ \<Rightarrow> False
                            | Inr e \<Rightarrow>
                                (let lhs = ScalarBaseMult E s;
                                     eP = pt_ScalarMult E e P;
                                     rhs = pt_Add E R eP
                                 in pt_Equal E lhs rhs))))"

lemma schnorr_signs:
  assumes "edwards_laws E" "length buf = 64" "P = ScalarBaseMult E x"
  shows "\<exists>sigHex. schnorr_Sign E (Inr buf) x P msg = (sigHex, None) \<and> length sigHex = 128 \<and>
    schnorr_Verify E P msg sigHex"
proof -
  obtain k where k: "sc_SetUniformBytes E buf = Some k"
    using assms by (auto simp: edwards_laws_def)
  obtain e where e: "challenge E (ScalarBaseMult E k) P msg = Inr e"
    using assms(1) by (fastforce simp: challenge_def Let_def edwards_laws_def split: option.split)
  show ?thesis
    using assms(1) e
    by (simp add: schnorr_Sign_def randomScalar_def k Let_def schnorr_Verify_def edwards_laws_def assms(3))
qed

text \<open>
  Signatures on one-time-address claims are complete: with working randomness, signing
  succeeds, and the signature made with the secret scalar \<open>x\<close> verifies for the same message under
  the public point \<open>x G\<close>.
\<close>

theorem schnorr_complete:
  assumes "edwards_laws E" "length buf = 64" "P = ScalarBaseMult E x"
  shows "\<exists>sigHex. schnorr_Sign E (Inr buf) x P msg = (sigHex, None) \<and> length sigHex = 128 \<and>
    schnorr_Verify E P msg sigHex"
  using schnorr_signs [OF assms] .

text \<open>A small instance of the group: addition of bytes.\<close>

definition toy_pad :: "8 word \<Rightarrow> bytes" where
  "toy_pad w = replicate 31 (CHR 0x00) @ [char_of (uint w)]"

definition toy_edwards :: "(8 word, 8 word) edwards" where
  "toy_edwards = \<lparr>pt_SetBytes = (\<lambda>b. if length b = 32 then Some (of_int (of_char (last b))) else None),
     pt_Bytes = toy_pad, pt_Generator = 1, pt_Add = (+), pt_Negate = uminus, pt_ScalarMult = (*), pt_Equal = (=),
     sc_SetCanonicalBytes = (\<lambda>b. if length b = 32 then Some (of_int (of_char (last b))) else None),
     sc_SetUniformBytes = (\<lambda>b. if length b = 64 then Some (of_int (be_int b)) else None),
     sc_Bytes = toy_pad, sc_Multiply = (*), sc_Add = (+)\<rparr>"

lemma toy_pad_last: "of_int (of_char (last (toy_pad w))) = w" "length (toy_pad w) = 32"
proof -
  have "uint w mod 256 = uint w" using unsigned_less [of w, where ?'a = int] by simp
  then show "of_int (of_char (last (toy_pad w))) = w" by (simp add: toy_pad_def)
qed (simp add: toy_pad_def)

lemma toy_edwards_laws: "edwards_laws toy_edwards"
  by (simp add: edwards_laws_def ScalarBaseMult_def toy_edwards_def toy_pad_last)

theorem schnorr_complete_witness:
  "\<exists>sigHex. schnorr_Sign toy_edwards (Inr (replicate 64 (CHR ''k''))) 5 5 ''msg'' = (sigHex, None) \<and>
     schnorr_Verify toy_edwards 5 ''msg'' sigHex"
  using schnorr_complete [OF toy_edwards_laws, of "replicate 64 (CHR ''k'')" 5 5 "''msg''"]
  by (auto simp: ScalarBaseMult_def toy_edwards_def)

end
