(* ===== verification/Config.thy ===== *)
theory Config
  imports Fees Complex_Main
begin

text \<open>
  The node configuration, \<^verbatim>\<open>core/node/config.go\<close>: the record the node reads from JSON and the
  validation that fills in the defaults. The struct declares two fields named \<^verbatim>\<open>Node\<close>; the
  second, of type \<^verbatim>\<open>NodeRoleConfig\<close>, is \<open>cfg_NodeRole\<close> here. A \<^verbatim>\<open>float64\<close> is the rational
  number it stands for.
\<close>

section \<open>The configuration record\<close>

record finality_validator =
  fv_Name :: string
  fv_PubkeyHex :: string
  fv_Weight :: int

record finality_config =
  fin_Enabled :: bool
  fin_CheckpointInterval :: u64
  fin_ThresholdNum :: int
  fin_ThresholdDen :: int
  fin_Validators :: "finality_validator list"
  fin_Peers :: "string list"
  fin_GossipIntervalSeconds :: int

record sync_config =
  sy_Enabled :: bool
  sy_Peers :: "string list"
  sy_IntervalSeconds :: int
  sy_MaxBlocksPerRound :: int

record pop_config =
  pop_EpochBlocks :: u64
  pop_MinPayout :: u64

record mempool_config =
  mp_MaxTxsPerSender :: int
  mp_MaxTxs :: int
  mp_MaxBytes :: int
  mp_TxTTLSeconds :: int
  mp_AllowFutureNonces :: bool
  mp_MaxNonceGap :: u64
  mp_RBFMinFeeBump :: rat

record issuance_config =
  is_Enabled :: bool
  is_BlockReward :: int
  is_RewardAsset :: string
  is_CoinbaseTo :: string

record validation_config =
  va_ValidateForkState :: bool
  va_MaxReplayBlocks :: u64

record limits_config =
  li_MaxBlockBytes :: int
  li_MaxBlockTxs :: int
  li_MaxTxOutputs :: int

record node_role_config =
  nr_Role :: string
  nr_ReadOnly :: bool
  nr_AllowPublicSubmit :: bool

record state_config =
  st_SnapshotInterval :: u64
  st_SnapshotDir :: string
  st_SnapshotFormat :: string

record gossip_config =
  go_Enabled :: bool
  go_Peers :: "string list"
  go_TimeoutSeconds :: int
  go_MaxHops :: int

record p2p_config =
  p2_Enabled :: bool
  p2_Bind :: string
  p2_Port :: int
  p2_Allowlist :: "string list"

record fees_config =
  fc_GasAsset :: string
  fc_BaseFeeMin :: int
  fc_PerByte :: int
  fc_OTAPMultiplier :: int
  fc_Mode :: string

record config =
  cfg_NodeName :: string
  cfg_RuntimeRoot :: string
  cfg_LogFile :: string
  cfg_LevelDBPath :: string
  cfg_KeyvaultPath :: string
  cfg_KEKEnv :: string
  cfg_RotationDays :: int
  cfg_RPCBind :: string
  cfg_RPCPort :: int
  cfg_GenesisFile :: string
  cfg_Finality :: finality_config
  cfg_Sync :: sync_config
  cfg_Fees :: fees_config
  cfg_PoP :: pop_config
  cfg_Mempool :: mempool_config
  cfg_Issuance :: issuance_config
  cfg_P2P :: p2p_config
  cfg_Gossip :: gossip_config
  cfg_State :: state_config
  cfg_NodeRole :: node_role_config
  cfg_ValidatorSource :: string
  cfg_Limits :: limits_config
  cfg_Validation :: validation_config

section \<open>Validation and defaults\<close>

text \<open>The value of the \<^verbatim>\<open>float64\<close> literal \<^verbatim>\<open>1.10\<close>.\<close>

definition float_1_10 :: rat where
  "float_1_10 = 2476979795053773 / 2251799813685248"

definition default_finality :: "finality_config \<Rightarrow> finality_config" where
  "default_finality f =
     (let f = (if fin_CheckpointInterval f = 0 then f\<lparr>fin_CheckpointInterval := 20\<rparr> else f);
          f = (if fin_ThresholdNum f = 0 then f\<lparr>fin_ThresholdNum := 2\<rparr> else f);
          f = (if fin_ThresholdDen f = 0 then f\<lparr>fin_ThresholdDen := 3\<rparr> else f)
      in if fin_GossipIntervalSeconds f \<le> 0 then f\<lparr>fin_GossipIntervalSeconds := 3\<rparr> else f)"

definition default_sync :: "sync_config \<Rightarrow> sync_config" where
  "default_sync s =
     (let s = (if sy_IntervalSeconds s \<le> 0 then s\<lparr>sy_IntervalSeconds := 3\<rparr> else s)
      in if sy_MaxBlocksPerRound s \<le> 0 then s\<lparr>sy_MaxBlocksPerRound := 50\<rparr> else s)"

definition default_fees :: "fees_config \<Rightarrow> fees_config" where
  "default_fees f =
     (let f = (if fc_GasAsset f = [] then f\<lparr>fc_GasAsset := ''USDR''\<rparr> else f);
          f = (if fc_BaseFeeMin f \<le> 0 then f\<lparr>fc_BaseFeeMin := 100\<rparr> else f);
          f = (if fc_PerByte f \<le> 0 then f\<lparr>fc_PerByte := 2\<rparr> else f);
          f = (if fc_OTAPMultiplier f \<le> 0 then f\<lparr>fc_OTAPMultiplier := 10\<rparr> else f)
      in if fc_Mode f = [] then f\<lparr>fc_Mode := ''NORMAL''\<rparr> else f)"

definition default_pop :: "pop_config \<Rightarrow> pop_config" where
  "default_pop p =
     (let p = (if pop_EpochBlocks p = 0 then p\<lparr>pop_EpochBlocks := 50\<rparr> else p)
      in if pop_MinPayout p = 0 then p\<lparr>pop_MinPayout := 100\<rparr> else p)"

definition default_mempool :: "mempool_config \<Rightarrow> mempool_config" where
  "default_mempool m =
     (let m = (if mp_MaxTxs m \<le> 0 then m\<lparr>mp_MaxTxs := 5000\<rparr> else m);
          m = (if mp_MaxBytes m \<le> 0 then m\<lparr>mp_MaxBytes := 8000000\<rparr> else m);
          m = (if mp_TxTTLSeconds m \<le> 0 then m\<lparr>mp_TxTTLSeconds := 1800\<rparr> else m);
          m = (if mp_MaxNonceGap m = 0 then m\<lparr>mp_MaxNonceGap := 50\<rparr> else m)
      in if mp_RBFMinFeeBump m \<le> 0 then m\<lparr>mp_RBFMinFeeBump := float_1_10\<rparr> else m)"

definition default_issuance :: "issuance_config \<Rightarrow> issuance_config" where
  "default_issuance i =
     (let i = (if is_RewardAsset i = [] then i\<lparr>is_RewardAsset := ''USDR''\<rparr> else i);
          i = (if is_BlockReward i = 0 then i\<lparr>is_BlockReward := 5000\<rparr> else i)
      in if is_CoinbaseTo i = [] then i\<lparr>is_CoinbaseTo := ''miner:local''\<rparr> else i)"

definition default_p2p :: "p2p_config \<Rightarrow> p2p_config" where
  "default_p2p p =
     (let p = (if p2_Bind p = [] then p\<lparr>p2_Bind := ''0.0.0.0''\<rparr> else p)
      in if p2_Port p = 0 then p\<lparr>p2_Port := 18444\<rparr> else p)"

definition default_gossip :: "gossip_config \<Rightarrow> gossip_config" where
  "default_gossip g =
     (let g = (if go_TimeoutSeconds g \<le> 0 then g\<lparr>go_TimeoutSeconds := 3\<rparr> else g)
      in if go_MaxHops g \<le> 0 then g\<lparr>go_MaxHops := 1\<rparr> else g)"

definition default_state :: "state_config \<Rightarrow> state_config" where
  "default_state s =
     (let s = (if st_SnapshotInterval s = 0 then s\<lparr>st_SnapshotInterval := 200\<rparr> else s);
          s = (if st_SnapshotDir s = [] then s\<lparr>st_SnapshotDir := ''runtime/snapshots''\<rparr> else s)
      in if st_SnapshotFormat s = [] then s\<lparr>st_SnapshotFormat := ''json''\<rparr> else s)"

definition default_limits :: "limits_config \<Rightarrow> limits_config" where
  "default_limits l =
     (let l = (if li_MaxBlockBytes l = 0 then l\<lparr>li_MaxBlockBytes := 1000000\<rparr> else l);
          l = (if li_MaxBlockTxs l = 0 then l\<lparr>li_MaxBlockTxs := 5000\<rparr> else l)
      in if li_MaxTxOutputs l = 0 then l\<lparr>li_MaxTxOutputs := 256\<rparr> else l)"

text \<open>
  \<^verbatim>\<open>Validate\<close> works on the configuration behind a pointer: on an early return the fields set
  so far stay set.
\<close>

definition fill_keyvault :: "config \<Rightarrow> config" where
  "fill_keyvault c =
     (let c = (if cfg_KEKEnv c = [] then c\<lparr>cfg_KEKEnv := ''RESERVEOS_KEYMASTER''\<rparr> else c)
      in if cfg_RotationDays c = 0 then c\<lparr>cfg_RotationDays := 5\<rparr> else c)"

definition fill_rpc :: "config \<Rightarrow> config" where
  "fill_rpc c = (if cfg_RPCBind c = [] then c\<lparr>cfg_RPCBind := ''127.0.0.1''\<rparr> else c)"

definition default_role :: "node_role_config \<Rightarrow> node_role_config" where
  "default_role r = (if nr_Role r = [] then r\<lparr>nr_Role := ''developer''\<rparr> else r)"

definition default_source :: "string \<Rightarrow> string" where
  "default_source s = (if s = [] then ''registry'' else s)"

definition default_validation :: "validation_config \<Rightarrow> validation_config" where
  "default_validation v = (if va_MaxReplayBlocks v = 0 then v\<lparr>va_MaxReplayBlocks := 2000\<rparr> else v)"

text \<open>The groups are independent of each other, so their defaults are one record update.\<close>

definition fill_groups :: "config \<Rightarrow> config" where
  "fill_groups c = c\<lparr>
     cfg_Finality := default_finality (cfg_Finality c),
     cfg_Sync := default_sync (cfg_Sync c),
     cfg_Fees := default_fees (cfg_Fees c),
     cfg_PoP := default_pop (cfg_PoP c),
     cfg_Mempool := default_mempool (cfg_Mempool c),
     cfg_Issuance := default_issuance (cfg_Issuance c),
     cfg_P2P := default_p2p (cfg_P2P c),
     cfg_Gossip := default_gossip (cfg_Gossip c),
     cfg_State := default_state (cfg_State c),
     cfg_NodeRole := default_role (cfg_NodeRole c),
     cfg_Limits := default_limits (cfg_Limits c),
     cfg_ValidatorSource := default_source (cfg_ValidatorSource c),
     cfg_Validation := default_validation (cfg_Validation c)\<rparr>"

definition Config_Validate :: "config \<Rightarrow> err \<times> config" where
  "Config_Validate c =
     (if cfg_LevelDBPath c = [] then (Some (Err ''storage.leveldb_path required''), c)
      else if cfg_KeyvaultPath c = [] then (Some (Err ''keyvault.path required''), c)
      else let c = fill_keyvault c
           in if cfg_RPCPort c = 0 then (Some (Err ''rpc.port required''), c)
              else let c = fill_rpc c
                   in if cfg_GenesisFile c = [] then (Some (Err ''chain.genesis_file required''), c)
                      else (None, fill_groups c))"

section \<open>Properties\<close>

text \<open>What the rest of the node relies on: intervals, caps and thresholds that are not zero.\<close>

definition cfg_ok :: "config \<Rightarrow> bool" where
  "cfg_ok c \<longleftrightarrow>
     cfg_LevelDBPath c \<noteq> [] \<and> cfg_KeyvaultPath c \<noteq> [] \<and> cfg_KEKEnv c \<noteq> [] \<and> cfg_RotationDays c \<noteq> 0 \<and>
     cfg_RPCPort c \<noteq> 0 \<and> cfg_RPCBind c \<noteq> [] \<and> cfg_GenesisFile c \<noteq> [] \<and>
     fin_CheckpointInterval (cfg_Finality c) \<noteq> 0 \<and> fin_ThresholdNum (cfg_Finality c) \<noteq> 0 \<and>
     fin_ThresholdDen (cfg_Finality c) \<noteq> 0 \<and> fin_GossipIntervalSeconds (cfg_Finality c) > 0 \<and>
     sy_IntervalSeconds (cfg_Sync c) > 0 \<and> sy_MaxBlocksPerRound (cfg_Sync c) > 0 \<and>
     fc_GasAsset (cfg_Fees c) \<noteq> [] \<and> fc_BaseFeeMin (cfg_Fees c) > 0 \<and> fc_PerByte (cfg_Fees c) > 0 \<and>
     fc_OTAPMultiplier (cfg_Fees c) > 0 \<and> fc_Mode (cfg_Fees c) \<noteq> [] \<and>
     pop_EpochBlocks (cfg_PoP c) \<noteq> 0 \<and> pop_MinPayout (cfg_PoP c) \<noteq> 0 \<and>
     mp_MaxTxs (cfg_Mempool c) > 0 \<and> mp_MaxBytes (cfg_Mempool c) > 0 \<and> mp_TxTTLSeconds (cfg_Mempool c) > 0 \<and>
     mp_MaxNonceGap (cfg_Mempool c) \<noteq> 0 \<and> mp_RBFMinFeeBump (cfg_Mempool c) > 0 \<and>
     is_RewardAsset (cfg_Issuance c) \<noteq> [] \<and> is_BlockReward (cfg_Issuance c) \<noteq> 0 \<and>
     is_CoinbaseTo (cfg_Issuance c) \<noteq> [] \<and> p2_Bind (cfg_P2P c) \<noteq> [] \<and> p2_Port (cfg_P2P c) \<noteq> 0 \<and>
     go_TimeoutSeconds (cfg_Gossip c) > 0 \<and> go_MaxHops (cfg_Gossip c) > 0 \<and>
     st_SnapshotInterval (cfg_State c) \<noteq> 0 \<and> st_SnapshotDir (cfg_State c) \<noteq> [] \<and>
     st_SnapshotFormat (cfg_State c) \<noteq> [] \<and> nr_Role (cfg_NodeRole c) \<noteq> [] \<and>
     li_MaxBlockBytes (cfg_Limits c) \<noteq> 0 \<and> li_MaxBlockTxs (cfg_Limits c) \<noteq> 0 \<and>
     li_MaxTxOutputs (cfg_Limits c) \<noteq> 0 \<and> cfg_ValidatorSource c \<noteq> [] \<and>
     va_MaxReplayBlocks (cfg_Validation c) \<noteq> 0"

lemma default_ok:
  "fin_CheckpointInterval (default_finality f) \<noteq> 0 \<and> fin_ThresholdNum (default_finality f) \<noteq> 0 \<and>
   fin_ThresholdDen (default_finality f) \<noteq> 0 \<and> fin_GossipIntervalSeconds (default_finality f) > 0"
  "sy_IntervalSeconds (default_sync s) > 0 \<and> sy_MaxBlocksPerRound (default_sync s) > 0"
  "fc_GasAsset (default_fees g) \<noteq> [] \<and> fc_BaseFeeMin (default_fees g) > 0 \<and> fc_PerByte (default_fees g) > 0 \<and>
   fc_OTAPMultiplier (default_fees g) > 0 \<and> fc_Mode (default_fees g) \<noteq> []"
  "pop_EpochBlocks (default_pop p) \<noteq> 0 \<and> pop_MinPayout (default_pop p) \<noteq> 0"
  "mp_MaxTxs (default_mempool m) > 0 \<and> mp_MaxBytes (default_mempool m) > 0 \<and> mp_TxTTLSeconds (default_mempool m) > 0 \<and>
   mp_MaxNonceGap (default_mempool m) \<noteq> 0 \<and> mp_RBFMinFeeBump (default_mempool m) > 0"
  "is_RewardAsset (default_issuance i) \<noteq> [] \<and> is_BlockReward (default_issuance i) \<noteq> 0 \<and>
   is_CoinbaseTo (default_issuance i) \<noteq> []"
  "p2_Bind (default_p2p q) \<noteq> [] \<and> p2_Port (default_p2p q) \<noteq> 0"
  "go_TimeoutSeconds (default_gossip h) > 0 \<and> go_MaxHops (default_gossip h) > 0"
  "st_SnapshotInterval (default_state t) \<noteq> 0 \<and> st_SnapshotDir (default_state t) \<noteq> [] \<and> st_SnapshotFormat (default_state t) \<noteq> []"
  "li_MaxBlockBytes (default_limits l) \<noteq> 0 \<and> li_MaxBlockTxs (default_limits l) \<noteq> 0 \<and> li_MaxTxOutputs (default_limits l) \<noteq> 0"
  by (auto simp: default_finality_def default_sync_def default_fees_def default_pop_def default_mempool_def
      default_issuance_def default_p2p_def default_gossip_def default_state_def default_limits_def Let_def
      float_1_10_def)

text \<open>A group that is already in order is left as it is.\<close>

lemma default_id:
  "fin_CheckpointInterval f \<noteq> 0 \<Longrightarrow> fin_ThresholdNum f \<noteq> 0 \<Longrightarrow> fin_ThresholdDen f \<noteq> 0 \<Longrightarrow>
     fin_GossipIntervalSeconds f > 0 \<Longrightarrow> default_finality f = f"
  "sy_IntervalSeconds s > 0 \<Longrightarrow> sy_MaxBlocksPerRound s > 0 \<Longrightarrow> default_sync s = s"
  "fc_GasAsset g \<noteq> [] \<Longrightarrow> fc_BaseFeeMin g > 0 \<Longrightarrow> fc_PerByte g > 0 \<Longrightarrow> fc_OTAPMultiplier g > 0 \<Longrightarrow>
     fc_Mode g \<noteq> [] \<Longrightarrow> default_fees g = g"
  "pop_EpochBlocks p \<noteq> 0 \<Longrightarrow> pop_MinPayout p \<noteq> 0 \<Longrightarrow> default_pop p = p"
  "mp_MaxTxs m > 0 \<Longrightarrow> mp_MaxBytes m > 0 \<Longrightarrow> mp_TxTTLSeconds m > 0 \<Longrightarrow> mp_MaxNonceGap m \<noteq> 0 \<Longrightarrow>
     mp_RBFMinFeeBump m > 0 \<Longrightarrow> default_mempool m = m"
  "is_RewardAsset i \<noteq> [] \<Longrightarrow> is_BlockReward i \<noteq> 0 \<Longrightarrow> is_CoinbaseTo i \<noteq> [] \<Longrightarrow> default_issuance i = i"
  "p2_Bind q \<noteq> [] \<Longrightarrow> p2_Port q \<noteq> 0 \<Longrightarrow> default_p2p q = q"
  "go_TimeoutSeconds h > 0 \<Longrightarrow> go_MaxHops h > 0 \<Longrightarrow> default_gossip h = h"
  "st_SnapshotInterval t \<noteq> 0 \<Longrightarrow> st_SnapshotDir t \<noteq> [] \<Longrightarrow> st_SnapshotFormat t \<noteq> [] \<Longrightarrow> default_state t = t"
  "li_MaxBlockBytes l \<noteq> 0 \<Longrightarrow> li_MaxBlockTxs l \<noteq> 0 \<Longrightarrow> li_MaxTxOutputs l \<noteq> 0 \<Longrightarrow> default_limits l = l"
  by (simp_all add: default_finality_def default_sync_def default_fees_def default_pop_def default_mempool_def
      default_issuance_def default_p2p_def default_gossip_def default_state_def default_limits_def Let_def)

lemma default_misc:
  "nr_Role (default_role r) \<noteq> []" "default_source s \<noteq> []" "va_MaxReplayBlocks (default_validation v) \<noteq> 0"
  "nr_Role r \<noteq> [] \<Longrightarrow> default_role r = r" "s \<noteq> [] \<Longrightarrow> default_source s = s"
  "va_MaxReplayBlocks v \<noteq> 0 \<Longrightarrow> default_validation v = v"
  by (simp_all add: default_role_def default_source_def default_validation_def)

lemma fill_keyvault_sel:
  "cfg_LevelDBPath (fill_keyvault c) = cfg_LevelDBPath c" "cfg_KeyvaultPath (fill_keyvault c) = cfg_KeyvaultPath c"
  "cfg_RPCPort (fill_keyvault c) = cfg_RPCPort c" "cfg_GenesisFile (fill_keyvault c) = cfg_GenesisFile c"
  "cfg_KEKEnv (fill_keyvault c) \<noteq> []" "cfg_RotationDays (fill_keyvault c) \<noteq> 0"
  by (simp_all add: fill_keyvault_def Let_def)

lemma fill_rpc_sel:
  "cfg_LevelDBPath (fill_rpc c) = cfg_LevelDBPath c" "cfg_KeyvaultPath (fill_rpc c) = cfg_KeyvaultPath c"
  "cfg_RPCPort (fill_rpc c) = cfg_RPCPort c" "cfg_GenesisFile (fill_rpc c) = cfg_GenesisFile c"
  "cfg_KEKEnv (fill_rpc c) = cfg_KEKEnv c" "cfg_RotationDays (fill_rpc c) = cfg_RotationDays c"
  "cfg_RPCBind (fill_rpc c) \<noteq> []"
  by (simp_all add: fill_rpc_def)

lemma Config_Validate_id: "cfg_ok c \<Longrightarrow> Config_Validate c = (None, c)"
  by (simp add: cfg_ok_def Config_Validate_def fill_keyvault_def fill_rpc_def fill_groups_def Let_def
      default_id default_misc)

lemma Config_Validate_ok:
  assumes "Config_Validate c = (None, c')" shows "cfg_ok c'"
proof -
  let ?c = "fill_rpc (fill_keyvault c)"
  have c: "cfg_LevelDBPath c \<noteq> []" "cfg_KeyvaultPath c \<noteq> []" "cfg_RPCPort c \<noteq> 0" "cfg_GenesisFile c \<noteq> []"
    "c' = fill_groups ?c"
    using assms by (auto simp: Config_Validate_def Let_def fill_keyvault_sel fill_rpc_sel split: if_splits)
  show ?thesis
    unfolding cfg_ok_def c(5) fill_groups_def Let_def
    by (simp add: default_ok default_misc fill_keyvault_sel fill_rpc_sel c(1-4))
qed

text \<open>
  A configuration that passes validation has all required fields and the defaults that \<open>cfg_ok\<close> lists
  (the cap of transactions per sender has none); and validating it again changes nothing.
\<close>

theorem Config_Validate_establishes:
  assumes "Config_Validate c = (None, c')"
  shows "cfg_ok c' \<and> Config_Validate c' = (None, c')"
  using Config_Validate_ok [OF assms] Config_Validate_id by blast

definition sample_config :: config where
  "sample_config = \<lparr>cfg_NodeName = ''n'', cfg_RuntimeRoot = [], cfg_LogFile = [], cfg_LevelDBPath = ''db'',
     cfg_KeyvaultPath = ''kv'', cfg_KEKEnv = [], cfg_RotationDays = 0, cfg_RPCBind = [], cfg_RPCPort = 8080,
     cfg_GenesisFile = ''genesis.json'',
     cfg_Finality = \<lparr>fin_Enabled = True, fin_CheckpointInterval = 10, fin_ThresholdNum = 2, fin_ThresholdDen = 3,
       fin_Validators = [], fin_Peers = [], fin_GossipIntervalSeconds = 0\<rparr>,
     cfg_Sync = \<lparr>sy_Enabled = False, sy_Peers = [], sy_IntervalSeconds = 0, sy_MaxBlocksPerRound = 0\<rparr>,
     cfg_Fees = \<lparr>fc_GasAsset = ''USDR'', fc_BaseFeeMin = 1, fc_PerByte = 1, fc_OTAPMultiplier = 1, fc_Mode = ''NORMAL''\<rparr>,
     cfg_PoP = \<lparr>pop_EpochBlocks = 0, pop_MinPayout = 0\<rparr>,
     cfg_Mempool = \<lparr>mp_MaxTxsPerSender = 0, mp_MaxTxs = 0, mp_MaxBytes = 0, mp_TxTTLSeconds = 0,
       mp_AllowFutureNonces = False, mp_MaxNonceGap = 0, mp_RBFMinFeeBump = 0\<rparr>,
     cfg_Issuance = \<lparr>is_Enabled = False, is_BlockReward = 0, is_RewardAsset = [], is_CoinbaseTo = []\<rparr>,
     cfg_P2P = \<lparr>p2_Enabled = False, p2_Bind = [], p2_Port = 0, p2_Allowlist = []\<rparr>,
     cfg_Gossip = \<lparr>go_Enabled = False, go_Peers = [], go_TimeoutSeconds = 0, go_MaxHops = 0\<rparr>,
     cfg_State = \<lparr>st_SnapshotInterval = 0, st_SnapshotDir = [], st_SnapshotFormat = []\<rparr>,
     cfg_NodeRole = \<lparr>nr_Role = [], nr_ReadOnly = False, nr_AllowPublicSubmit = False\<rparr>,
     cfg_ValidatorSource = [], cfg_Limits = \<lparr>li_MaxBlockBytes = 0, li_MaxBlockTxs = 0, li_MaxTxOutputs = 0\<rparr>,
     cfg_Validation = \<lparr>va_ValidateForkState = False, va_MaxReplayBlocks = 0\<rparr>\<rparr>"

theorem Config_Validate_establishes_witness:
  "\<exists>c. Config_Validate sample_config = (None, c) \<and> Config_Validate c = (None, c) \<and>
     fin_GossipIntervalSeconds (cfg_Finality c) = 3 \<and> st_SnapshotDir (cfg_State c) = ''runtime/snapshots''"
proof -
  obtain c where c: "Config_Validate sample_config = (None, c)"
    and d: "fin_GossipIntervalSeconds (cfg_Finality c) = 3" "st_SnapshotDir (cfg_State c) = ''runtime/snapshots''"
    by (simp add: Config_Validate_def fill_keyvault_def fill_rpc_def fill_groups_def sample_config_def default_finality_def default_state_def Let_def)
  from Config_Validate_establishes [OF c] c d show ?thesis by blast
qed

end
