(* ===== verification/LevelDB.thy ===== *)
theory LevelDB
  imports Prelude "HOL-Library.List_Lexorder" "HOL-Library.AList" "HOL-Library.Multiset"
begin

text \<open>
  The database the node stores everything in. \<^verbatim>\<open>github.com/syndtr/goleveldb\<close> is a third-party
  package: its calls are the fields of the record \<open>leveldb\<close>, an argument of every definition that
  uses the database. \<open>ldb_laws L V\<close> is what its documentation promises of a healthy store, in terms
  of the map \<open>V d\<close> from keys to values that a store \<open>d\<close> holds. \<open>alist_db\<close> is an instance, with
  which statements about a healthy store are evaluated.
\<close>

section \<open>The interface\<close>

datatype batch_op = BatchPut bytes bytes | BatchDelete bytes

record 'd leveldb =
  ldb_Get :: "'d \<Rightarrow> bytes \<Rightarrow> error + bytes"
  ldb_Put :: "'d \<Rightarrow> bytes \<Rightarrow> bytes \<Rightarrow> err \<times> 'd"
  ldb_Delete :: "'d \<Rightarrow> bytes \<Rightarrow> err \<times> 'd"
  ldb_Write :: "'d \<Rightarrow> batch_op list \<Rightarrow> err \<times> 'd"
  ldb_Iter :: "'d \<Rightarrow> bytes \<Rightarrow> (bytes \<times> bytes) list \<times> err"

text \<open>
  \<open>ldb_Iter d p\<close> is \<^verbatim>\<open>db.NewIterator(util.BytesPrefix(p), nil)\<close> run to its end: the entries
  that \<^verbatim>\<open>it.Next()\<close> visits, on a snapshot of the store, and the final \<^verbatim>\<open>it.Error()\<close>.
\<close>

fun batch_apply :: "batch_op \<Rightarrow> (bytes \<rightharpoonup> bytes) \<Rightarrow> (bytes \<rightharpoonup> bytes)" where
  "batch_apply (BatchPut k v) m = m(k \<mapsto> v)"
| "batch_apply (BatchDelete k) m = m(k := None)"

definition ldb_laws :: "'d leveldb \<Rightarrow> ('d \<Rightarrow> bytes \<rightharpoonup> bytes) \<Rightarrow> bool" where
  "ldb_laws L V \<longleftrightarrow>
     (\<forall>d k. ldb_Get L d k = (case V d k of None \<Rightarrow> Inl ErrNotFound | Some v \<Rightarrow> Inr v)) \<and>
     (\<forall>d k v. fst (ldb_Put L d k v) = None \<and> V (snd (ldb_Put L d k v)) = (V d)(k \<mapsto> v)) \<and>
     (\<forall>d k. fst (ldb_Delete L d k) = None \<and> V (snd (ldb_Delete L d k)) = (V d)(k := None)) \<and>
     (\<forall>d ops. fst (ldb_Write L d ops) = None \<and> V (snd (ldb_Write L d ops)) = fold batch_apply ops (V d)) \<and>
     (\<forall>d p. snd (ldb_Iter L d p) = None \<and> sorted (map fst (fst (ldb_Iter L d p))) \<and>
            distinct (map fst (fst (ldb_Iter L d p))) \<and>
            set (fst (ldb_Iter L d p)) = {(k, v). V d k = Some v \<and> prefix p k})"

lemma ldb_lawsD:
  assumes "ldb_laws L V"
  shows ldb_Get_eq: "ldb_Get L d k = (case V d k of None \<Rightarrow> Inl ErrNotFound | Some v \<Rightarrow> Inr v)"
    and ldb_Put_ok: "fst (ldb_Put L d k v) = None"
    and ldb_Put_view: "V (snd (ldb_Put L d k v)) = (V d)(k \<mapsto> v)"
    and ldb_Delete_ok: "fst (ldb_Delete L d k) = None"
    and ldb_Delete_view: "V (snd (ldb_Delete L d k)) = (V d)(k := None)"
    and ldb_Write_ok: "fst (ldb_Write L d ops) = None"
    and ldb_Write_view: "V (snd (ldb_Write L d ops)) = fold batch_apply ops (V d)"
    and ldb_Iter_ok: "snd (ldb_Iter L d p) = None"
    and ldb_Iter_sorted: "sorted (map fst (fst (ldb_Iter L d p)))"
    and ldb_Iter_distinct: "distinct (map fst (fst (ldb_Iter L d p)))"
    and ldb_Iter_set: "set (fst (ldb_Iter L d p)) = {(k, v). V d k = Some v \<and> prefix p k}"
  using assms unfolding ldb_laws_def by simp_all

text \<open>What the iterator yields, as a map.\<close>

lemma ldb_Iter_map_of:
  assumes "ldb_laws L V"
  shows "map_of (fst (ldb_Iter L d p)) k = (if prefix p k then V d k else None)"
proof (cases "prefix p k \<and> V d k \<noteq> None")
  case True
  then obtain v where v: "V d k = Some v" by auto
  then have "(k, v) \<in> set (fst (ldb_Iter L d p))" using True by (simp add: ldb_Iter_set [OF assms])
  then have "map_of (fst (ldb_Iter L d p)) k = Some v"
    using ldb_Iter_distinct [OF assms] by (simp add: map_of_eq_Some_iff)
  then show ?thesis using True v by simp
next
  case False
  have "map_of (fst (ldb_Iter L d p)) k = None"
    using False by (auto simp: map_of_eq_None_iff ldb_Iter_set [OF assms])
  then show ?thesis using False by auto
qed

text \<open>The entries an iterator yields depend on the keys under its prefix only.\<close>

lemma ldb_Iter_cong:
  assumes laws: "ldb_laws L V" and eq: "\<And>k. prefix p k \<Longrightarrow> V d k = V d' k"
  shows "ldb_Iter L d p = ldb_Iter L d' p"
proof -
  let ?xs = "fst (ldb_Iter L d p)" and ?ys = "fst (ldb_Iter L d' p)"
  have set: "set ?xs = set ?ys" using eq by (auto simp: ldb_Iter_set [OF laws])
  then have "set (map fst ?xs) = set (map fst ?ys)" by simp
  then have keys: "map fst ?xs = map fst ?ys"
    by (intro sorted_distinct_set_unique ldb_Iter_sorted [OF laws] ldb_Iter_distinct [OF laws])
  have "inj_on fst (set ?xs \<union> set ?ys)"
    unfolding set by (auto simp: ldb_Iter_set [OF laws] intro!: inj_onI)
  with keys have "?xs = ?ys" by (rule inj_on_map_eq_map [THEN iffD1, rotated])
  then show ?thesis
    using ldb_Iter_ok [OF laws, of d p] ldb_Iter_ok [OF laws, of d' p] by (simp only: prod_eq_iff)
qed

section \<open>A store as an association list\<close>

definition alist_put :: "(bytes \<times> bytes) list \<Rightarrow> bytes \<Rightarrow> bytes \<Rightarrow> (bytes \<times> bytes) list" where
  "alist_put d k v = AList.update k v d"

definition alist_delete :: "(bytes \<times> bytes) list \<Rightarrow> bytes \<Rightarrow> (bytes \<times> bytes) list" where
  "alist_delete d k = AList.delete k d"

fun alist_batch :: "batch_op \<Rightarrow> (bytes \<times> bytes) list \<Rightarrow> (bytes \<times> bytes) list" where
  "alist_batch (BatchPut k v) d = alist_put d k v"
| "alist_batch (BatchDelete k) d = alist_delete d k"

definition alist_db :: "(bytes \<times> bytes) list leveldb" where
  "alist_db = \<lparr>
     ldb_Get = (\<lambda>d k. case map_of d k of None \<Rightarrow> Inl ErrNotFound | Some v \<Rightarrow> Inr v),
     ldb_Put = (\<lambda>d k v. (None, alist_put d k v)),
     ldb_Delete = (\<lambda>d k. (None, alist_delete d k)),
     ldb_Write = (\<lambda>d ops. (None, fold alist_batch ops d)),
     ldb_Iter = (\<lambda>d p. (sort_key fst (filter (\<lambda>(k, v). prefix p k) (AList.clearjunk d)), None))\<rparr>"

lemma map_of_alist_batch: "map_of (fold alist_batch ops d) = fold batch_apply ops (map_of d)"
proof (induction ops arbitrary: d)
  case (Cons op ops)
  have "map_of (alist_batch op d) = batch_apply op (map_of d)"
    by (cases op) (simp_all add: alist_put_def alist_delete_def update_conv' delete_conv' fun_upd_def)
  with Cons show ?case by simp
qed simp

lemma distinct_filter_clearjunk:
  "distinct (map fst (filter (\<lambda>(k, v). prefix p k) (AList.clearjunk d)))"
  by (rule distinct_map_filter) (rule distinct_clearjunk)

lemma set_clearjunk_iff: "(k, v) \<in> set (AList.clearjunk d) \<longleftrightarrow> map_of d k = Some v"
  using map_of_eq_Some_iff [OF distinct_clearjunk [of d], of k v] by (simp add: map_of_clearjunk)

text \<open>The association list is a healthy store.\<close>

lemma alist_db_laws: "ldb_laws alist_db map_of"
proof -
  have d: "distinct (map fst (sort_key fst (filter (\<lambda>(k, v). prefix p k) (AList.clearjunk d))))"
    for p and d :: "(bytes \<times> bytes) list"
  proof -
    have "mset (map fst (sort_key fst (filter (\<lambda>(k, v). prefix p k) (AList.clearjunk d))))
        = mset (map fst (filter (\<lambda>(k, v). prefix p k) (AList.clearjunk d)))"
      by simp
    then show ?thesis using distinct_filter_clearjunk mset_eq_imp_distinct_iff by blast
  qed
  show ?thesis
    unfolding ldb_laws_def alist_db_def
    by (auto simp: set_clearjunk_iff d map_of_alist_batch alist_put_def alist_delete_def update_conv' delete_conv'
        fun_upd_def split: option.split)
qed

end
