(* ===== verification/Accounts.thy ===== *)
theory Accounts
  imports LevelDB
begin

text \<open>
  The account state: balances and nonces in the database (\<^verbatim>\<open>core/state/state.go\<close>, with the
  second definitions of \<^verbatim>\<open>core/state/balances.go\<close>), the export, import and restoration of
  the state maps (\<^verbatim>\<open>snapshot.go\<close>, \<^verbatim>\<open>snapshot_bin.go\<close>,
  \<^verbatim>\<open>internal/reservestorage/state_import.go\<close>).
\<close>

section \<open>Balances and nonces: \<^verbatim>\<open>state.go\<close>\<close>

fun errors_Is :: "error \<Rightarrow> error \<Rightarrow> bool" where
  "errors_Is (Wrap m e) target = (Wrap m e = target \<or> errors_Is e target)"
| "errors_Is e target = (e = target)"

definition keyBal :: "string \<Rightarrow> bytes" where
  "keyBal acct = ''bal:'' @ acct"

definition keyNonce :: "string \<Rightarrow> bytes" where
  "keyNonce acct = ''nonce:'' @ acct"

text \<open>
  \<open>None\<close> is the panic of \<^verbatim>\<open>binary.BigEndian.Uint64\<close> on a stored value of fewer than eight bytes.
\<close>

definition GetBalance :: "'d leveldb \<Rightarrow> 'd \<Rightarrow> string \<Rightarrow> (int \<times> bool \<times> err) option" where
  "GetBalance L d acct =
     (case ldb_Get L d (keyBal acct) of
        Inr b \<Rightarrow> do { v \<leftarrow> Uint64 b; Some (int_of_u64 v, True, None) }
      | Inl e \<Rightarrow> if errors_Is e ErrNotFound then Some (0, False, None) else Some (0, False, Some e))"

definition SetBalance :: "'d leveldb \<Rightarrow> 'd \<Rightarrow> string \<Rightarrow> int \<Rightarrow> err \<times> 'd" where
  "SetBalance L d acct val =
     (let val = (if val < 0 then 0 else val) in ldb_Put L d (keyBal acct) (PutUint64 (u64_of_int val)))"

definition AddBalance :: "'d leveldb \<Rightarrow> 'd \<Rightarrow> string \<Rightarrow> int \<Rightarrow> (int \<times> err \<times> 'd) option" where
  "AddBalance L d acct delta =
     do { (cur, _, e) \<leftarrow> GetBalance L d acct;
          (case e of
             Some e \<Rightarrow> Some (0, Some e, d)
           | None \<Rightarrow>
               (let next = i64 (cur + delta)
                in if next < 0 then Some (0, Some (Err ''insufficient funds''), d)
                   else (case SetBalance L d acct next of
                           (Some e, d) \<Rightarrow> Some (0, Some e, d)
                         | (None, d) \<Rightarrow> Some (next, None, d)))) }"

text \<open>The variant of \<^verbatim>\<open>balances.go\<close>, which clamps instead of failing.\<close>

definition AddBalance_clamp :: "'d leveldb \<Rightarrow> 'd \<Rightarrow> string \<Rightarrow> int \<Rightarrow> (int \<times> err \<times> 'd) option" where
  "AddBalance_clamp L d acct delta =
     do { (cur, _, e) \<leftarrow> GetBalance L d acct;
          (case e of
             Some e \<Rightarrow> Some (0, Some e, d)
           | None \<Rightarrow>
               (let next = i64 (cur + delta);
                    next = (if next < 0 then 0 else next)
                in (case ldb_Put L d (keyBal acct) (PutUint64 (u64_of_int next)) of
                      (Some e, d) \<Rightarrow> Some (0, Some e, d)
                    | (None, d) \<Rightarrow> Some (next, None, d)))) }"

definition GetNonce :: "'d leveldb \<Rightarrow> 'd \<Rightarrow> string \<Rightarrow> (u64 \<times> bool \<times> err) option" where
  "GetNonce L d acct =
     (case ldb_Get L d (keyNonce acct) of
        Inr b \<Rightarrow> do { v \<leftarrow> Uint64 b; Some (v, True, None) }
      | Inl e \<Rightarrow> if errors_Is e ErrNotFound then Some (0, False, None) else Some (0, False, Some e))"

definition SetNonce :: "'d leveldb \<Rightarrow> 'd \<Rightarrow> string \<Rightarrow> u64 \<Rightarrow> err \<times> 'd" where
  "SetNonce L d acct nonce = ldb_Put L d (keyNonce acct) (PutUint64 nonce)"

definition ResetState :: "'d leveldb \<Rightarrow> 'd \<Rightarrow> err \<times> 'd" where
  "ResetState L d =
     (let batch = map (\<lambda>(k, v). BatchDelete k) (fst (ldb_Iter L d ''bal:''));
          batch = batch @ map (\<lambda>(k, v). BatchDelete k) (fst (ldb_Iter L d ''nonce:''))
      in ldb_Write L d batch)"

section \<open>State maps: \<^verbatim>\<open>snapshot.go\<close>, \<^verbatim>\<open>snapshot_bin.go\<close>, \<^verbatim>\<open>state_import.go\<close>\<close>

record snapshot =
  ss_Version :: int
  ss_Height :: u64
  ss_TipHash :: string
  ss_CreatedUnix :: int
  ss_Balances :: "string \<rightharpoonup> int"
  ss_Nonces :: "string \<rightharpoonup> u64"

definition TrimPrefix :: "string \<Rightarrow> string \<Rightarrow> string" where
  "TrimPrefix s p = (if prefix p s then drop (length p) s else s)"

text \<open>The loop over an iterator that decodes values of exactly eight bytes.\<close>

definition export_entries :: "string \<Rightarrow> (bytes \<times> bytes) list \<Rightarrow> (string \<times> u64) list" where
  "export_entries p ents =
     concat (map (\<lambda>(k, v). if length v = 8 then [(TrimPrefix k p, of_int (be_int v))] else []) ents)"

text \<open>Assigning entry after entry to an empty map.\<close>

definition assign_all :: "('k \<times> 'v) list \<Rightarrow> 'k \<rightharpoonup> 'v" where
  "assign_all xs = foldl (\<lambda>m (k, v). m(k \<mapsto> v)) Map.empty xs"

definition ExportStateMaps ::
  "'d leveldb \<Rightarrow> 'd \<Rightarrow> ((string \<rightharpoonup> int) \<times> (string \<rightharpoonup> u64)) option \<times> err" where
  "ExportStateMaps L d =
     (case ldb_Iter L d ''bal:'' of
        (ents, Some e) \<Rightarrow> (None, Some e)
      | (ents, None) \<Rightarrow>
          (let bal = assign_all (map (\<lambda>(acct, u). (acct, int_of_u64 u)) (export_entries ''bal:'' ents))
           in (case ldb_Iter L d ''nonce:'' of
                 (ents2, Some e) \<Rightarrow> (None, Some e)
               | (ents2, None) \<Rightarrow> (Some (bal, assign_all (export_entries ''nonce:'' ents2)), None))))"

text \<open>
  A Go map is walked in an unspecified order: the orders of the two loops are arguments, lists
  that hold every entry of the map once.
\<close>

definition put_balances :: "'d leveldb \<Rightarrow> (string \<times> int) list \<Rightarrow> 'd \<Rightarrow> 'd" where
  "put_balances L bs d = foldl (\<lambda>d (acct, bal). snd (SetBalance L d acct bal)) d bs"

definition put_nonces :: "'d leveldb \<Rightarrow> (string \<times> u64) list \<Rightarrow> 'd \<Rightarrow> 'd" where
  "put_nonces L ns d = foldl (\<lambda>d (acct, n). snd (SetNonce L d acct n)) d ns"

definition RestoreSnapshot ::
  "'d leveldb \<Rightarrow> 'd \<Rightarrow> (string \<times> int) list \<Rightarrow> (string \<times> u64) list \<Rightarrow> err \<times> 'd" where
  "RestoreSnapshot L d bs ns =
     (case ResetState L d of
        (Some e, d) \<Rightarrow> (Some e, d)
      | (None, d) \<Rightarrow> (None, put_nonces L ns (put_balances L bs d)))"

definition WipePrefix :: "'d leveldb \<Rightarrow> bytes \<Rightarrow> 'd \<Rightarrow> err \<times> 'd" where
  "WipePrefix L pref d =
     (case ldb_Iter L d pref of
        (ents, e) \<Rightarrow> (e, foldl (\<lambda>d (k, v). snd (ldb_Delete L d k)) d ents))"

definition WipeStatePrefixes :: "'d leveldb \<Rightarrow> 'd \<Rightarrow> err \<times> 'd" where
  "WipeStatePrefixes L d =
     (case WipePrefix L ''bal:'' d of
        (Some e, d) \<Rightarrow> (Some e, d)
      | (None, d) \<Rightarrow> WipePrefix L ''nonce:'' d)"

definition ImportStateMaps ::
  "'d leveldb \<Rightarrow> 'd \<Rightarrow> (string \<times> int) list \<Rightarrow> (string \<times> u64) list \<Rightarrow> err \<times> 'd" where
  "ImportStateMaps L d bs ns =
     (let d = foldl (\<lambda>d (k, v). snd (ldb_Put L d (''bal:'' @ k) (PutUint64 (u64_of_int v)))) d bs;
          d = foldl (\<lambda>d (k, v). snd (ldb_Put L d (''nonce:'' @ k) (PutUint64 v))) d ns
      in (None, d))"

section \<open>The accounts a store holds\<close>

definition bal_of :: "(bytes \<rightharpoonup> bytes) \<Rightarrow> string \<Rightarrow> int" where
  "bal_of m a = (case m (keyBal a) of None \<Rightarrow> 0 | Some b \<Rightarrow> int_of_u64 (of_int (be_int b)))"

definition non_of :: "(bytes \<rightharpoonup> bytes) \<Rightarrow> string \<Rightarrow> u64" where
  "non_of m a = (case m (keyNonce a) of None \<Rightarrow> 0 | Some b \<Rightarrow> of_int (be_int b))"

text \<open>Every account entry has eight bytes.\<close>

definition acct_wf :: "(bytes \<rightharpoonup> bytes) \<Rightarrow> bool" where
  "acct_wf m \<longleftrightarrow> (\<forall>a v. (m (keyBal a) = Some v \<longrightarrow> length v = 8) \<and> (m (keyNonce a) = Some v \<longrightarrow> length v = 8))"

lemma keys_neq [simp]:
  "keyBal a \<noteq> keyNonce b" "keyNonce b \<noteq> keyBal a"
  "keyBal a = keyBal b \<longleftrightarrow> a = b" "keyNonce a = keyNonce b \<longleftrightarrow> a = b"
  by (simp_all add: keyBal_def keyNonce_def)

lemma be_int_PutUint64 [simp]: "of_int (be_int (PutUint64 v)) = v"
  using Uint64_PutUint64 [of v] by (simp add: Uint64_def)

lemma bal_of_upd [simp]:
  "bal_of (m(keyBal a \<mapsto> PutUint64 (u64_of_int v))) = (bal_of m)(a := i64 v)"
  "bal_of (m(keyNonce a \<mapsto> w)) = bal_of m"
  by (auto simp: bal_of_def fun_eq_iff)

lemma non_of_upd [simp]:
  "non_of (m(keyNonce a \<mapsto> PutUint64 n)) = (non_of m)(a := n)"
  "non_of (m(keyBal a \<mapsto> w)) = non_of m"
  by (auto simp: non_of_def fun_eq_iff)

lemma acct_wf_upd [simp]:
  "acct_wf m \<Longrightarrow> acct_wf (m(keyBal a \<mapsto> PutUint64 v))"
  "acct_wf m \<Longrightarrow> acct_wf (m(keyNonce a \<mapsto> PutUint64 v))"
  by (auto simp: acct_wf_def)

lemma GetBalance_eq [store_simps]:
  assumes "ldb_laws L V" "acct_wf (V d)"
  shows "GetBalance L d a = Some (bal_of (V d) a, V d (keyBal a) \<noteq> None, None)"
  using assms
  by (auto simp: GetBalance_def ldb_Get_eq [OF assms(1)] bal_of_def Uint64_def acct_wf_def
      split: option.split)

lemma GetNonce_eq [store_simps]:
  assumes "ldb_laws L V" "acct_wf (V d)"
  shows "GetNonce L d a = Some (non_of (V d) a, V d (keyNonce a) \<noteq> None, None)"
  using assms
  by (auto simp: GetNonce_def ldb_Get_eq [OF assms(1)] non_of_def Uint64_def acct_wf_def
      split: option.split)

lemma SetBalance_view [store_simps]:
  assumes "ldb_laws L V"
  shows "fst (SetBalance L d a v) = None"
    "V (snd (SetBalance L d a v)) = (V d)(keyBal a \<mapsto> PutUint64 (u64_of_int (max 0 v)))"
  by (simp_all add: SetBalance_def Let_def ldb_Put_ok [OF assms] ldb_Put_view [OF assms] max_def)

lemma SetNonce_view [store_simps]:
  assumes "ldb_laws L V"
  shows "fst (SetNonce L d a n) = None" "V (snd (SetNonce L d a n)) = (V d)(keyNonce a \<mapsto> PutUint64 n)"
  by (simp_all add: SetNonce_def ldb_Put_ok [OF assms] ldb_Put_view [OF assms])

lemma AddBalance_cases:
  assumes "ldb_laws L V" "acct_wf (V d)"
  shows "i64 (bal_of (V d) a + delta) < 0 \<Longrightarrow>
           AddBalance L d a delta = Some (0, Some (Err ''insufficient funds''), d)"
    "0 \<le> i64 (bal_of (V d) a + delta) \<Longrightarrow>
       \<exists>d'. AddBalance L d a delta = Some (i64 (bal_of (V d) a + delta), None, d') \<and>
            V d' = (V d)(keyBal a \<mapsto> PutUint64 (u64_of_int (i64 (bal_of (V d) a + delta))))"
proof -
  let ?n = "i64 (bal_of (V d) a + delta)"
  show "?n < 0 \<Longrightarrow> AddBalance L d a delta = Some (0, Some (Err ''insufficient funds''), d)"
    by (simp add: AddBalance_def GetBalance_eq [OF assms] Let_def)
  assume n: "0 \<le> ?n"
  obtain d' where d': "SetBalance L d a ?n = (None, d')" "V d' = (V d)(keyBal a \<mapsto> PutUint64 (u64_of_int ?n))"
    using SetBalance_view [OF assms(1), of d a ?n] n by (cases "SetBalance L d a ?n") (auto simp: max_def)
  then show "\<exists>d'. AddBalance L d a delta = Some (?n, None, d') \<and>
      V d' = (V d)(keyBal a \<mapsto> PutUint64 (u64_of_int ?n))"
    using n by (auto simp: AddBalance_def GetBalance_eq [OF assms] Let_def not_less)
qed

lemma AddBalance_clamp_view:
  assumes "ldb_laws L V" "acct_wf (V d)"
  shows "\<exists>d'. AddBalance_clamp L d a delta = Some (max 0 (i64 (bal_of (V d) a + delta)), None, d') \<and>
    V d' = (V d)(keyBal a \<mapsto> PutUint64 (u64_of_int (max 0 (i64 (bal_of (V d) a + delta)))))"
proof -
  let ?n = "max 0 (i64 (bal_of (V d) a + delta))"
  obtain d' where "ldb_Put L d (keyBal a) (PutUint64 (u64_of_int ?n)) = (None, d')"
    "V d' = (V d)(keyBal a \<mapsto> PutUint64 (u64_of_int ?n))"
    using ldb_Put_ok [OF assms(1)] ldb_Put_view [OF assms(1)] by (metis prod.collapse)
  then show ?thesis by (auto simp: AddBalance_clamp_def GetBalance_eq [OF assms] Let_def max_def not_less)
qed

text \<open>
  C21. The two declarations of \<^verbatim>\<open>AddBalance\<close>, in \<^verbatim>\<open>state.go\<close> and in \<^verbatim>\<open>balances.go\<close>, differ on an overdraft and
  nowhere else. On a healthy store whose account entries have eight bytes and whose balances are not
  negative: if the new balance (computed in \<^verbatim>\<open>int64\<close>) is not negative, both return it, without an error,
  and leave the same entries, of which only that balance changed. If it is negative, the one of
  \<^verbatim>\<open>state.go\<close> fails with "insufficient funds" and leaves the store as it is, while that of
  \<^verbatim>\<open>balances.go\<close> reports success and sets the balance to zero. Neither makes a balance negative.
\<close>

theorem AddBalance_declarations:
  assumes "ldb_laws L V" "acct_wf (V d)" "\<forall>b. 0 \<le> bal_of (V d) b"
  shows "\<exists>r e d1 s d2. AddBalance L d a delta = Some (r, e, d1) \<and> AddBalance_clamp L d a delta = Some (s, None, d2) \<and>
    acct_wf (V d1) \<and> acct_wf (V d2) \<and> (\<forall>b. 0 \<le> bal_of (V d1) b \<and> 0 \<le> bal_of (V d2) b) \<and>
    (\<forall>k. k \<noteq> keyBal a \<longrightarrow> V d1 k = V d k \<and> V d2 k = V d k) \<and>
    (if i64 (bal_of (V d) a + delta) < 0
     then e = Some (Err ''insufficient funds'') \<and> d1 = d \<and> s = 0 \<and> bal_of (V d2) = (bal_of (V d))(a := 0)
     else e = None \<and> r = i64 (bal_of (V d) a + delta) \<and> s = r \<and> V d2 = V d1 \<and> bal_of (V d1) = (bal_of (V d))(a := r))"
proof -
  let ?n = "i64 (bal_of (V d) a + delta)"
  obtain d2 where d2: "AddBalance_clamp L d a delta = Some (max 0 ?n, None, d2)"
    "V d2 = (V d)(keyBal a \<mapsto> PutUint64 (u64_of_int (max 0 ?n)))"
    using AddBalance_clamp_view [OF assms(1,2)] by blast
  show ?thesis
  proof (cases "?n < 0")
    case True
    with AddBalance_cases(1) [OF assms(1,2) True] d2 assms show ?thesis by (auto simp: max_def i64_small)
  next
    case False
    then have n: "0 \<le> ?n" by simp
    from AddBalance_cases(2) [OF assms(1,2) n] obtain d1 where "AddBalance L d a delta = Some (?n, None, d1)"
      "V d1 = (V d)(keyBal a \<mapsto> PutUint64 (u64_of_int ?n))" by auto
    with n d2 assms show ?thesis by (auto simp: max_absorb2 i64_id [OF i64_in])
  qed
qed

definition sample_store :: "(bytes \<times> bytes) list" where
  "sample_store = [(keyBal ''alice'', PutUint64 100), (keyBal ''bob'', PutUint64 7),
                   (keyNonce ''alice'', PutUint64 3), (''chain:tip'', ''x'')]"

lemma sample_store_wf: "acct_wf (map_of sample_store)"
  by (auto simp: acct_wf_def sample_store_def keyBal_def keyNonce_def split: if_splits)

lemma sample_store_bal: "bal_of (map_of sample_store) = (\<lambda>_. 0)(''alice'' := 100, ''bob'' := 7)"
proof -
  have "int_of_u64 100 = 100" "int_of_u64 7 = 7" by (simp_all add: int_of_u64_def)
  then show ?thesis by (auto simp: bal_of_def sample_store_def fun_eq_iff) (auto simp: keyBal_def)
qed

theorem AddBalance_declarations_witness:
  "(\<exists>d1 d2. AddBalance alist_db sample_store ''alice'' (- 30) = Some (70, None, d1) \<and>
      AddBalance_clamp alist_db sample_store ''alice'' (- 30) = Some (70, None, d2) \<and> map_of d2 = map_of d1) \<and>
   (\<exists>r d2. AddBalance alist_db sample_store ''bob'' (- 30) = Some (r, Some (Err ''insufficient funds''), sample_store) \<and>
      AddBalance_clamp alist_db sample_store ''bob'' (- 30) = Some (0, None, d2))"
proof -
  have "\<forall>b. 0 \<le> bal_of (map_of sample_store) b" by (simp add: sample_store_bal)
  note both = AddBalance_declarations [OF alist_db_laws sample_store_wf this]
  have "i64 70 = 70" "i64 (- 23) = - 23" by (simp_all add: i64_id in_i64_def)
  with both [of "''alice''" "- 30"] both [of "''bob''" "- 30"] show ?thesis by (auto simp: sample_store_bal)
qed

section \<open>Clearing, exporting and restoring\<close>

definition acct_key :: "bytes \<Rightarrow> bool" where
  "acct_key k \<longleftrightarrow> prefix ''bal:'' k \<or> prefix ''nonce:'' k"

lemma acct_key_simps [simp]: "acct_key (keyBal a)" "acct_key (keyNonce a)"
  by (simp_all add: acct_key_def keyBal_def keyNonce_def)

lemma fold_deletes:
  "fold batch_apply (map (\<lambda>(k, v). BatchDelete k) ents) m = m |` (- fst ` set ents)"
  by (induction ents arbitrary: m) (auto simp: restrict_map_def fun_eq_iff)

lemma foldl_deletes:
  assumes "ldb_laws L V"
  shows "V (foldl (\<lambda>d (k, v). snd (ldb_Delete L d k)) d ents) = V d |` (- fst ` set ents)"
  by (induction ents arbitrary: d) (auto simp: restrict_map_def fun_eq_iff ldb_Delete_view [OF assms])

lemma restrict_to_rest: "m |` (- fst ` {(k, v). m k = Some v \<and> P k}) = m |` {k. \<not> P k}"
proof
  fix k
  show "(m |` (- fst ` {(k, v). m k = Some v \<and> P k})) k = (m |` {k. \<not> P k}) k"
    by (cases "m k") (force simp: restrict_map_def image_iff)+
qed

lemma ResetState_view:
  assumes "ldb_laws L V"
  shows "fst (ResetState L d) = None" "V (snd (ResetState L d)) = V d |` {k. \<not> acct_key k}"
proof -
  show "fst (ResetState L d) = None" by (simp add: ResetState_def Let_def ldb_Write_ok [OF assms])
  have "fst ` {(k, v). V d k = Some v \<and> prefix ''bal:'' k} \<union> fst ` {(k, v). V d k = Some v \<and> prefix ''nonce:'' k}
      = fst ` {(k, v). V d k = Some v \<and> acct_key k}"
    by (auto simp: acct_key_def)
  then show "V (snd (ResetState L d)) = V d |` {k. \<not> acct_key k}"
    by (simp add: ResetState_def Let_def ldb_Write_view [OF assms] fold_deletes ldb_Iter_set [OF assms]
        flip: restrict_to_rest Compl_Un)
qed

lemma WipePrefix_view:
  assumes "ldb_laws L V"
  shows "fst (WipePrefix L p d) = None" "V (snd (WipePrefix L p d)) = V d |` {k. \<not> prefix p k}"
  using ldb_Iter_ok [OF assms, of d p] ldb_Iter_set [OF assms, of d p]
  by (simp_all add: WipePrefix_def foldl_deletes [OF assms] case_prod_beta restrict_to_rest)

lemma WipeStatePrefixes_view:
  assumes "ldb_laws L V"
  shows "fst (WipeStatePrefixes L d) = None" "V (snd (WipeStatePrefixes L d)) = V d |` {k. \<not> acct_key k}"
proof -
  obtain d1 where d1: "WipePrefix L ''bal:'' d = (None, d1)" "V d1 = V d |` {k. \<not> prefix ''bal:'' k}"
    using WipePrefix_view [OF assms, of "''bal:''" d] by (cases "WipePrefix L ''bal:'' d") auto
  then show "fst (WipeStatePrefixes L d) = None" "V (snd (WipeStatePrefixes L d)) = V d |` {k. \<not> acct_key k}"
    using WipePrefix_view [OF assms, of "''nonce:''" d1]
    by (auto simp: WipeStatePrefixes_def acct_key_def restrict_map_def fun_eq_iff)
qed

text \<open>A run of \<^verbatim>\<open>Put\<close>s overrides the store by the entries written.\<close>

lemma put_all_view:
  assumes "ldb_laws L V"
  shows "V (foldl (\<lambda>d (i, x). snd (ldb_Put L d (f i) (g x))) d xs)
       = V d ++ map_of (map (\<lambda>(i, x). (f i, g x)) (rev xs))"
  by (induction xs arbitrary: d) (auto simp: ldb_Put_view [OF assms] map_add_def fun_eq_iff split: option.split)

lemma put_balances_view:
  assumes "ldb_laws L V"
  shows "V (put_balances L bs d)
       = V d ++ map_of (map (\<lambda>(a, v). (keyBal a, PutUint64 (u64_of_int (max 0 v)))) (rev bs))"
proof -
  have "SetBalance L d a v = ldb_Put L d (keyBal a) (PutUint64 (u64_of_int (max 0 v)))" for d a v
    by (simp add: SetBalance_def Let_def max_def)
  then show ?thesis by (simp add: put_balances_def put_all_view [OF assms])
qed

lemma put_nonces_view:
  assumes "ldb_laws L V"
  shows "V (put_nonces L ns d) = V d ++ map_of (map (\<lambda>(a, n). (keyNonce a, PutUint64 n)) (rev ns))"
  by (simp add: put_nonces_def SetNonce_def put_all_view [OF assms])

lemma map_of_rev_distinct: "distinct (map fst xs) \<Longrightarrow> map_of (rev xs) = map_of xs"
  by (subst map_of_inject_set) (simp_all add: rev_map [symmetric])

lemma map_of_map_inj:
  assumes "inj f"
  shows "map_of (map (\<lambda>(i, x). (f i, g x)) xs) (f a) = map_option g (map_of xs a)"
  using assms by (induction xs) (auto dest: injD)

lemma map_of_map_other: "a \<notin> range f \<Longrightarrow> map_of (map (\<lambda>(i, x). (f i, g x)) xs) a = None"
  by (induction xs) auto

lemma inj_keys [simp]: "inj keyBal" "inj keyNonce"
  by (simp_all add: inj_def)

lemma not_range_keys [simp]: "keyBal a \<notin> range keyNonce" "keyNonce a \<notin> range keyBal"
  by auto

text \<open>An order in which a map is walked.\<close>

definition enumerates :: "('k \<times> 'v) list \<Rightarrow> ('k \<rightharpoonup> 'v) \<Rightarrow> bool" where
  "enumerates xs m \<longleftrightarrow> distinct (map fst xs) \<and> map_of xs = m"

lemma map_of_rev_enumerates: "enumerates xs m \<Longrightarrow> map_of (rev xs) = m"
  by (simp add: enumerates_def map_of_rev_distinct)

lemma RestoreSnapshot_view:
  assumes "ldb_laws L V" "enumerates bs B" "enumerates ns N"
  shows "fst (RestoreSnapshot L d bs ns) = None"
    "V (snd (RestoreSnapshot L d bs ns)) (keyBal a) = map_option (\<lambda>v. PutUint64 (u64_of_int (max 0 v))) (B a)"
    "V (snd (RestoreSnapshot L d bs ns)) (keyNonce a) = map_option PutUint64 (N a)"
    "\<not> acct_key k \<Longrightarrow> V (snd (RestoreSnapshot L d bs ns)) k = V d k"
proof -
  obtain d1 where d1: "ResetState L d = (None, d1)" "V d1 = V d |` {k. \<not> acct_key k}"
    using ResetState_view [OF assms(1), of d] by (cases "ResetState L d") auto
  have v: "V (snd (RestoreSnapshot L d bs ns)) =
      V d |` {k. \<not> acct_key k}
        ++ map_of (map (\<lambda>(a, v). (keyBal a, PutUint64 (u64_of_int (max 0 v)))) (rev bs))
        ++ map_of (map (\<lambda>(a, n). (keyNonce a, PutUint64 n)) (rev ns))"
    by (simp add: RestoreSnapshot_def d1 put_nonces_view [OF assms(1)] put_balances_view [OF assms(1)])
  show "fst (RestoreSnapshot L d bs ns) = None" by (simp add: RestoreSnapshot_def d1)
  note e = map_of_rev_enumerates [OF assms(2)] map_of_rev_enumerates [OF assms(3)]
  have "map_of (map (\<lambda>(a, v). (keyBal a, PutUint64 (u64_of_int (max 0 v)))) (rev bs)) (keyBal a)
      = map_option (\<lambda>v. PutUint64 (u64_of_int (max 0 v))) (B a)"
    by (subst map_of_map_inj) (simp_all add: e)
  then show "V (snd (RestoreSnapshot L d bs ns)) (keyBal a)
      = map_option (\<lambda>v. PutUint64 (u64_of_int (max 0 v))) (B a)"
    unfolding v by (simp add: map_add_def map_of_map_other split: option.split)
  show "V (snd (RestoreSnapshot L d bs ns)) (keyNonce a) = map_option PutUint64 (N a)"
    unfolding v by (simp add: map_add_def map_of_map_inj map_of_map_other e split: option.split)
  assume "\<not> acct_key k"
  then have "k \<notin> range keyBal" "k \<notin> range keyNonce" by auto
  with \<open>\<not> acct_key k\<close> show "V (snd (RestoreSnapshot L d bs ns)) k = V d k"
    unfolding v by (simp add: map_add_def map_of_map_other)
qed

lemma assign_all_distinct: "distinct (map fst xs) \<Longrightarrow> assign_all xs = map_of xs"
proof -
  have "foldl (\<lambda>m (k, v). m(k \<mapsto> v)) m xs = m ++ map_of (rev xs)" for m :: "'a \<rightharpoonup> 'b"
    by (induction xs arbitrary: m) (auto simp: map_add_def fun_eq_iff split: option.split)
  then show "distinct (map fst xs) \<Longrightarrow> assign_all xs = map_of xs"
    by (simp add: assign_all_def map_of_rev_distinct)
qed

lemma TrimPrefix_append [simp]: "TrimPrefix (p @ a) p = a"
  by (simp add: TrimPrefix_def)

lemma export_entries_all8:
  "\<forall>(k, v) \<in> set ents. length v = 8 \<Longrightarrow>
     export_entries p ents = map (\<lambda>(k, v). (TrimPrefix k p, of_int (be_int v))) ents"
  by (induction ents) (auto simp: export_entries_def)

lemma export_entries_map:
  assumes "ldb_laws L V" "\<forall>a v. V d (p @ a) = Some v \<longrightarrow> length v = 8"
  shows "distinct (map fst (export_entries p (fst (ldb_Iter L d p))))"
    "map_of (export_entries p (fst (ldb_Iter L d p))) a = map_option (\<lambda>v. of_int (be_int v)) (V d (p @ a))"
proof -
  let ?ents = "fst (ldb_Iter L d p)" and ?f = "\<lambda>(k, v). (TrimPrefix k p, of_int (be_int v) :: u64)"
  have ent: "\<exists>a. k = p @ a \<and> V d (p @ a) = Some v \<and> length v = 8" if "(k, v) \<in> set ?ents" for k v
    using that assms(2) by (auto simp: ldb_Iter_set [OF assms(1)] prefix_def)
  then have "\<forall>(k, v) \<in> set ?ents. length v = 8" by blast
  then have e: "export_entries p ?ents = map ?f ?ents" by (rule export_entries_all8)
  have "inj_on (\<lambda>k. TrimPrefix k p) (fst ` set ?ents)"
    by (auto simp: inj_on_def dest!: ent)
  then have "distinct (map (\<lambda>k. TrimPrefix k p) (map fst ?ents))"
    using ldb_Iter_distinct [OF assms(1)] by (subst distinct_map) simp
  then show d: "distinct (map fst (export_entries p ?ents))"
    unfolding e by (simp add: o_def case_prod_beta)
  show "map_of (export_entries p ?ents) a = map_option (\<lambda>v. of_int (be_int v)) (V d (p @ a))"
  proof (cases "V d (p @ a)")
    case None
    then have "a \<notin> fst ` set (export_entries p ?ents)" unfolding e by (force dest: ent)
    then have "map_of (export_entries p ?ents) a = None" by (simp add: map_of_eq_None_iff)
    with None show ?thesis by simp
  next
    case (Some v)
    then have "(p @ a, v) \<in> set ?ents" by (simp add: ldb_Iter_set [OF assms(1)])
    then have "(a, of_int (be_int v)) \<in> set (export_entries p ?ents)" unfolding e by force
    with d Some show ?thesis by simp
  qed
qed

lemma ExportStateMaps_eq:
  assumes "ldb_laws L V" "acct_wf (V d)"
  shows "ExportStateMaps L d =
    (Some (\<lambda>a. map_option (\<lambda>v. int_of_u64 (of_int (be_int v))) (V d (keyBal a)),
           \<lambda>a. map_option (\<lambda>v. of_int (be_int v)) (V d (keyNonce a))), None)"
proof -
  note b = export_entries_map [OF assms(1), of d "''bal:''"]
  note n = export_entries_map [OF assms(1), of d "''nonce:''"]
  have w: "\<forall>a v. V d (''bal:'' @ a) = Some v \<longrightarrow> length v = 8"
    "\<forall>a v. V d (''nonce:'' @ a) = Some v \<longrightarrow> length v = 8"
    using assms(2) by (simp_all add: acct_wf_def keyBal_def keyNonce_def)
  obtain eb en where it: "ldb_Iter L d ''bal:'' = (eb, None)" "ldb_Iter L d ''nonce:'' = (en, None)"
    using ldb_Iter_ok [OF assms(1)] by (metis prod.collapse)
  let ?i = "\<lambda>(a, u). (a, int_of_u64 u)"
  have "distinct (map fst (map ?i (export_entries ''bal:'' eb)))"
    using b(1) [OF w(1)] it by (simp add: o_def case_prod_beta)
  then have "assign_all (map ?i (export_entries ''bal:'' eb)) a
      = map_option (\<lambda>v. int_of_u64 (of_int (be_int v))) (V d (keyBal a))" for a
    using b(2) [OF w(1), of a] it map_of_map_inj [of "\<lambda>x. x" int_of_u64 "export_entries ''bal:'' eb" a]
    by (simp add: assign_all_distinct option.map_comp o_def keyBal_def)
  moreover have "assign_all (export_entries ''nonce:'' en) a = map_option (\<lambda>v. of_int (be_int v)) (V d (keyNonce a))"
    for a using n(1) [OF w(2)] n(2) [OF w(2), of a] it by (simp add: assign_all_distinct keyNonce_def)
  ultimately show ?thesis by (simp add: ExportStateMaps_def it Let_def fun_eq_iff)
qed

text \<open>
  C20. Exporting the state of one database and restoring it into another reproduces it: whatever
  order the maps are walked in, afterwards every account has the balance and the nonce it had in
  the first database, no other account is left over from the second, and nothing but account
  entries has changed.
\<close>

theorem snapshot_roundtrip:
  assumes "ldb_laws L V" "acct_wf (V d)" "\<forall>a. 0 \<le> bal_of (V d) a"
    and "ExportStateMaps L d = (Some (B, N), None)" "enumerates bs B" "enumerates ns N"
    and "RestoreSnapshot L d2 bs ns = (e, d3)"
  shows "e = None \<and> bal_of (V d3) = bal_of (V d) \<and> non_of (V d3) = non_of (V d) \<and> acct_wf (V d3)
    \<and> (\<forall>a. (V d3 (keyBal a) = None \<longleftrightarrow> V d (keyBal a) = None) \<and> (V d3 (keyNonce a) = None \<longleftrightarrow> V d (keyNonce a) = None))
    \<and> (\<forall>k. \<not> acct_key k \<longrightarrow> V d3 k = V d2 k)"
proof -
  have B: "B = (\<lambda>a. map_option (\<lambda>v. int_of_u64 (of_int (be_int v))) (V d (keyBal a)))"
    and N: "N = (\<lambda>a. map_option (\<lambda>v. of_int (be_int v)) (V d (keyNonce a)))"
    using assms(4) ExportStateMaps_eq [OF assms(1,2)] by simp_all
  note R = RestoreSnapshot_view [OF assms(1,5,6), where d = d2, unfolded assms(7) fst_conv snd_conv]
  have "bal_of (V d3) a = bal_of (V d) a" for a
    using R(2) [of a] spec [OF assms(3), of a]
    by (auto simp: B bal_of_def max_def i64_id [OF int_of_u64_in] split: option.splits)
  moreover have "non_of (V d3) a = non_of (V d) a" for a
    using R(3) [of a] by (auto simp: N non_of_def split: option.splits)
  ultimately show ?thesis
    using R by (auto simp: B N acct_wf_def fun_eq_iff)
qed

theorem snapshot_roundtrip_witness:
  "\<exists>B N d3. ExportStateMaps alist_db sample_store = (Some (B, N), None) \<and>
     RestoreSnapshot alist_db [(keyBal ''carol'', PutUint64 9)] [(''bob'', 7), (''alice'', 100)] [(''alice'', 3)] = (None, d3) \<and>
     bal_of (map_of d3) = bal_of (map_of sample_store) \<and> map_of d3 (keyBal ''carol'') = None"
proof -
  let ?d2 = "[(keyBal ''carol'', PutUint64 9)]" and ?bs = "[(''bob'', 7), (''alice'', 100)]" and ?ns = "[(''alice'', 3)]"
  obtain e d3 where r: "RestoreSnapshot alist_db ?d2 ?bs ?ns = (e, d3)" by fastforce
  have i: "int_of_u64 100 = 100" "int_of_u64 7 = 7" by (simp_all add: int_of_u64_def)
  have x: "ExportStateMaps alist_db sample_store = (Some (map_of ?bs, map_of ?ns), None)"
    unfolding ExportStateMaps_eq [OF alist_db_laws sample_store_wf]
    by (auto simp: sample_store_def fun_eq_iff i) (auto simp: keyBal_def keyNonce_def)
  have "\<forall>a. 0 \<le> bal_of (map_of sample_store) a" by (simp add: sample_store_bal)
  from snapshot_roundtrip [OF alist_db_laws sample_store_wf this x _ _ r]
  show ?thesis using r x by (simp add: enumerates_def) (auto simp: sample_store_def keyBal_def keyNonce_def)
qed

text \<open>
  The two ways of clearing the account state agree: \<^verbatim>\<open>ResetState\<close> (one batch) and
  \<^verbatim>\<open>WipeStatePrefixes\<close> (deletion while iterating) both succeed on a healthy store, remove
  every balance and nonce entry and touch nothing else.
\<close>

theorem reset_wipe_agree:
  assumes "ldb_laws L V"
  shows "\<exists>d1 d2. ResetState L d = (None, d1) \<and> WipeStatePrefixes L d = (None, d2) \<and> V d1 = V d2 \<and>
    V d1 = (\<lambda>k. if acct_key k then None else V d k)"
proof -
  obtain d1 d2 where "ResetState L d = (None, d1)" "WipeStatePrefixes L d = (None, d2)"
    using ResetState_view(1) [OF assms, of d] WipeStatePrefixes_view(1) [OF assms, of d]
    by (metis prod.collapse)
  then show ?thesis
    using ResetState_view(2) [OF assms, of d] WipeStatePrefixes_view(2) [OF assms, of d]
    by (auto simp: restrict_map_def fun_eq_iff)
qed

theorem reset_wipe_agree_witness:
  "\<exists>d1 d2. ResetState alist_db sample_store = (None, d1) \<and> WipeStatePrefixes alist_db sample_store = (None, d2) \<and>
     map_of d1 = map_of d2 \<and> map_of d1 (keyBal ''alice'') = None \<and> map_of d1 ''chain:tip'' = Some ''x''"
proof -
  obtain d1 d2 where d: "ResetState alist_db sample_store = (None, d1)"
    "WipeStatePrefixes alist_db sample_store = (None, d2)" "map_of d1 = map_of d2"
    "map_of d1 = (\<lambda>k. if acct_key k then None else map_of sample_store k)"
    using reset_wipe_agree [OF alist_db_laws, of sample_store] by blast
  have "map_of d1 (keyBal ''alice'') = None" unfolding d(4) by simp
  moreover have "map_of d1 ''chain:tip'' = Some ''x''"
    unfolding d(4) by (simp add: sample_store_def acct_key_def keyBal_def keyNonce_def)
  ultimately show ?thesis using d(1-3) by blast
qed

end
