(* ===== verification/ChainStore.thy ===== *)
theory ChainStore
  imports Chain Accounts
begin

text \<open>
  The chain part of \<^verbatim>\<open>internal/reservestorage\<close>: transactions, blocks, the main-chain index,
  the tip, headers, work, fork candidates, best-chain markers, finality records and the validator
  registry. Values are stored as JSON; the encoder and decoder of \<^verbatim>\<open>encoding/json\<close> for a type
  are a \<open>codec\<close>, an argument of the accessors, with the round trip \<open>codec_ok\<close> as the law relied on.
\<close>

section \<open>Codecs and lookups\<close>

record 'a codec =
  jc_Marshal :: "'a \<Rightarrow> error + bytes"
  jc_Unmarshal :: "bytes \<Rightarrow> 'a \<times> err"

definition codec_ok :: "'a codec \<Rightarrow> 'a \<Rightarrow> bool" where
  "codec_ok J x \<longleftrightarrow> (\<exists>b. jc_Marshal J x = Inr b \<and> jc_Unmarshal J b = (x, None))"

text \<open>
  The lookup every accessor starts with: \<^verbatim>\<open>db.Get\<close>, where \<^verbatim>\<open>ErrNotFound\<close> is "absent" and
  any other error is passed on.
\<close>

definition db_lookup :: "'d leveldb \<Rightarrow> 'd \<Rightarrow> bytes \<Rightarrow> bytes option \<times> err" where
  "db_lookup L d k =
     (case ldb_Get L d k of
        Inr b \<Rightarrow> (Some b, None)
      | Inl e \<Rightarrow> if errors_Is e ErrNotFound then (None, None) else (None, Some e))"

lemma db_lookup_eq [store_simps]: "ldb_laws L V \<Longrightarrow> db_lookup L d k = (V d k, None)"
  by (simp add: db_lookup_def ldb_Get_eq split: option.split)

text \<open>Marshalling and storing; the code stops at the first error.\<close>

definition put_json :: "'d leveldb \<Rightarrow> 'a codec \<Rightarrow> 'd \<Rightarrow> bytes \<Rightarrow> 'a \<Rightarrow> err \<times> 'd" where
  "put_json L J d k x =
     (case jc_Marshal J x of
        Inl e \<Rightarrow> (Some e, d)
      | Inr b \<Rightarrow> ldb_Put L d k b)"

text \<open>Reading a JSON value: \<open>(value, found, error)\<close>; \<open>z\<close> is the zero value of the type.\<close>

definition get_json :: "'d leveldb \<Rightarrow> 'a codec \<Rightarrow> 'a \<Rightarrow> 'd \<Rightarrow> bytes \<Rightarrow> 'a \<times> bool \<times> err" where
  "get_json L J z d k =
     (case db_lookup L d k of
        (Some b, _) \<Rightarrow> (case jc_Unmarshal J b of
                          (x, Some e) \<Rightarrow> (z, False, Some e)
                        | (x, None) \<Rightarrow> (x, True, None))
      | (None, e) \<Rightarrow> (z, False, e))"

definition get_string :: "'d leveldb \<Rightarrow> 'd \<Rightarrow> bytes \<Rightarrow> string \<times> bool \<times> err" where
  "get_string L d k =
     (case db_lookup L d k of
        (Some b, _) \<Rightarrow> (b, True, None)
      | (None, e) \<Rightarrow> ([], False, e))"

text \<open>Loops over an iterator that decode every value and stop at a limit.\<close>

fun list_json :: "'a codec \<Rightarrow> nat \<Rightarrow> bytes list \<Rightarrow> 'a list \<Rightarrow> error + 'a list" where
  "list_json J limit [] out = Inr out"
| "list_json J limit (v # vs) out =
     (case jc_Unmarshal J v of
        (x, Some e) \<Rightarrow> Inl e
      | (x, None) \<Rightarrow>
          (let out = out @ [x] in if length out \<ge> limit then Inr out else list_json J limit vs out))"

definition clamp_limit :: "int \<Rightarrow> int \<Rightarrow> nat" where
  "clamp_limit limit m = nat (if limit \<le> 0 \<or> limit > m then m else limit)"

definition list_prefix :: "'d leveldb \<Rightarrow> 'a codec \<Rightarrow> 'd \<Rightarrow> bytes \<Rightarrow> nat \<Rightarrow> 'a list \<times> err" where
  "list_prefix L J d p limit =
     (case ldb_Iter L d p of
        (ents, e) \<Rightarrow>
          (case list_json J limit (map snd ents) [] of
             Inl e \<Rightarrow> ([], Some e)
           | Inr out \<Rightarrow> (case e of Some e \<Rightarrow> ([], Some e) | None \<Rightarrow> (out, None))))"

section \<open>Transactions and blocks: \<^verbatim>\<open>txindex.go\<close>, \<^verbatim>\<open>blocks.go\<close>, \<^verbatim>\<open>query.go\<close>\<close>

definition keyTx :: "string \<Rightarrow> bytes" where
  "keyTx txid = ''tx:'' @ txid"

definition zero_tx :: tx where
  "zero_tx = \<lparr>tx_From = [], tx_PubKey = [], tx_SigHex = [], tx_Type = [], tx_OTAPClaim = None, tx_Version = 0,
     tx_Nonce = 0, tx_Fee = 0, tx_GasAsset = [], tx_Outputs = [], tx_Memo = []\<rparr>"

definition zero_header :: block_header where
  "zero_header = \<lparr>bh_Version = 0, bh_ChainID = [], bh_Height = 0, bh_TimeUnix = 0, bh_PrevHash = zero_hash,
     bh_StateRoot = zero_hash, bh_TxRoot = zero_hash, bh_Bits = 0, bh_Nonce = 0\<rparr>"

definition zero_block :: block where
  "zero_block = \<lparr>b_Header = zero_header, b_Txs = []\<rparr>"

definition PutTx :: "'d leveldb \<Rightarrow> tx codec \<Rightarrow> (bytes \<Rightarrow> hash) \<Rightarrow> 'd \<Rightarrow> tx \<Rightarrow> err \<times> 'd" where
  "PutTx L J hash256 d tx = put_json L J d (keyTx (Tx_ID hash256 tx)) tx"

definition GetTx :: "'d leveldb \<Rightarrow> tx codec \<Rightarrow> 'd \<Rightarrow> string \<Rightarrow> tx \<times> bool \<times> err" where
  "GetTx L J d txid = get_json L J zero_tx d (keyTx txid)"

definition keyBlockByHash :: "string \<Rightarrow> bytes" where
  "keyBlockByHash hashHex = ''blk:hash:'' @ hashHex"

definition keyHashByHeight :: "u64 \<Rightarrow> bytes" where
  "keyHashByHeight h = ''blk:height:'' @ PutUint64 h"

definition PutBlock :: "'d leveldb \<Rightarrow> block codec \<Rightarrow> 'd \<Rightarrow> string \<Rightarrow> u64 \<Rightarrow> block \<Rightarrow> err \<times> 'd" where
  "PutBlock L J d hashHex height block =
     (case jc_Marshal J block of
        Inl e \<Rightarrow> (Some e, d)
      | Inr b \<Rightarrow> ldb_Write L d [BatchPut (keyBlockByHash hashHex) b, BatchPut (keyHashByHeight height) hashHex])"

definition GetHashByHeight :: "'d leveldb \<Rightarrow> 'd \<Rightarrow> u64 \<Rightarrow> string \<times> bool \<times> err" where
  "GetHashByHeight L d height = get_string L d (keyHashByHeight height)"

text \<open>The block is decoded into a zero value; the error of the decoder is returned beside \<^verbatim>\<open>true\<close>.\<close>

definition GetBlockByHash :: "'d leveldb \<Rightarrow> block codec \<Rightarrow> 'd \<Rightarrow> string \<Rightarrow> block \<times> bool \<times> err" where
  "GetBlockByHash L J d hashHex =
     (case db_lookup L d (keyBlockByHash hashHex) of
        (Some b, _) \<Rightarrow> (case jc_Unmarshal J b of (x, e) \<Rightarrow> (x, True, e))
      | (None, e) \<Rightarrow> (zero_block, False, e))"

definition PutHashByHeightOverwrite :: "'d leveldb \<Rightarrow> 'd \<Rightarrow> u64 \<Rightarrow> string \<Rightarrow> err \<times> 'd" where
  "PutHashByHeightOverwrite L d height hashHex = ldb_Put L d (keyHashByHeight height) hashHex"

definition GetBlockByHeight :: "'d leveldb \<Rightarrow> block codec \<Rightarrow> 'd \<Rightarrow> u64 \<Rightarrow> block \<times> bool \<times> string \<times> err" where
  "GetBlockByHeight L J d height =
     (case GetHashByHeight L d height of
        (h, ok, err) \<Rightarrow>
          if err \<noteq> None \<or> \<not> ok then (zero_block, False, [], err)
          else (case GetBlockByHash L J d h of (b, ok2, err) \<Rightarrow> (b, ok2, h, err)))"

section \<open>Chain metadata: \<^verbatim>\<open>chainmeta.go\<close>, \<^verbatim>\<open>work.go\<close>, \<^verbatim>\<open>cumwork.go\<close>\<close>

definition keyGenesis :: bytes where "keyGenesis = ''meta:genesis''"
definition keyTipHeight :: bytes where "keyTipHeight = ''meta:tip_height''"
definition keyTipBlockID :: bytes where "keyTipBlockID = ''meta:tip_block_id''"
definition keyTipWork :: bytes where "keyTipWork = ''meta:tip_work''"

definition HasGenesis :: "'d leveldb \<Rightarrow> 'd \<Rightarrow> bool \<times> err" where
  "HasGenesis L d = (case db_lookup L d keyGenesis of (Some _, _) \<Rightarrow> (True, None) | (None, e) \<Rightarrow> (False, e))"

definition PutGenesis :: "'d leveldb \<Rightarrow> 'g codec \<Rightarrow> 'd \<Rightarrow> 'g \<Rightarrow> err \<times> 'd" where
  "PutGenesis L J d g = put_json L J d keyGenesis g"

definition GetGenesis :: "'d leveldb \<Rightarrow> 'g codec \<Rightarrow> 'd \<Rightarrow> 'g option \<times> bool \<times> err" where
  "GetGenesis L J d =
     (case db_lookup L d keyGenesis of
        (Some b, _) \<Rightarrow> (case jc_Unmarshal J b of (x, e) \<Rightarrow> (Some x, True, e))
      | (None, e) \<Rightarrow> (None, False, e))"

text \<open>A height is stored as JSON; the error of \<^verbatim>\<open>json.Marshal\<close> is dropped, leaving nil bytes.\<close>

definition marshal_or_nil :: "'a codec \<Rightarrow> 'a \<Rightarrow> bytes" where
  "marshal_or_nil J x = (case jc_Marshal J x of Inl _ \<Rightarrow> [] | Inr b \<Rightarrow> b)"

definition PutTip :: "'d leveldb \<Rightarrow> u64 codec \<Rightarrow> 'd \<Rightarrow> u64 \<Rightarrow> bytes \<Rightarrow> err \<times> 'd" where
  "PutTip L J d height blockID =
     (case ldb_Put L d keyTipHeight (marshal_or_nil J height) of
        (Some e, d) \<Rightarrow> (Some e, d)
      | (None, d) \<Rightarrow> ldb_Put L d keyTipBlockID blockID)"

definition GetTip :: "'d leveldb \<Rightarrow> u64 codec \<Rightarrow> 'd \<Rightarrow> u64 \<times> string \<times> bool \<times> err" where
  "GetTip L J d =
     (case db_lookup L d keyTipHeight of
        (Some hb, _) \<Rightarrow>
          (case jc_Unmarshal J hb of
             (_, Some e) \<Rightarrow> (0, [], False, Some e)
           | (height, None) \<Rightarrow>
               (case ldb_Get L d keyTipBlockID of
                  Inl e \<Rightarrow> (0, [], False, Some e)
                | Inr th \<Rightarrow> (height, th, True, None)))
      | (None, e) \<Rightarrow> (0, [], False, e))"

definition SetTip :: "'d leveldb \<Rightarrow> u64 codec \<Rightarrow> 'd \<Rightarrow> u64 \<Rightarrow> string \<Rightarrow> err \<times> 'd" where
  "SetTip L J d height hashHex = PutTip L J d height hashHex"

text \<open>Numbers stored as eight bytes: \<open>get_u64\<close> panics on a shorter value, \<open>get_u64_8\<close> checks the length.\<close>

definition put_u64 :: "'d leveldb \<Rightarrow> 'd \<Rightarrow> bytes \<Rightarrow> u64 \<Rightarrow> err \<times> 'd" where
  "put_u64 L d k v = ldb_Put L d k (PutUint64 v)"

definition get_u64 :: "'d leveldb \<Rightarrow> 'd \<Rightarrow> bytes \<Rightarrow> (u64 \<times> bool \<times> err) option" where
  "get_u64 L d k =
     (case db_lookup L d k of
        (Some b, _) \<Rightarrow> do { v \<leftarrow> Uint64 b; Some (v, True, None) }
      | (None, e) \<Rightarrow> Some (0, False, e))"

definition get_u64_8 :: "'d leveldb \<Rightarrow> 'd \<Rightarrow> bytes \<Rightarrow> u64 \<times> bool \<times> err" where
  "get_u64_8 L d k =
     (case db_lookup L d k of
        (Some b, _) \<Rightarrow> if length b = 8 then (of_int (be_int b), True, None) else (0, False, None)
      | (None, e) \<Rightarrow> (0, False, e))"

definition PutTipWork :: "'d leveldb \<Rightarrow> 'd \<Rightarrow> u64 \<Rightarrow> err \<times> 'd" where
  "PutTipWork L d work = put_u64 L d keyTipWork work"

definition GetTipWork :: "'d leveldb \<Rightarrow> 'd \<Rightarrow> (u64 \<times> bool \<times> err) option" where
  "GetTipWork L d = get_u64 L d keyTipWork"

definition keyWork :: "string \<Rightarrow> bytes" where
  "keyWork hashHex = ''work:'' @ hashHex"

definition PutWork :: "'d leveldb \<Rightarrow> 'd \<Rightarrow> string \<Rightarrow> u64 \<Rightarrow> err \<times> 'd" where
  "PutWork L d hashHex work = put_u64 L d (keyWork hashHex) work"

definition GetWork :: "'d leveldb \<Rightarrow> 'd \<Rightarrow> string \<Rightarrow> (u64 \<times> bool \<times> err) option" where
  "GetWork L d hashHex = get_u64 L d (keyWork hashHex)"

definition keyCumWork :: "string \<Rightarrow> bytes" where
  "keyCumWork hashHex = ''cumwork:'' @ hashHex"

definition PutCumWork :: "'d leveldb \<Rightarrow> 'd \<Rightarrow> string \<Rightarrow> u64 \<Rightarrow> err \<times> 'd" where
  "PutCumWork L d hashHex cw = put_u64 L d (keyCumWork hashHex) cw"

definition GetCumWork :: "'d leveldb \<Rightarrow> 'd \<Rightarrow> string \<Rightarrow> u64 \<times> bool \<times> err" where
  "GetCumWork L d hashHex = get_u64_8 L d (keyCumWork hashHex)"

section \<open>Headers: \<^verbatim>\<open>headers.go\<close>, \<^verbatim>\<open>headers_index.go\<close>, \<^verbatim>\<open>headers_gc.go\<close>, \<^verbatim>\<open>headers_frontier.go\<close>\<close>

text \<open>
  \<^verbatim>\<open>headers.go\<close> and \<^verbatim>\<open>headers_index.go\<close> both declare \<^verbatim>\<open>PutHeader\<close> and
  \<^verbatim>\<open>GetHeaderByHash\<close>; the callers use the signatures of \<^verbatim>\<open>headers_index.go\<close>. The other pair is
  \<open>PutHeader_any\<close> and \<open>GetHeaderByHash_any\<close>.
\<close>

definition keyHeaderByHash :: "string \<Rightarrow> bytes" where
  "keyHeaderByHash hashHex = ''hdr:hash:'' @ hashHex"

definition PutHeader_any :: "'d leveldb \<Rightarrow> 'h codec \<Rightarrow> 'd \<Rightarrow> string \<Rightarrow> 'h \<Rightarrow> err \<times> 'd" where
  "PutHeader_any L J d hashHex header = put_json L J d (keyHeaderByHash hashHex) header"

definition GetHeaderByHash_any :: "'d leveldb \<Rightarrow> 'h codec \<Rightarrow> 'd \<Rightarrow> string \<Rightarrow> 'h option \<times> bool \<times> err" where
  "GetHeaderByHash_any L J d hashHex =
     (case db_lookup L d (keyHeaderByHash hashHex) of
        (Some b, _) \<Rightarrow> (case jc_Unmarshal J b of (x, e) \<Rightarrow> (Some x, True, e))
      | (None, e) \<Rightarrow> (None, False, e))"

definition keyHdrHash :: "string \<Rightarrow> bytes" where
  "keyHdrHash hash = ''hdr:'' @ hash"

definition keyHdrAtHeight :: "u64 \<Rightarrow> string \<Rightarrow> bytes" where
  "keyHdrAtHeight h hash = ''hdrh:'' @ dec_u64 h @ '':'' @ hash"

definition keyHeaderTipH :: bytes where "keyHeaderTipH = ''hdrtip:h''"
definition keyHeaderTipHash :: bytes where "keyHeaderTipHash = ''hdrtip:hash''"

definition PutHeader :: "'d leveldb \<Rightarrow> block_header codec \<Rightarrow> 'd \<Rightarrow> block_header \<Rightarrow> string \<Rightarrow> err \<times> 'd" where
  "PutHeader L J d header hash =
     (case ldb_Put L d (keyHdrHash hash) (marshal_or_nil J header) of
        (Some e, d) \<Rightarrow> (Some e, d)
      | (None, d) \<Rightarrow> (None, snd (ldb_Put L d (keyHdrAtHeight (bh_Height header) hash) [CHR 0x01])))"

definition GetHeaderByHash :: "'d leveldb \<Rightarrow> block_header codec \<Rightarrow> 'd \<Rightarrow> string \<Rightarrow> block_header \<times> bool \<times> err" where
  "GetHeaderByHash L J d hash =
     (case db_lookup L d (keyHdrHash hash) of
        (Some b, _) \<Rightarrow> (case jc_Unmarshal J b of
                          (hdr, Some e) \<Rightarrow> (hdr, False, Some e)
                        | (hdr, None) \<Rightarrow> (hdr, True, None))
      | (None, e) \<Rightarrow> (zero_header, False, e))"

text \<open>\<^verbatim>\<open>strings.SplitN(s, ":", n)\<close>.\<close>

fun SplitN :: "nat \<Rightarrow> string \<Rightarrow> string list" where
  "SplitN 0 s = []"
| "SplitN (Suc n) s =
     (if n = 0 \<or> CHR '':'' \<notin> set s then [s]
      else takeWhile (\<lambda>c. c \<noteq> CHR '':'') s # SplitN n (tl (dropWhile (\<lambda>c. c \<noteq> CHR '':'') s)))"

fun collect_parts :: "nat \<Rightarrow> bytes list \<Rightarrow> string list \<Rightarrow> string list" where
  "collect_parts limit [] out = out"
| "collect_parts limit (k # ks) out =
     (let parts = SplitN 3 k;
          out = (if length parts = 3 then out @ [parts ! 2] else out)
      in if length out \<ge> limit then out else collect_parts limit ks out)"

definition ListHeaderHashesAtHeight :: "'d leveldb \<Rightarrow> 'd \<Rightarrow> u64 \<Rightarrow> int \<Rightarrow> string list \<times> err" where
  "ListHeaderHashesAtHeight L d h limit =
     (let limit = clamp_limit limit 5000
      in case ldb_Iter L d (''hdrh:'' @ dec_u64 h @ '':'') of
           (ents, e) \<Rightarrow>
             (let out = collect_parts limit (map fst ents) []
              in case e of Some e \<Rightarrow> ([], Some e) | None \<Rightarrow> (out, None)))"

definition SetHeaderTip :: "'d leveldb \<Rightarrow> 'd \<Rightarrow> u64 \<Rightarrow> string \<Rightarrow> err \<times> 'd" where
  "SetHeaderTip L d h hash =
     (case put_u64 L d keyHeaderTipH h of
        (Some e, d) \<Rightarrow> (Some e, d)
      | (None, d) \<Rightarrow> ldb_Put L d keyHeaderTipHash hash)"

text \<open>The value read beside an error of \<^verbatim>\<open>Get\<close> is nil, the empty string.\<close>

definition get_or_nil :: "'d leveldb \<Rightarrow> 'd \<Rightarrow> bytes \<Rightarrow> bytes" where
  "get_or_nil L d k = (case ldb_Get L d k of Inl _ \<Rightarrow> [] | Inr b \<Rightarrow> b)"

definition GetHeaderTip :: "'d leveldb \<Rightarrow> 'd \<Rightarrow> u64 \<times> string \<times> bool \<times> err" where
  "GetHeaderTip L d =
     (case db_lookup L d keyHeaderTipH of
        (Some hb, _) \<Rightarrow>
          if length hb = 8 then (of_int (be_int hb), get_or_nil L d keyHeaderTipHash, True, None)
          else (0, [], False, None)
      | (None, e) \<Rightarrow> (0, [], False, e))"

fun parseU64_loop :: "string \<Rightarrow> u64 \<Rightarrow> u64" where
  "parseU64_loop [] n = n"
| "parseU64_loop (c # s) n =
     (if c < CHR ''0'' \<or> c > CHR ''9'' then n
      else parseU64_loop s (n * 10 + of_int (of_char c - of_char (CHR ''0''))))"

definition parseU64 :: "string \<Rightarrow> u64" where
  "parseU64 s = parseU64_loop s 0"

definition DeleteHeadersBelowHeight :: "'d leveldb \<Rightarrow> 'd \<Rightarrow> u64 \<Rightarrow> 'd" where
  "DeleteHeadersBelowHeight L d hLimit =
     foldl (\<lambda>d (k, v).
              let parts = SplitN 3 k
              in if length parts \<noteq> 3 then d
                 else if parseU64 (parts ! 1) < hLimit then snd (ldb_Delete L d k) else d)
           d (fst (ldb_Iter L d ''hdrh:''))"

definition keyFrontierH :: bytes where "keyFrontierH = ''sync:frontier_height''"
definition keyFrontierHash :: bytes where "keyFrontierHash = ''sync:frontier_hash''"

definition GetHeaderFrontier :: "'d leveldb \<Rightarrow> 'd \<Rightarrow> u64 \<times> string \<times> bool \<times> err" where
  "GetHeaderFrontier L d =
     (case db_lookup L d keyFrontierH of
        (Some hb, _) \<Rightarrow>
          if length hb = 8 then (of_int (be_int hb), get_or_nil L d keyFrontierHash, True, None)
          else (0, [], False, None)
      | (None, e) \<Rightarrow> (0, [], False, e))"

definition SetHeaderFrontier :: "'d leveldb \<Rightarrow> 'd \<Rightarrow> u64 \<Rightarrow> string \<Rightarrow> err \<times> 'd" where
  "SetHeaderFrontier L d h hash =
     (case put_u64 L d keyFrontierH h of
        (Some e, d) \<Rightarrow> (Some e, d)
      | (None, d) \<Rightarrow> (None, if hash \<noteq> [] then snd (ldb_Put L d keyFrontierHash hash) else d))"

section \<open>Candidates and best chain: \<^verbatim>\<open>candidates.go\<close>, \<^verbatim>\<open>bestchain_cache.go\<close>, \<^verbatim>\<open>bestchain_marker.go\<close>\<close>

record candidate =
  ca_Height :: u64
  ca_Hash :: string
  ca_PrevHash :: string

definition keyCand :: "u64 \<Rightarrow> string \<Rightarrow> bytes" where
  "keyCand height hash = ''cand:'' @ dec_u64 height @ '':'' @ hash"

definition PutCandidate :: "'d leveldb \<Rightarrow> candidate codec \<Rightarrow> 'd \<Rightarrow> candidate \<Rightarrow> 'd" where
  "PutCandidate L J d c = snd (ldb_Put L d (keyCand (ca_Height c) (ca_Hash c)) (marshal_or_nil J c))"

definition DelCandidate :: "'d leveldb \<Rightarrow> 'd \<Rightarrow> u64 \<Rightarrow> string \<Rightarrow> 'd" where
  "DelCandidate L d height hash = snd (ldb_Delete L d (keyCand height hash))"

text \<open>A value that does not decode is listed as what the decoder left.\<close>

definition ListCandidatesAtHeight :: "'d leveldb \<Rightarrow> candidate codec \<Rightarrow> 'd \<Rightarrow> u64 \<Rightarrow> int \<Rightarrow> candidate list \<times> err" where
  "ListCandidatesAtHeight L J d height limit =
     (let limit = clamp_limit limit 2000
      in case ldb_Iter L d (''cand:'' @ dec_u64 height @ '':'') of
           (ents, e) \<Rightarrow>
             (let out = take limit (map (\<lambda>(k, v). fst (jc_Unmarshal J v)) ents)
              in case e of Some e \<Rightarrow> ([], Some e) | None \<Rightarrow> (out, None)))"

definition keyBestAtHeight :: "u64 \<Rightarrow> bytes" where
  "keyBestAtHeight h = ''besth:'' @ dec_u64 h"

definition PutBestHashAtHeight :: "'d leveldb \<Rightarrow> 'd \<Rightarrow> u64 \<Rightarrow> string \<Rightarrow> err \<times> 'd" where
  "PutBestHashAtHeight L d h hash = ldb_Put L d (keyBestAtHeight h) hash"

definition GetBestHashAtHeight :: "'d leveldb \<Rightarrow> 'd \<Rightarrow> u64 \<Rightarrow> string \<times> bool \<times> err" where
  "GetBestHashAtHeight L d h = get_string L d (keyBestAtHeight h)"

definition keyBestChainTip :: bytes where "keyBestChainTip = ''bestchain:tip_hash''"

definition SetBestChainTip :: "'d leveldb \<Rightarrow> 'd \<Rightarrow> string \<Rightarrow> err \<times> 'd" where
  "SetBestChainTip L d hash = ldb_Put L d keyBestChainTip hash"

definition GetBestChainTip :: "'d leveldb \<Rightarrow> 'd \<Rightarrow> string \<times> bool \<times> err" where
  "GetBestChainTip L d = get_string L d keyBestChainTip"


section \<open>Ancestors: \<^verbatim>\<open>ancestors.go\<close>, \<^verbatim>\<open>header_ancestors.go\<close>\<close>

text \<open>
  Both walks follow parent links in an unbounded \<^verbatim>\<open>for\<close>; a walk that never ends is \<open>None\<close>.
  \<^verbatim>\<open>ancestors.go\<close> reads \<^verbatim>\<open>b.Hash()\<close>, which \<^verbatim>\<open>chain.Block\<close> does not declare: it is
  the argument \<open>blockHash\<close>.
\<close>

partial_function (option) GetAncestorHashAtHeight ::
  "'d leveldb \<Rightarrow> block codec \<Rightarrow> (block \<Rightarrow> hash) \<Rightarrow> 'd \<Rightarrow> string \<Rightarrow> u64 \<Rightarrow> (string \<times> bool \<times> err) option" where
  "GetAncestorHashAtHeight L J blockHash d cur targetHeight =
     (case GetBlockByHash L J d cur of
        (b, ok, err) \<Rightarrow>
          if err \<noteq> None then Some ([], False, err)
          else if \<not> ok then Some ([], False, None)
          else if bh_Height (b_Header b) = targetHeight then Some (Hash_String (blockHash b), True, None)
          else if bh_Height (b_Header b) < targetHeight then Some ([], False, None)
          else if bh_Height (b_Header b) = 0 then Some ([], False, None)
          else GetAncestorHashAtHeight L J blockHash d (Hash_String (bh_PrevHash (b_Header b))) targetHeight)"

partial_function (option) GetHeaderAncestorHashAtHeight ::
  "'d leveldb \<Rightarrow> block_header codec \<Rightarrow> 'd \<Rightarrow> string \<Rightarrow> u64 \<Rightarrow> (string \<times> bool \<times> err) option" where
  "GetHeaderAncestorHashAtHeight L J d cur targetHeight =
     (case GetHeaderByHash L J d cur of
        (hdr, ok, err) \<Rightarrow>
          if err \<noteq> None then Some ([], False, err)
          else if \<not> ok then Some ([], False, None)
          else if bh_Height hdr = targetHeight then Some (cur, True, None)
          else if bh_Height hdr < targetHeight then Some ([], False, None)
          else if bh_Height hdr = 0 then Some ([], False, None)
          else GetHeaderAncestorHashAtHeight L J d (Hash_String (bh_PrevHash hdr)) targetHeight)"

section \<open>Finality records: \<^verbatim>\<open>finality.go\<close>, \<^verbatim>\<open>finality_finalized*.go\<close>, \<^verbatim>\<open>checkpoints.go\<close>, \<^verbatim>\<open>finality_votes.go\<close>\<close>

text \<open>
  \<^verbatim>\<open>finality.go\<close> and \<^verbatim>\<open>finality_finalized_hash.go\<close> both declare \<^verbatim>\<open>keyFinalizedHash\<close>,
  with different values; the first is \<open>keyFinalizedHash_meta\<close>. \<^verbatim>\<open>PutCheckpoint\<close> and
  \<^verbatim>\<open>keyCheckpoint\<close> are declared twice with the same body.
\<close>

record checkpoint =
  cp_Height :: u64
  cp_HashHex :: string
  cp_TimeUnix :: int

definition zero_checkpoint :: checkpoint where
  "zero_checkpoint = \<lparr>cp_Height = 0, cp_HashHex = [], cp_TimeUnix = 0\<rparr>"

definition keyFinalizedHeight :: bytes where "keyFinalizedHeight = ''meta:finalized_height''"
definition keyFinalizedHash_meta :: bytes where "keyFinalizedHash_meta = ''meta:finalized_hash''"

definition keyCheckpoint :: "u64 \<Rightarrow> bytes" where
  "keyCheckpoint height = ''finality:checkpoint:'' @ dec_u64 height"

definition GetFinalized :: "'d leveldb \<Rightarrow> u64 codec \<Rightarrow> 'd \<Rightarrow> u64 \<times> string \<times> bool \<times> err" where
  "GetFinalized L J d =
     (case db_lookup L d keyFinalizedHeight of
        (Some hb, _) \<Rightarrow>
          (case jc_Unmarshal J hb of
             (_, Some e) \<Rightarrow> (0, [], False, Some e)
           | (height, None) \<Rightarrow>
               (case ldb_Get L d keyFinalizedHash_meta of
                  Inl e \<Rightarrow> (0, [], False, Some e)
                | Inr hh \<Rightarrow> (height, hh, True, None)))
      | (None, e) \<Rightarrow> (0, [], False, e))"

definition PutFinalized :: "'d leveldb \<Rightarrow> u64 codec \<Rightarrow> 'd \<Rightarrow> u64 \<Rightarrow> string \<Rightarrow> err \<times> 'd" where
  "PutFinalized L J d height hashHex =
     (case ldb_Put L d keyFinalizedHeight (marshal_or_nil J height) of
        (Some e, d) \<Rightarrow> (Some e, d)
      | (None, d) \<Rightarrow> ldb_Put L d keyFinalizedHash_meta hashHex)"

definition PutCheckpoint :: "'d leveldb \<Rightarrow> checkpoint codec \<Rightarrow> 'd \<Rightarrow> u64 \<Rightarrow> checkpoint \<Rightarrow> err \<times> 'd" where
  "PutCheckpoint L J d height cp = put_json L J d (keyCheckpoint height) cp"

definition GetCheckpoint :: "'d leveldb \<Rightarrow> checkpoint codec \<Rightarrow> 'd \<Rightarrow> u64 \<Rightarrow> checkpoint \<times> bool \<times> err" where
  "GetCheckpoint L J d height = get_json L J zero_checkpoint d (keyCheckpoint height)"

definition ListCheckpoints :: "'d leveldb \<Rightarrow> checkpoint codec \<Rightarrow> 'd \<Rightarrow> int \<Rightarrow> checkpoint list \<times> err" where
  "ListCheckpoints L J d limit = list_prefix L J d ''finality:checkpoint:'' (clamp_limit limit 5000)"

definition keyFinalized :: bytes where "keyFinalized = ''finality:finalized_height''"
definition keyFinalizedHash :: bytes where "keyFinalizedHash = ''finality:finalized_hash''"

definition GetFinalizedHeight :: "'d leveldb \<Rightarrow> 'd \<Rightarrow> u64 \<times> bool \<times> err" where
  "GetFinalizedHeight L d = get_u64_8 L d keyFinalized"

definition SetFinalizedHeight :: "'d leveldb \<Rightarrow> 'd \<Rightarrow> u64 \<Rightarrow> err \<times> 'd" where
  "SetFinalizedHeight L d h = put_u64 L d keyFinalized h"

definition GetFinalizedHash :: "'d leveldb \<Rightarrow> 'd \<Rightarrow> string \<times> bool \<times> err" where
  "GetFinalizedHash L d = get_string L d keyFinalizedHash"

definition SetFinalizedHash :: "'d leveldb \<Rightarrow> 'd \<Rightarrow> string \<Rightarrow> err \<times> 'd" where
  "SetFinalizedHash L d hash = ldb_Put L d keyFinalizedHash hash"

record vote_record =
  vr_Height :: u64
  vr_BlockHash :: string
  vr_ChainID :: string
  vr_PubkeyHex :: string
  vr_SigHex :: string
  vr_TimeUnix :: int

definition keyVote :: "u64 \<Rightarrow> string \<Rightarrow> bytes" where
  "keyVote height pubkeyHex = ''finality:vote:'' @ dec_u64 height @ '':'' @ pubkeyHex"

definition PutVote :: "'d leveldb \<Rightarrow> vote_record codec \<Rightarrow> 'd \<Rightarrow> vote_record \<Rightarrow> err \<times> 'd" where
  "PutVote L J d v = put_json L J d (keyVote (vr_Height v) (vr_PubkeyHex v)) v"

definition has_key :: "'d leveldb \<Rightarrow> 'd \<Rightarrow> bytes \<Rightarrow> bool \<times> err" where
  "has_key L d k = (case db_lookup L d k of (Some _, _) \<Rightarrow> (True, None) | (None, e) \<Rightarrow> (False, e))"

definition HasVote :: "'d leveldb \<Rightarrow> 'd \<Rightarrow> u64 \<Rightarrow> string \<Rightarrow> bool \<times> err" where
  "HasVote L d height pubkeyHex = has_key L d (keyVote height pubkeyHex)"

text \<open>This list has no limit: the limit given to \<open>list_prefix\<close> is out of reach.\<close>

fun list_json_all :: "'a codec \<Rightarrow> bytes list \<Rightarrow> 'a list \<Rightarrow> error + 'a list" where
  "list_json_all J [] out = Inr out"
| "list_json_all J (v # vs) out =
     (case jc_Unmarshal J v of (x, Some e) \<Rightarrow> Inl e | (x, None) \<Rightarrow> list_json_all J vs (out @ [x]))"

definition ListVotesForHeight :: "'d leveldb \<Rightarrow> vote_record codec \<Rightarrow> 'd \<Rightarrow> u64 \<Rightarrow> vote_record list \<times> err" where
  "ListVotesForHeight L J d height =
     (case ldb_Iter L d (''finality:vote:'' @ dec_u64 height @ '':'') of
        (ents, e) \<Rightarrow>
          (case list_json_all J (map snd ents) [] of
             Inl e \<Rightarrow> ([], Some e)
           | Inr out \<Rightarrow> (case e of Some e \<Rightarrow> ([], Some e) | None \<Rightarrow> (out, None))))"

section \<open>The validator registry: \<^verbatim>\<open>pos_validators.go\<close>\<close>

record validator_rec =
  va_PubkeyHex :: string
  va_Name :: string
  va_Weight :: int
  va_AddedUnix :: int
  va_Slashed :: bool

definition zero_validator :: validator_rec where
  "zero_validator = \<lparr>va_PubkeyHex = [], va_Name = [], va_Weight = 0, va_AddedUnix = 0, va_Slashed = False\<rparr>"

definition keyValidator :: "string \<Rightarrow> bytes" where
  "keyValidator pub = ''pos:validator:'' @ pub"

definition PutValidator :: "'d leveldb \<Rightarrow> validator_rec codec \<Rightarrow> int \<Rightarrow> 'd \<Rightarrow> validator_rec \<Rightarrow> err \<times> 'd" where
  "PutValidator L J now d v =
     (let v = (if va_AddedUnix v = 0 then v\<lparr>va_AddedUnix := now\<rparr> else v)
      in put_json L J d (keyValidator (va_PubkeyHex v)) v)"

definition GetValidator :: "'d leveldb \<Rightarrow> validator_rec codec \<Rightarrow> 'd \<Rightarrow> string \<Rightarrow> validator_rec \<times> bool \<times> err" where
  "GetValidator L J d pub = get_json L J zero_validator d (keyValidator pub)"

definition ListValidators :: "'d leveldb \<Rightarrow> validator_rec codec \<Rightarrow> 'd \<Rightarrow> int \<Rightarrow> validator_rec list \<times> err" where
  "ListValidators L J d limit = list_prefix L J d ''pos:validator:'' (clamp_limit limit 5000)"

definition SlashValidator :: "'d leveldb \<Rightarrow> validator_rec codec \<Rightarrow> int \<Rightarrow> 'd \<Rightarrow> string \<Rightarrow> err \<times> 'd" where
  "SlashValidator L J now d pub =
     (case GetValidator L J d pub of
        (v, ok, Some e) \<Rightarrow> (Some e, d)
      | (v, ok, None) \<Rightarrow>
          (let v = (if \<not> ok then \<lparr>va_PubkeyHex = pub, va_Name = ''unknown'', va_Weight = 0, va_AddedUnix = 0,
                                   va_Slashed = False\<rparr> else v)
           in PutValidator L J now d (v\<lparr>va_Slashed := True\<rparr>)))"


section \<open>Walking parent links\<close>

text \<open>
  The two walks share a contract. \<open>look c\<close> is what the store says of \<open>c\<close>: its height, the name the
  walk returns for it and its parent, or an error. \<open>anc look c a\<close>: \<open>a\<close> is reached from \<open>c\<close> by parent
  links, none of them leaving a block of height 0. \<open>descending\<close>: a parent is lower than its child.
\<close>

inductive anc :: "(string \<Rightarrow> (u64 \<times> string \<times> string) option \<times> err) \<Rightarrow> string \<Rightarrow> string \<Rightarrow> bool"
  for look where
  anc_refl: "anc look c c"
| anc_step: "look c = (Some (h, r, p), None) \<Longrightarrow> h \<noteq> 0 \<Longrightarrow> anc look p a \<Longrightarrow> anc look c a"

definition descending :: "(string \<Rightarrow> (u64 \<times> string \<times> string) option \<times> err) \<Rightarrow> bool" where
  "descending look \<longleftrightarrow>
     (\<forall>c h r p h' r' p'. look c = (Some (h, r, p), None) \<longrightarrow> h \<noteq> 0 \<longrightarrow>
        look p = (Some (h', r', p'), None) \<longrightarrow> h' < h)"

text \<open>Everything on the way to a known block is known.\<close>

lemma anc_known:
  assumes "anc look c a" "look a = (Some x, None)"
  shows "\<exists>h r p. look c = (Some (h, r, p), None)"
  using assms by cases (cases x; auto)+

lemma anc_height_le:
  assumes "anc look c a" "descending look" "look c = (Some (h, r, p), None)" "look a = (Some (h', r', p'), None)"
  shows "h' \<le> h"
  using assms
proof (induction arbitrary: h r p)
  case (anc_refl c)
  then show ?case by simp
next
  case (anc_step c h0 r0 p0 a)
  then have eq: "h0 = h" "p0 = p" by simp_all
  from anc_known [OF anc_step.hyps(3) anc_step.prems(3)] obtain h1 r1 p1
    where look: "look p = (Some (h1, r1, p1), None)" unfolding eq by blast
  then have "h1 < h" using anc_step.prems(1,2) anc_step.hyps(2) unfolding descending_def eq by blast
  moreover have "h' \<le> h1" using anc_step.IH look anc_step.prems unfolding eq by blast
  ultimately show ?case by simp
qed

locale parent_walk =
  fixes look :: "string \<Rightarrow> (u64 \<times> string \<times> string) option \<times> err"
    and walk :: "string \<Rightarrow> u64 \<Rightarrow> (string \<times> bool \<times> err) option"
  assumes walk_unfold:
    "walk c t =
       (case look c of
          (_, Some e) \<Rightarrow> Some ([], False, Some e)
        | (None, None) \<Rightarrow> Some ([], False, None)
        | (Some (h, r, p), None) \<Rightarrow>
            if h = t then Some (r, True, None)
            else if h < t then Some ([], False, None)
            else if h = 0 then Some ([], False, None)
            else walk p t)"
begin

text \<open>On descending links the walk ends, whatever the store answers.\<close>

lemma walk_returns:
  assumes "descending look"
  shows "\<exists>r ok e. walk c t = Some (r, ok, e)"
proof (cases "\<exists>h r p. look c = (Some (h, r, p), None)")
  case False
  then show ?thesis by (subst walk_unfold) (auto split: option.split prod.split)
next
  case True
  then obtain h r p where "look c = (Some (h, r, p), None)" by auto
  then show ?thesis
  proof (induction "unat h" arbitrary: c h r p rule: less_induct)
    case less
    have "\<exists>r ok e. walk p t = Some (r, ok, e)" if "h \<noteq> 0"
    proof (cases "\<exists>h' r' p'. look p = (Some (h', r', p'), None)")
      case True
      then obtain h' r' p' where look: "look p = (Some (h', r', p'), None)" by auto
      then have "h' < h" using assms less.prems that unfolding descending_def by blast
      then show ?thesis using less.hyps look by (simp add: word_less_nat_alt)
    next
      case False
      then show ?thesis by (subst walk_unfold) (auto split: option.split prod.split)
    qed
    with less.prems show ?case by (subst walk_unfold) auto
  qed
qed

text \<open>Where it finds a block, that block is an ancestor at the height asked for.\<close>

lemma walk_sound:
  assumes "descending look" "walk c t = Some (r, True, e)"
  shows "e = None \<and> (\<exists>a p. anc look c a \<and> look a = (Some (t, r, p), None))"
proof (cases "\<exists>h r p. look c = (Some (h, r, p), None)")
  case False
  then show ?thesis using assms(2) by (subst (asm) walk_unfold) (auto split: option.splits prod.splits)
next
  case True
  then obtain h r0 p where "look c = (Some (h, r0, p), None)" by auto
  then show ?thesis using assms(2)
  proof (induction "unat h" arbitrary: c h r0 p rule: less_induct)
    case less
    show ?case
    proof (cases "h = t \<or> h < t \<or> h = 0")
      case True
      then show ?thesis using less.prems by (subst (asm) walk_unfold) (auto intro: anc_refl split: if_splits)
    next
      case False
      then have walk: "walk p t = Some (r, True, e)"
        using less.prems by (subst (asm) walk_unfold) (auto split: if_splits)
      then obtain h' r' p' where look: "look p = (Some (h', r', p'), None)"
        by (subst (asm) walk_unfold) (auto split: option.splits prod.splits)
      then have "h' < h" using assms(1) less.prems False unfolding descending_def by blast
      then have "e = None \<and> (\<exists>a q. anc look p a \<and> look a = (Some (t, r, q), None))"
        using less.hyps look walk by (simp add: word_less_nat_alt)
      then show ?thesis using anc_step [of look c h r0 p] less.prems(1) False by blast
    qed
  qed
qed

text \<open>And an ancestor at that height is found.\<close>

lemma walk_complete:
  assumes "anc look c a" "descending look" "look a = (Some (t, r, p), None)"
  shows "walk c t = Some (r, True, None)"
  using assms
proof induction
  case (anc_refl c)
  then show ?case by (subst walk_unfold) simp
next
  case (anc_step c h r0 p0 a)
  from anc_known [OF anc_step.hyps(3) anc_step.prems(2)] obtain h1 r1 p1
    where look: "look p0 = (Some (h1, r1, p1), None)" by blast
  then have "h1 < h" using anc_step.prems(1) anc_step.hyps unfolding descending_def by blast
  moreover have "t \<le> h1" using anc_height_le [OF anc_step.hyps(3) anc_step.prems(1) look anc_step.prems(2)] .
  ultimately have "t < h" by simp
  moreover have "walk p0 t = Some (r, True, None)" using anc_step by blast
  ultimately show ?case using anc_step.hyps by (subst walk_unfold) auto
qed

end


definition hdr_look :: "'d leveldb \<Rightarrow> block_header codec \<Rightarrow> 'd \<Rightarrow> string \<Rightarrow> (u64 \<times> string \<times> string) option \<times> err" where
  "hdr_look L J d c =
     (case GetHeaderByHash L J d c of
        (hdr, ok, e) \<Rightarrow> (if ok then Some (bh_Height hdr, c, Hash_String (bh_PrevHash hdr)) else None, e))"

definition blk_look ::
  "'d leveldb \<Rightarrow> block codec \<Rightarrow> (block \<Rightarrow> hash) \<Rightarrow> 'd \<Rightarrow> string \<Rightarrow> (u64 \<times> string \<times> string) option \<times> err" where
  "blk_look L J blockHash d c =
     (case GetBlockByHash L J d c of
        (b, ok, e) \<Rightarrow>
          (if ok then Some (bh_Height (b_Header b), Hash_String (blockHash b), Hash_String (bh_PrevHash (b_Header b)))
           else None, e))"

interpretation hdr_walk: parent_walk "hdr_look L J d" "GetHeaderAncestorHashAtHeight L J d" for L J d
proof
  show "GetHeaderAncestorHashAtHeight L J d c t = (case hdr_look L J d c of
          (_, Some e) \<Rightarrow> Some ([], False, Some e)
        | (None, None) \<Rightarrow> Some ([], False, None)
        | (Some (h, r, p), None) \<Rightarrow>
            if h = t then Some (r, True, None)
            else if h < t then Some ([], False, None)
            else if h = 0 then Some ([], False, None)
            else GetHeaderAncestorHashAtHeight L J d p t)" for c t
    by (subst GetHeaderAncestorHashAtHeight.simps) (auto simp: hdr_look_def split: prod.split option.split)
qed

interpretation blk_walk: parent_walk "blk_look L J blockHash d" "GetAncestorHashAtHeight L J blockHash d"
  for L J blockHash d
proof
  show "GetAncestorHashAtHeight L J blockHash d c t = (case blk_look L J blockHash d c of
          (_, Some e) \<Rightarrow> Some ([], False, Some e)
        | (None, None) \<Rightarrow> Some ([], False, None)
        | (Some (h, r, p), None) \<Rightarrow>
            if h = t then Some (r, True, None)
            else if h < t then Some ([], False, None)
            else if h = 0 then Some ([], False, None)
            else GetAncestorHashAtHeight L J blockHash d p t)" for c t
    by (subst GetAncestorHashAtHeight.simps) (auto simp: blk_look_def split: prod.split option.split)
qed

text \<open>
  C24. The search for the ancestor of a header at a given height, in a store where a parent is
  lower than its child: it ends, and it returns a hash exactly when that hash is reached from the
  tip by parent links and its header has that height.
\<close>

theorem header_ancestor_spec:
  assumes "descending (hdr_look L J d)"
  shows "(\<exists>r ok e. GetHeaderAncestorHashAtHeight L J d tip t = Some (r, ok, e)) \<and>
    (GetHeaderAncestorHashAtHeight L J d tip t = Some (r, True, None) \<longleftrightarrow>
       anc (hdr_look L J d) tip r \<and> (\<exists>hdr. GetHeaderByHash L J d r = (hdr, True, None) \<and> bh_Height hdr = t))"
proof (intro conjI iffI)
  show "\<exists>r ok e. GetHeaderAncestorHashAtHeight L J d tip t = Some (r, ok, e)"
    by (rule hdr_walk.walk_returns [OF assms])
next
  assume "GetHeaderAncestorHashAtHeight L J d tip t = Some (r, True, None)"
  from hdr_walk.walk_sound [OF assms this] obtain a p where
    a: "anc (hdr_look L J d) tip a" "hdr_look L J d a = (Some (t, r, p), None)" by blast
  then have "a = r" "\<exists>hdr. GetHeaderByHash L J d a = (hdr, True, None) \<and> bh_Height hdr = t"
    by (auto simp: hdr_look_def split: prod.splits if_splits)
  with a show "anc (hdr_look L J d) tip r" "\<exists>hdr. GetHeaderByHash L J d r = (hdr, True, None) \<and> bh_Height hdr = t"
    by auto
next
  assume "anc (hdr_look L J d) tip r \<and> (\<exists>hdr. GetHeaderByHash L J d r = (hdr, True, None) \<and> bh_Height hdr = t)"
  then obtain hdr where "anc (hdr_look L J d) tip r" "GetHeaderByHash L J d r = (hdr, True, None)" "bh_Height hdr = t"
    by blast
  then show "GetHeaderAncestorHashAtHeight L J d tip t = Some (r, True, None)"
    by (intro hdr_walk.walk_complete [OF _ assms]) (auto simp: hdr_look_def)
qed


text \<open>A codec given by a table, with which statements about stored values are evaluated.\<close>

definition table_codec :: "'a \<Rightarrow> (bytes \<times> 'a) list \<Rightarrow> 'a codec" where
  "table_codec z tab = \<lparr>
     jc_Marshal = (\<lambda>x. case find (\<lambda>(b, y). y = x) tab of None \<Rightarrow> Inl (Err ''marshal'') | Some (b, _) \<Rightarrow> Inr b),
     jc_Unmarshal = (\<lambda>b. case map_of tab b of None \<Rightarrow> (z, Some (Err ''unmarshal'')) | Some x \<Rightarrow> (x, None))\<rparr>"

definition sample_headers :: "block_header codec" where
  "sample_headers = table_codec zero_header
     [(''g'', zero_header), (''h'', zero_header\<lparr>bh_Height := 1\<rparr>)]"

definition sample_header_store :: "(bytes \<times> bytes) list" where
  "sample_header_store = [(keyHdrHash (Hash_String zero_hash), ''g''), (keyHdrHash ''tip'', ''h'')]"

lemma sample_header_lookup:
  "GetHeaderByHash alist_db sample_headers sample_header_store c =
     (if c = Hash_String zero_hash then (zero_header, True, None)
      else if c = ''tip'' then (zero_header\<lparr>bh_Height := 1\<rparr>, True, None)
      else (zero_header, False, None))"
  by (simp add: GetHeaderByHash_def db_lookup_eq [OF alist_db_laws] sample_header_store_def keyHdrHash_def
      sample_headers_def table_codec_def)

lemma sample_header_prev: "bh_PrevHash zero_header = zero_hash" "bh_Height zero_header = 0"
  by (simp_all add: zero_header_def)

theorem header_ancestor_spec_witness:
  "GetHeaderAncestorHashAtHeight alist_db sample_headers sample_header_store ''tip'' 0
     = Some (Hash_String zero_hash, True, None)"
proof -
  have n: "Hash_String zero_hash \<noteq> ''tip''" by code_simp
  let ?look = "hdr_look alist_db sample_headers sample_header_store"
  have desc: "descending ?look"
    by (auto simp: descending_def hdr_look_def sample_header_lookup sample_header_prev split: if_splits)
  have "anc ?look ''tip'' (Hash_String zero_hash)"
    by (rule anc_step [OF _ _ anc_refl, where h = 1])
      (use n in \<open>auto simp: hdr_look_def sample_header_lookup sample_header_prev\<close>)
  then show ?thesis
    using header_ancestor_spec [OF desc, of "''tip''" 0 "Hash_String zero_hash"]
    by (simp add: sample_header_lookup sample_header_prev)
qed


section \<open>The block index\<close>

lemma chain_keys [simp]:
  "keyBlockByHash a \<noteq> keyHashByHeight n" "keyHashByHeight n \<noteq> keyBlockByHash a"
  "keyBlockByHash a = keyBlockByHash b \<longleftrightarrow> a = b"
  by (simp_all add: keyBlockByHash_def keyHashByHeight_def)

lemma keyHashByHeight_inj [simp]: "keyHashByHeight m = keyHashByHeight n \<longleftrightarrow> m = n"
  by (metis Uint64_PutUint64 append_same_eq keyHashByHeight_def option.inject same_append_eq)

lemma PutBlock_view:
  assumes "ldb_laws L V" "jc_Marshal J b = Inr bs"
  shows "fst (PutBlock L J d h n b) = None"
    "V (snd (PutBlock L J d h n b)) = (V d)(keyBlockByHash h \<mapsto> bs, keyHashByHeight n \<mapsto> h)"
  by (simp_all add: PutBlock_def assms(2) ldb_Write_ok [OF assms(1)] ldb_Write_view [OF assms(1)])

text \<open>
  C23. Storing a block in a healthy store: it is read back by its hash and, together with the hash,
  by its height; blocks of other hashes and the index at other heights are as before. So a fork
  block takes over the main-chain index at its height, and the block that was there stays readable
  by hash.
\<close>

theorem PutBlock_roundtrip:
  assumes "ldb_laws L V" "codec_ok J b"
  shows "\<exists>d'. PutBlock L J d h n b = (None, d') \<and> GetBlockByHash L J d' h = (b, True, None) \<and>
    GetBlockByHeight L J d' n = (b, True, h, None) \<and>
    (\<forall>h'. h' \<noteq> h \<longrightarrow> GetBlockByHash L J d' h' = GetBlockByHash L J d h') \<and>
    (\<forall>n'. n' \<noteq> n \<longrightarrow> GetHashByHeight L d' n' = GetHashByHeight L d n')"
proof -
  from assms(2) obtain bs where bs: "jc_Marshal J b = Inr bs" "jc_Unmarshal J bs = (b, None)"
    unfolding codec_ok_def by blast
  let ?d = "snd (PutBlock L J d h n b)"
  note defs = GetBlockByHash_def GetBlockByHeight_def GetHashByHeight_def get_string_def
    db_lookup_eq [OF assms(1)] PutBlock_view(2) [OF assms(1) bs(1)]
  have put: "PutBlock L J d h n b = (None, ?d)"
    using PutBlock_view(1) [OF assms(1) bs(1), of d h n] by (simp add: prod_eq_iff)
  show ?thesis
    by (rule exI [of _ ?d], intro conjI, rule put) (auto simp: defs bs(2))
qed

theorem PutBlock_roundtrip_witness:
  "\<exists>d'. PutBlock alist_db (table_codec zero_block [(''z'', zero_block)]) [] ''aa'' 5 zero_block = (None, d') \<and>
        GetBlockByHeight alist_db (table_codec zero_block [(''z'', zero_block)]) d' 5 = (zero_block, True, ''aa'', None)"
proof -
  have "codec_ok (table_codec zero_block [(''z'', zero_block)]) zero_block"
    by (simp add: codec_ok_def table_codec_def)
  from PutBlock_roundtrip [OF alist_db_laws this, of "[]" "''aa''" 5] show ?thesis by blast
qed

section \<open>Pruning headers\<close>

lemma SplitN_step:
  "CHR '':'' \<notin> set a \<Longrightarrow> SplitN (Suc (Suc n)) (a @ CHR '':'' # s) = a # SplitN (Suc n) s"
  by (simp add: takeWhile_append dropWhile_append)

lemma SplitN_header_key:
  "SplitN 3 (''hdrh:'' @ dec_u64 h @ CHR '':'' # s) = [''hdrh'', dec_u64 h, s]"
proof -
  have c: "CHR '':'' \<notin> set (dec_u64 h)" by (simp add: dec_u64_def dec_nat_no_colon)
  have "SplitN (Suc (Suc (Suc 0))) (''hdrh'' @ CHR '':'' # dec_u64 h @ CHR '':'' # s) = [''hdrh'', dec_u64 h, s]"
    by (subst SplitN_step, simp, subst SplitN_step [OF c]) simp
  then show ?thesis by (simp only: numeral_3_eq_3 append_Cons append_Nil)
qed


lemma parseU64_loop_digit:
  assumes "d < 10"
  shows "parseU64_loop (digit d # s) n = parseU64_loop s (n * 10 + of_nat d)"
proof -
  have d: "\<not> (digit d < CHR ''0'' \<or> digit d > CHR ''9'')"
    using assms by (simp add: less_char_def)
  have "(of_char (digit d) :: int) = int (of_char (digit d))" by (rule of_nat_of_char [symmetric])
  also have "\<dots> = 48 + int d" using assms by (subst of_char_digit) simp_all
  finally have "(of_char (digit d) :: int) - of_char (CHR ''0'') = int d" by simp
  with d show ?thesis by simp
qed

lemma parseU64_loop_append:
  "\<forall>c \<in> set s. \<exists>d < 10. c = digit d \<Longrightarrow> parseU64_loop (s @ t) n = parseU64_loop t (parseU64_loop s n)"
proof (induction s arbitrary: n)
  case (Cons c s)
  then obtain d where "d < 10" "c = digit d" by auto
  with Cons show ?case by (simp add: parseU64_loop_digit del: parseU64_loop.simps)
qed simp

lemma parseU64_dec_nat: "parseU64 (dec_nat n) = of_nat n"
proof (induction n rule: dec_nat.induct)
  case (1 n)
  show ?case
  proof (cases "n < 10")
    case True
    then show ?thesis by (simp add: parseU64_def dec_nat.simps [of n] parseU64_loop_digit del: parseU64_loop.simps(2))
  next
    case False
    have "parseU64 (dec_nat n) = parseU64 (dec_nat (n div 10)) * 10 + of_nat (n mod 10)"
      using False dec_nat_digits
      by (simp add: parseU64_def dec_nat.simps [of n] parseU64_loop_append parseU64_loop_digit
          del: parseU64_loop.simps(2))
    also have "\<dots> = of_nat (n div 10 * 10 + n mod 10)"
      using 1 [OF False] by (simp only: of_nat_add of_nat_mult of_nat_numeral)
    also have "n div 10 * 10 + n mod 10 = n" by (rule div_mult_mod_eq)
    finally show ?thesis .
  qed
qed

lemma parseU64_dec_u64 [simp]: "parseU64 (dec_u64 h) = h"
  by (simp add: dec_u64_def parseU64_dec_nat)

text \<open>The keys the pruning deletes.\<close>

definition pruned :: "u64 \<Rightarrow> bytes \<Rightarrow> bool" where
  "pruned hLimit k \<longleftrightarrow> length (SplitN 3 k) = 3 \<and> parseU64 (SplitN 3 k ! 1) < hLimit"

lemma prune_view:
  assumes "ldb_laws L V"
  shows "V (foldl (\<lambda>d (k, v). let parts = SplitN 3 k
                              in if length parts \<noteq> 3 then d
                                 else if parseU64 (parts ! 1) < hLimit then snd (ldb_Delete L d k) else d) d ents)
    = V d |` (- {k \<in> fst ` set ents. pruned hLimit k})"
proof (induction ents arbitrary: d)
  case (Cons kv ents)
  then show ?case
    by (cases kv) (auto simp: Let_def pruned_def ldb_Delete_view [OF assms] fun_eq_iff restrict_map_def)
qed (simp add: restrict_map_def)

lemma DeleteHeadersBelowHeight_view:
  assumes "ldb_laws L V"
  shows "V (DeleteHeadersBelowHeight L d hLimit) k =
    (if prefix ''hdrh:'' k \<and> pruned hLimit k then None else V d k)"
proof -
  have "fst ` set (fst (ldb_Iter L d ''hdrh:'')) = {k. prefix ''hdrh:'' k \<and> V d k \<noteq> None}"
    by (force simp: ldb_Iter_set [OF assms])
  then show ?thesis
    by (auto simp: DeleteHeadersBelowHeight_def prune_view [OF assms] restrict_map_def)
qed

lemma header_key_pruned:
  assumes "prefix (''hdrh:'' @ dec_u64 h @ '':'') k"
  shows "prefix ''hdrh:'' k \<and> (pruned hLimit k \<longleftrightarrow> h < hLimit)"
proof -
  from assms obtain s where "k = ''hdrh:'' @ dec_u64 h @ CHR '':'' # s" by (auto simp: prefix_def)
  then show ?thesis unfolding pruned_def by (simp only: SplitN_header_key) simp
qed


text \<open>
  Pruning below a height, in a healthy store: no header hash is listed any more at a height
  below the limit, the lists at the other heights are as before, and every key outside the height
  index is kept. In particular a pruned header is still found by its hash.
\<close>

theorem DeleteHeadersBelowHeight_spec:
  assumes "ldb_laws L V"
  shows "ListHeaderHashesAtHeight L (DeleteHeadersBelowHeight L d hLimit) h limit =
      (if h < hLimit then ([], None) else ListHeaderHashesAtHeight L d h limit) \<and>
    (\<not> prefix ''hdrh:'' k \<longrightarrow> V (DeleteHeadersBelowHeight L d hLimit) k = V d k) \<and>
    GetHeaderByHash L J (DeleteHeadersBelowHeight L d hLimit) hash = GetHeaderByHash L J d hash"
proof -
  let ?d = "DeleteHeadersBelowHeight L d hLimit" and ?p = "''hdrh:'' @ dec_u64 h @ '':''"
  note view = DeleteHeadersBelowHeight_view [OF assms]
  have "V ?d (keyHdrHash hash) = V d (keyHdrHash hash)"
    by (simp add: view keyHdrHash_def)
  moreover have "ldb_Iter L ?d ?p = ldb_Iter L d ?p" if "\<not> h < hLimit"
    by (rule ldb_Iter_cong [OF assms]) (use header_key_pruned [of h _ hLimit] that in \<open>simp add: view\<close>)
  moreover have "fst (ldb_Iter L ?d ?p) = []" if "h < hLimit"
  proof -
    have "set (fst (ldb_Iter L ?d ?p)) = {}"
      using header_key_pruned [of h _ hLimit] that by (auto simp: ldb_Iter_set [OF assms] view)
    then show ?thesis by simp
  qed
  ultimately show ?thesis
    using ldb_Iter_ok [OF assms, of ?d ?p]
    by (auto simp: ListHeaderHashesAtHeight_def GetHeaderByHash_def db_lookup_eq [OF assms] view prod_eq_iff
        split: prod.split)
qed

theorem DeleteHeadersBelowHeight_spec_witness:
  "ListHeaderHashesAtHeight alist_db
     (DeleteHeadersBelowHeight alist_db [(keyHdrAtHeight 3 ''aa'', ''x'')] 5) 3 0 = ([], None)"
  using DeleteHeadersBelowHeight_spec [OF alist_db_laws, of "[(keyHdrAtHeight 3 ''aa'', ''x'')]" 5 3 0] by simp

end
