(* ===== verification/NetStore.thy ===== *)
theory NetStore
  imports ChainStore
begin

text \<open>
  The network, fee and participation records of \<^verbatim>\<open>internal/reservestorage\<close>: peers and their
  scores and bans (\<^verbatim>\<open>peers.go\<close>, \<^verbatim>\<open>peerstats.go\<close>, \<^verbatim>\<open>peerstats_list.go\<close>), what was
  exchanged with a peer (\<^verbatim>\<open>peer_getblock.go\<close>, \<^verbatim>\<open>peer_headers_*.go\<close>,
  \<^verbatim>\<open>seen.go\<close>), the persisted mempool (\<^verbatim>\<open>mempool_persist.go\<close>,
  \<^verbatim>\<open>mempool_list.go\<close>), the fee pools (\<^verbatim>\<open>fees.go\<close>) and the participants and scores of
  proof of participation (\<^verbatim>\<open>pop*.go\<close>). The clock is the argument \<open>now\<close>.
\<close>

section \<open>Peers: \<^verbatim>\<open>peers.go\<close>, \<^verbatim>\<open>peerstats.go\<close>, \<^verbatim>\<open>peerstats_list.go\<close>\<close>

record peer =
  pe_Addr :: string
  pe_AddedUnix :: int

definition keyPeer :: "string \<Rightarrow> bytes" where
  "keyPeer addr = ''net:peer:'' @ addr"

definition PutPeer :: "'d leveldb \<Rightarrow> peer codec \<Rightarrow> 'd \<Rightarrow> peer \<Rightarrow> err \<times> 'd" where
  "PutPeer L J d p = put_json L J d (keyPeer (pe_Addr p)) p"

definition ListPeers :: "'d leveldb \<Rightarrow> peer codec \<Rightarrow> 'd \<Rightarrow> int \<Rightarrow> peer list \<times> err" where
  "ListPeers L J d limit = list_prefix L J d ''net:peer:'' (clamp_limit limit 5000)"

definition HasPeer :: "'d leveldb \<Rightarrow> 'd \<Rightarrow> string \<Rightarrow> bool \<times> err" where
  "HasPeer L d addr = has_key L d (keyPeer addr)"

record peer_stat =
  ps_PubkeyHex :: string
  ps_Score :: int
  ps_BannedUntil :: int
  ps_UpdatedUnix :: int

definition zero_peer_stat :: peer_stat where
  "zero_peer_stat = \<lparr>ps_PubkeyHex = [], ps_Score = 0, ps_BannedUntil = 0, ps_UpdatedUnix = 0\<rparr>"

definition keyPeerStat :: "string \<Rightarrow> bytes" where
  "keyPeerStat pub = ''net:peerstat:'' @ pub"

definition GetPeerStat :: "'d leveldb \<Rightarrow> peer_stat codec \<Rightarrow> 'd \<Rightarrow> string \<Rightarrow> peer_stat \<times> bool \<times> err" where
  "GetPeerStat L J d pub =
     (case db_lookup L d (keyPeerStat pub) of
        (Some b, _) \<Rightarrow> (case jc_Unmarshal J b of
                          (ps, Some e) \<Rightarrow> (zero_peer_stat, False, Some e)
                        | (ps, None) \<Rightarrow> (ps, True, None))
      | (None, None) \<Rightarrow> (zero_peer_stat\<lparr>ps_PubkeyHex := pub\<rparr>, False, None)
      | (None, Some e) \<Rightarrow> (zero_peer_stat, False, Some e))"

definition PutPeerStat :: "'d leveldb \<Rightarrow> peer_stat codec \<Rightarrow> int \<Rightarrow> 'd \<Rightarrow> peer_stat \<Rightarrow> err \<times> 'd" where
  "PutPeerStat L J now d ps =
     (let ps = ps\<lparr>ps_UpdatedUnix := now\<rparr> in put_json L J d (keyPeerStat (ps_PubkeyHex ps)) ps)"

definition AddPeerScore :: "'d leveldb \<Rightarrow> peer_stat codec \<Rightarrow> int \<Rightarrow> 'd \<Rightarrow> string \<Rightarrow> int \<Rightarrow> peer_stat \<times> err \<times> 'd" where
  "AddPeerScore L J now d pub delta =
     (case GetPeerStat L J d pub of
        (ps, _, _) \<Rightarrow>
          (let ps = ps\<lparr>ps_PubkeyHex := pub, ps_Score := i64 (ps_Score ps + delta)\<rparr>
           in (ps, None, snd (PutPeerStat L J now d ps))))"

definition BanPeer :: "'d leveldb \<Rightarrow> peer_stat codec \<Rightarrow> int \<Rightarrow> 'd \<Rightarrow> string \<Rightarrow> int \<Rightarrow> err \<times> 'd" where
  "BanPeer L J now d pub seconds =
     (case GetPeerStat L J d pub of
        (ps, _, _) \<Rightarrow> PutPeerStat L J now d (ps\<lparr>ps_PubkeyHex := pub, ps_BannedUntil := i64 (now + seconds)\<rparr>))"

definition IsBanned :: "'d leveldb \<Rightarrow> peer_stat codec \<Rightarrow> int \<Rightarrow> 'd \<Rightarrow> string \<Rightarrow> bool \<times> int" where
  "IsBanned L J now d pub =
     (case GetPeerStat L J d pub of
        (ps, ok, _) \<Rightarrow>
          if \<not> ok then (False, 0)
          else if ps_BannedUntil ps > now then (True, ps_BannedUntil ps) else (False, 0))"

text \<open>Entries that do not decode are skipped.\<close>

fun list_json_skip :: "'a codec \<Rightarrow> nat \<Rightarrow> bytes list \<Rightarrow> 'a list \<Rightarrow> 'a list" where
  "list_json_skip J limit [] out = out"
| "list_json_skip J limit (v # vs) out =
     (case jc_Unmarshal J v of
        (x, Some e) \<Rightarrow> list_json_skip J limit vs out
      | (x, None) \<Rightarrow>
          (let out = out @ [x] in if length out \<ge> limit then out else list_json_skip J limit vs out))"

definition ListPeerStats :: "'d leveldb \<Rightarrow> peer_stat codec \<Rightarrow> 'd \<Rightarrow> int \<Rightarrow> peer_stat list \<times> err" where
  "ListPeerStats L J d limit =
     (case ldb_Iter L d ''net:peerstat:'' of
        (ents, e) \<Rightarrow>
          (let out = list_json_skip J (clamp_limit limit 5000) (map snd ents) []
           in case e of Some e \<Rightarrow> ([], Some e) | None \<Rightarrow> (out, None)))"

definition UnbanPeer :: "'d leveldb \<Rightarrow> peer_stat codec \<Rightarrow> int \<Rightarrow> 'd \<Rightarrow> string \<Rightarrow> err \<times> 'd" where
  "UnbanPeer L J now d pub =
     (case GetPeerStat L J d pub of
        (ps, _, _) \<Rightarrow> PutPeerStat L J now d (ps\<lparr>ps_PubkeyHex := pub, ps_BannedUntil := 0\<rparr>))"

section \<open>Exchanges with a peer: \<^verbatim>\<open>peer_getblock.go\<close>, \<^verbatim>\<open>peer_headers_*.go\<close>, \<^verbatim>\<open>seen.go\<close>\<close>

definition keyPeerGetBlock :: "string \<Rightarrow> string \<Rightarrow> bytes" where
  "keyPeerGetBlock peer hash = ''peergetblk:'' @ peer @ '':'' @ hash"

definition MarkPeerGetBlock :: "'d leveldb \<Rightarrow> int \<Rightarrow> 'd \<Rightarrow> string \<Rightarrow> string \<Rightarrow> 'd" where
  "MarkPeerGetBlock L now d peer hash = snd (put_u64 L d (keyPeerGetBlock peer hash) (u64_of_int now))"

definition PeerGetBlockRecently :: "'d leveldb \<Rightarrow> int \<Rightarrow> 'd \<Rightarrow> string \<Rightarrow> string \<Rightarrow> int \<Rightarrow> bool" where
  "PeerGetBlockRecently L now d peer hash withinSec =
     (case ldb_Get L d (keyPeerGetBlock peer hash) of
        Inl _ \<Rightarrow> False
      | Inr b \<Rightarrow> if length b \<noteq> 8 then False
                 else i64 (now - int_of_u64 (of_int (be_int b))) \<le> withinSec)"

definition keyPeerHdrEnd :: "string \<Rightarrow> bytes" where
  "keyPeerHdrEnd peer = ''peerhdrend:'' @ peer"

definition GetPeerLastHeadersEnd :: "'d leveldb \<Rightarrow> 'd \<Rightarrow> string \<Rightarrow> u64 \<times> bool \<times> err" where
  "GetPeerLastHeadersEnd L d peer = get_u64_8 L d (keyPeerHdrEnd peer)"

definition SetPeerLastHeadersEnd :: "'d leveldb \<Rightarrow> 'd \<Rightarrow> string \<Rightarrow> u64 \<Rightarrow> err \<times> 'd" where
  "SetPeerLastHeadersEnd L d peer end_h = put_u64 L d (keyPeerHdrEnd peer) end_h"

definition keyPeerHdrFrom :: "string \<Rightarrow> bytes" where
  "keyPeerHdrFrom peer = ''peerhdrfrom:'' @ peer"

definition GetPeerLastHeadersFrom :: "'d leveldb \<Rightarrow> 'd \<Rightarrow> string \<Rightarrow> u64 \<times> bool \<times> err" where
  "GetPeerLastHeadersFrom L d peer = get_u64_8 L d (keyPeerHdrFrom peer)"

definition SetPeerLastHeadersFrom :: "'d leveldb \<Rightarrow> 'd \<Rightarrow> string \<Rightarrow> u64 \<Rightarrow> err \<times> 'd" where
  "SetPeerLastHeadersFrom L d peer from_h = put_u64 L d (keyPeerHdrFrom peer) from_h"

definition keySeenTx :: "string \<Rightarrow> bytes" where "keySeenTx i = ''seen:tx:'' @ i"
definition keySeenBlk :: "string \<Rightarrow> bytes" where "keySeenBlk h = ''seen:blk:'' @ h"

definition MarkSeenTx :: "'d leveldb \<Rightarrow> int \<Rightarrow> 'd \<Rightarrow> string \<Rightarrow> 'd" where
  "MarkSeenTx L now d i = snd (put_u64 L d (keySeenTx i) (u64_of_int now))"

definition HasSeenTx :: "'d leveldb \<Rightarrow> 'd \<Rightarrow> string \<Rightarrow> bool" where
  "HasSeenTx L d i = (case ldb_Get L d (keySeenTx i) of Inl _ \<Rightarrow> False | Inr _ \<Rightarrow> True)"

definition MarkSeenBlk :: "'d leveldb \<Rightarrow> int \<Rightarrow> 'd \<Rightarrow> string \<Rightarrow> 'd" where
  "MarkSeenBlk L now d h = snd (put_u64 L d (keySeenBlk h) (u64_of_int now))"

definition HasSeenBlk :: "'d leveldb \<Rightarrow> 'd \<Rightarrow> string \<Rightarrow> bool" where
  "HasSeenBlk L d h = (case ldb_Get L d (keySeenBlk h) of Inl _ \<Rightarrow> False | Inr _ \<Rightarrow> True)"


section \<open>The persisted mempool: \<^verbatim>\<open>mempool_persist.go\<close>, \<^verbatim>\<open>mempool_list.go\<close>\<close>

record stored_tx =
  stx_Origin :: string
  stx_Tx :: tx
  stx_ExpiresUnix :: int

definition keyMempoolTx :: "string \<Rightarrow> bytes" where
  "keyMempoolTx i = ''mempool:tx:'' @ i"

definition PutMempoolTxWithOrigin ::
  "'d leveldb \<Rightarrow> stored_tx codec \<Rightarrow> (bytes \<Rightarrow> hash) \<Rightarrow> int \<Rightarrow> 'd \<Rightarrow> tx \<Rightarrow> int \<Rightarrow> string \<Rightarrow> 'd" where
  "PutMempoolTxWithOrigin L J hash256 now d tx ttlSeconds origin =
     (let m = \<lparr>stx_Origin = origin, stx_Tx = tx, stx_ExpiresUnix = i64 (now + ttlSeconds)\<rparr>
      in snd (ldb_Put L d (keyMempoolTx (Tx_ID hash256 tx)) (marshal_or_nil J m)))"

definition PutMempoolTx :: "'d leveldb \<Rightarrow> stored_tx codec \<Rightarrow> (bytes \<Rightarrow> hash) \<Rightarrow> int \<Rightarrow> 'd \<Rightarrow> tx \<Rightarrow> int \<Rightarrow> 'd" where
  "PutMempoolTx L J hash256 now d tx ttlSeconds =
     (let m = \<lparr>stx_Origin = [], stx_Tx = tx, stx_ExpiresUnix = i64 (now + ttlSeconds)\<rparr>
      in snd (ldb_Put L d (keyMempoolTx (Tx_ID hash256 tx)) (marshal_or_nil J m)))"

definition DelMempoolTx :: "'d leveldb \<Rightarrow> 'd \<Rightarrow> string \<Rightarrow> 'd" where
  "DelMempoolTx L d txid = snd (ldb_Delete L d (keyMempoolTx txid))"

text \<open>Expired entries are deleted on the way, up to where the limit ends the loop.\<close>

fun load_loop :: "'d leveldb \<Rightarrow> stored_tx codec \<Rightarrow> int \<Rightarrow> nat \<Rightarrow> (bytes \<times> bytes) list \<Rightarrow> tx list \<Rightarrow> 'd \<Rightarrow> tx list \<times> 'd" where
  "load_loop L J now limit [] out d = (out, d)"
| "load_loop L J now limit ((k, v) # ents) out d =
     (case jc_Unmarshal J v of
        (_, Some _) \<Rightarrow> load_loop L J now limit ents out d
      | (m, None) \<Rightarrow>
          if stx_ExpiresUnix m \<le> now then load_loop L J now limit ents out (snd (ldb_Delete L d k))
          else let out = out @ [stx_Tx m]
               in if length out \<ge> limit then (out, d) else load_loop L J now limit ents out d)"

definition LoadMempoolTxs :: "'d leveldb \<Rightarrow> stored_tx codec \<Rightarrow> int \<Rightarrow> 'd \<Rightarrow> int \<Rightarrow> tx list \<times> err \<times> 'd" where
  "LoadMempoolTxs L J now d limit =
     (case ldb_Iter L d ''mempool:tx:'' of
        (ents, e) \<Rightarrow>
          (case load_loop L J now (clamp_limit limit 10000) ents [] d of
             (out, d) \<Rightarrow>
               (case e of
                  Some e \<Rightarrow> if \<not> errors_Is e ErrNotFound then ([], Some e, d) else (out, None, d)
                | None \<Rightarrow> (out, None, d))))"

text \<open>The listing decodes into a free-form JSON object: its codec is for any type.\<close>

definition ListPersistedMempool :: "'d leveldb \<Rightarrow> 'j codec \<Rightarrow> 'd \<Rightarrow> int \<Rightarrow> 'j list \<times> err" where
  "ListPersistedMempool L J d limit =
     (case ldb_Iter L d ''mempool:tx:'' of
        (ents, e) \<Rightarrow>
          (let out = take (clamp_limit limit 5000) (map (\<lambda>(k, v). fst (jc_Unmarshal J v)) ents)
           in case e of Some e \<Rightarrow> ([], Some e) | None \<Rightarrow> (out, None)))"

section \<open>Participants and scores: \<^verbatim>\<open>pop.go\<close>, \<^verbatim>\<open>pop_scores.go\<close>, \<^verbatim>\<open>pop_events.go\<close>\<close>

record participant =
  pa_ID :: string
  pa_Weight :: int
  pa_AddedAt :: int

definition zero_participant :: participant where
  "zero_participant = \<lparr>pa_ID = [], pa_Weight = 0, pa_AddedAt = 0\<rparr>"

definition keyParticipant :: "string \<Rightarrow> bytes" where
  "keyParticipant i = ''pop:participant:'' @ i"

definition PutParticipant :: "'d leveldb \<Rightarrow> participant codec \<Rightarrow> 'd \<Rightarrow> participant \<Rightarrow> err \<times> 'd" where
  "PutParticipant L J d p = put_json L J d (keyParticipant (pa_ID p)) p"

definition GetParticipant :: "'d leveldb \<Rightarrow> participant codec \<Rightarrow> 'd \<Rightarrow> string \<Rightarrow> participant \<times> bool \<times> err" where
  "GetParticipant L J d i = get_json L J zero_participant d (keyParticipant i)"

definition ListParticipants :: "'d leveldb \<Rightarrow> participant codec \<Rightarrow> 'd \<Rightarrow> int \<Rightarrow> participant list \<times> err" where
  "ListParticipants L J d limit = list_prefix L J d ''pop:participant:'' (clamp_limit limit 5000)"

text \<open>A number whose absence and whose read error both count as zero; a short value panics.\<close>

definition getU64 :: "'d leveldb \<Rightarrow> 'd \<Rightarrow> bytes \<Rightarrow> (u64 \<times> bool) option" where
  "getU64 L d key = (case ldb_Get L d key of Inr b \<Rightarrow> do { v \<leftarrow> Uint64 b; Some (v, True) } | Inl _ \<Rightarrow> Some (0, False))"

definition addU64 :: "'d leveldb \<Rightarrow> 'd \<Rightarrow> bytes \<Rightarrow> u64 \<Rightarrow> (err \<times> 'd) option" where
  "addU64 L d key add = do { (cur, _) \<leftarrow> getU64 L d key; Some (put_u64 L d key (cur + add)) }"

definition keyScore :: "string \<Rightarrow> bytes" where
  "keyScore i = ''pop:score:'' @ i"

definition GetScore :: "'d leveldb \<Rightarrow> 'd \<Rightarrow> string \<Rightarrow> (u64 \<times> bool) option" where
  "GetScore L d i = getU64 L d (keyScore i)"

definition AddScore :: "'d leveldb \<Rightarrow> 'd \<Rightarrow> string \<Rightarrow> u64 \<Rightarrow> (err \<times> 'd) option" where
  "AddScore L d i delta =
     do { (cur, _) \<leftarrow> GetScore L d i; Some (put_u64 L d (keyScore i) (cur + delta)) }"

definition ResetScores :: "'d leveldb \<Rightarrow> 'd \<Rightarrow> err \<times> 'd" where
  "ResetScores L d = ldb_Write L d (map (\<lambda>(k, v). BatchDelete k) (fst (ldb_Iter L d ''pop:score:'')))"

record pop_event =
  ev_ID :: string
  ev_Type :: string
  ev_Delta :: u64
  ev_TimeUnix :: int

text \<open>\<^verbatim>\<open>%d\<close> of a signed number.\<close>

definition dec_int :: "int \<Rightarrow> string" where
  "dec_int i = (if i < 0 then CHR ''-'' # dec_nat (nat (- i)) else dec_nat (nat i))"

definition PutPoPEvent :: "'d leveldb \<Rightarrow> pop_event codec \<Rightarrow> int \<Rightarrow> 'd \<Rightarrow> pop_event \<Rightarrow> err \<times> 'd" where
  "PutPoPEvent L J now d ev =
     (let ev = (if ev_TimeUnix ev = 0 then ev\<lparr>ev_TimeUnix := now\<rparr> else ev)
      in put_json L J d (''pop:event:'' @ dec_int (ev_TimeUnix ev) @ '':'' @ ev_ID ev @ '':'' @ ev_Type ev) ev)"

section \<open>Fee pools: \<^verbatim>\<open>fees.go\<close>\<close>

definition keyFeePoolValidators :: bytes where "keyFeePoolValidators = ''fees:pool:validators''"
definition keyFeePoolParticipation :: bytes where "keyFeePoolParticipation = ''fees:pool:participation''"
definition keyFeePoolTreasury :: bytes where "keyFeePoolTreasury = ''fees:pool:treasury''"
definition keyFeePoolDefense :: bytes where "keyFeePoolDefense = ''fees:pool:defense''"

definition add_pool :: "'d leveldb \<Rightarrow> bytes \<Rightarrow> u64 \<Rightarrow> 'd \<Rightarrow> 'd option" where
  "add_pool L key x d = (if x > 0 then do { (_, d) \<leftarrow> addU64 L d key x; Some d } else Some d)"

definition AddFeePools :: "'d leveldb \<Rightarrow> 'd \<Rightarrow> u64 \<Rightarrow> u64 \<Rightarrow> u64 \<Rightarrow> u64 \<Rightarrow> (err \<times> 'd) option" where
  "AddFeePools L d v pop tr def =
     do { d \<leftarrow> add_pool L keyFeePoolValidators v d;
          d \<leftarrow> add_pool L keyFeePoolParticipation pop d;
          d \<leftarrow> add_pool L keyFeePoolTreasury tr d;
          d \<leftarrow> add_pool L keyFeePoolDefense def d;
          Some (None, d) }"

definition pool_entry :: "'d leveldb \<Rightarrow> 'd \<Rightarrow> bytes \<Rightarrow> string \<Rightarrow> (string \<rightharpoonup> u64) \<Rightarrow> (string \<rightharpoonup> u64) option" where
  "pool_entry L d key name out = do { (v, ok) \<leftarrow> getU64 L d key; Some (if ok then out(name \<mapsto> v) else out) }"

definition GetFeePools :: "'d leveldb \<Rightarrow> 'd \<Rightarrow> (string \<rightharpoonup> u64) option" where
  "GetFeePools L d =
     do { out \<leftarrow> pool_entry L d keyFeePoolValidators ''validators'' Map.empty;
          out \<leftarrow> pool_entry L d keyFeePoolParticipation ''participation'' out;
          out \<leftarrow> pool_entry L d keyFeePoolTreasury ''treasury'' out;
          pool_entry L d keyFeePoolDefense ''defense'' out }"

definition SetFeePool :: "'d leveldb \<Rightarrow> 'd \<Rightarrow> string \<Rightarrow> u64 \<Rightarrow> err \<times> 'd" where
  "SetFeePool L d name val =
     (if name = ''validators'' then put_u64 L d keyFeePoolValidators val
      else if name = ''participation'' then put_u64 L d keyFeePoolParticipation val
      else if name = ''treasury'' then put_u64 L d keyFeePoolTreasury val
      else if name = ''defense'' then put_u64 L d keyFeePoolDefense val
      else (None, d))"

definition DrainFeePool :: "'d leveldb \<Rightarrow> 'd \<Rightarrow> string \<Rightarrow> u64 \<Rightarrow> (u64 \<times> u64 \<times> err \<times> 'd) option" where
  "DrainFeePool L d name amount =
     do { pools \<leftarrow> GetFeePools L d;
          let cur = (case pools name of Some v \<Rightarrow> v | None \<Rightarrow> 0)
          in if cur = 0 then Some (0, 0, None, d)
             else let amount = (if amount = 0 \<or> amount > cur then cur else amount);
                      remaining = cur - amount
                  in (case SetFeePool L d name remaining of (e, d) \<Rightarrow> Some (amount, remaining, e, d)) }"

end
