(* ===== verification/Ledger.thy ===== *)
theory Ledger
  imports ChainStore Config Crypto Genesis
begin

text \<open>
  What a block does to the accounts: the rules of \<^verbatim>\<open>core/node/block_validate.go\<close> and
  \<^verbatim>\<open>limits_validate.go\<close>, the two simulations of a block (\<^verbatim>\<open>block_validate.go\<close>,
  \<^verbatim>\<open>block_validate_fork.go\<close>), the selection of transactions for a new block
  (\<^verbatim>\<open>block_assemble.go\<close>) and the application to the database (\<^verbatim>\<open>state_apply.go\<close>).

  The simulations work through closures that read and write balances and nonces. They are the
  record \<open>acct_ops\<close>; its contract is the locale \<open>account_view\<close>, in which the simulations are shown
  to compute the abstract ledger \<open>led_txs\<close>.
\<close>

section \<open>The node around a block\<close>

text \<open>
  What the rules read of the node. \<^verbatim>\<open>n.cfg.Issuance.Reward\<close>, \<^verbatim>\<open>mustHex32\<close>,
  \<^verbatim>\<open>hash256\<close> and \<^verbatim>\<open>Block.Hash\<close> are used by the sources and declared by none of them:
  they are fields.
\<close>

record ('p, 's) node_env =
  ne_cfg :: config
  ne_Reward :: int
  ne_genesis :: genesis
  ne_hash256 :: "bytes \<Rightarrow> hash"
  ne_edwards :: "('p, 's) edwards"
  ne_mustHex32 :: "string \<Rightarrow> bytes"
  ne_blockHash :: "block \<Rightarrow> hash"

abbreviation (input) env_txid :: "('p, 's) node_env \<Rightarrow> tx \<Rightarrow> string" where
  "env_txid env \<equiv> Tx_ID (ne_hash256 env)"

text \<open>\<^verbatim>\<open>if tx.Type == "" { tx.Type = "transfer" }\<close>, on the copy the loop variable is.\<close>

definition set_type :: "tx \<Rightarrow> tx" where
  "set_type tx = (if tx_Type tx = [] then tx\<lparr>tx_Type := ''transfer''\<rparr> else tx)"

definition fee_params_of :: "config \<Rightarrow> fee_params" where
  "fee_params_of c = \<lparr>fp_GasAsset = fc_GasAsset (cfg_Fees c), fp_BaseFeeMin = fc_BaseFeeMin (cfg_Fees c),
     fp_PerByte = fc_PerByte (cfg_Fees c), fp_OTAPMultiplier = fc_OTAPMultiplier (cfg_Fees c),
     fp_Mode = fc_Mode (cfg_Fees c)\<rparr>"

definition sum_outs :: "tx_out list \<Rightarrow> int" where
  "sum_outs outs = foldl (\<lambda>t out. i64 (t + o_Amount out)) 0 outs"

definition sumFees :: "tx list \<Rightarrow> int" where
  "sumFees txs = foldl (\<lambda>s tx. if tx_Type tx = ''coinbase'' then s else i64 (s + tx_Fee tx)) 0 txs"

section \<open>Rules without state: \<^verbatim>\<open>ValidateBlockBasic\<close>, \<^verbatim>\<open>ValidateLimits\<close>\<close>

definition ValidateLimits :: "('p, 's) node_env \<Rightarrow> block \<Rightarrow> err" where
  "ValidateLimits env b =
     (let lim = cfg_Limits (ne_cfg env)
      in if li_MaxBlockTxs lim > 0 \<and> int (length (b_Txs b)) > li_MaxBlockTxs lim then Some (Err ''too_many_txs'')
         else if li_MaxBlockBytes lim > 0 \<and> Block_SizeHint b > li_MaxBlockBytes lim
         then Some (Err ''block_too_large'')
         else first_err (\<lambda>tx. if li_MaxTxOutputs lim > 0 \<and> int (length (tx_Outputs tx)) > li_MaxTxOutputs lim
                              then Some (Err ''tx_too_many_outputs'') else None) (b_Txs b))"

definition basic_coinbase :: "('p, 's) node_env \<Rightarrow> block \<Rightarrow> err" where
  "basic_coinbase env b =
     (if is_Enabled (cfg_Issuance (ne_cfg env))
      then (case b_Txs b of
              [] \<Rightarrow> Some (Err ''missing coinbase'')
            | cb # rest \<Rightarrow>
                if tx_Type cb \<noteq> ''coinbase'' then Some (Err ''coinbase must be first'')
                else if list_ex (\<lambda>tx. tx_Type tx = ''coinbase'') rest then Some (Err ''multiple coinbase'')
                else (case tx_Outputs cb of
                        [out] \<Rightarrow> if o_Amount out \<noteq> is_BlockReward (cfg_Issuance (ne_cfg env))
                                 then Some (Err ''bad coinbase amount'') else None
                      | _ \<Rightarrow> Some (Err ''coinbase must have exactly 1 output'')))
      else first_err (\<lambda>tx. if tx_Type tx = ''coinbase'' then Some (Err ''coinbase disabled'') else None) (b_Txs b))"

definition basic_claim :: "('p, 's) node_env \<Rightarrow> tx \<Rightarrow> err" where
  "basic_claim env tx =
     (case tx_OTAPClaim tx of
        None \<Rightarrow> Some (Err ''bad otap_claim'')
      | Some c \<Rightarrow>
          if oc_P c = [] \<or> oc_To c = [] then Some (Err ''bad otap_claim'')
          else if oc_To c \<noteq> tx_From tx then Some (Err ''claim_to must equal from'')
          else if oc_ClaimSigHex c = [] then Some (Err ''missing claim_sig'')
          else (case pt_SetBytes (ne_edwards env) (ne_mustHex32 env (oc_P c)) of
                  None \<Rightarrow> Some (Err ''bad claim P'')
                | Some Ppt \<Rightarrow>
                    if \<not> schnorr_Verify (ne_edwards env) Ppt (SigningBytes tx) (oc_ClaimSigHex c)
                    then Some (Err ''bad claim signature'') else None))"

definition basic_tx :: "('p, 's) node_env \<Rightarrow> tx \<Rightarrow> err" where
  "basic_tx env tx =
     (let tx = set_type tx
      in if tx_Type tx = ''coinbase'' then Some (Err ''coinbase forbidden in non-first position'')
         else let isOTAP = list_ex (\<lambda>out. o_P out \<noteq> [] \<and> o_R out \<noteq> []) (tx_Outputs tx);
                  sz = TxSizeHint (env_txid env tx) (int (length (tx_Outputs tx)));
                  est = EstimateFee sz isOTAP (fee_params_of (ne_cfg env))
              in if tx_Fee tx < est then Some (Err ''tx fee below policy'')
                 else if tx_From tx = [] \<or> tx_PubKey tx = [] \<or> tx_SigHex tx = []
                 then Some (Err ''missing tx signature'')
                 else if tx_From tx \<noteq> tx_PubKey tx then Some (Err ''from/pub mismatch'')
                 else if \<not> sig_Verify (ne_edwards env) (tx_PubKey tx) (tx_SigHex tx) (SigningBytes tx)
                 then Some (Err ''bad tx signature'')
                 else if tx_Type tx = ''otap_claim'' then basic_claim env tx
                 else None)"

text \<open>The coinbase must cover reward and fees; the check closes both validators.\<close>

definition coinbase_covers :: "('p, 's) node_env \<Rightarrow> block \<Rightarrow> err" where
  "coinbase_covers env b =
     (let feeSum = sumFees (b_Txs b)
      in case b_Txs b of
           [] \<Rightarrow> None
         | cb # _ \<Rightarrow>
             if tx_Type cb = ''coinbase'' \<and> sum_outs (tx_Outputs cb) < i64 (ne_Reward env + feeSum)
             then Some (Err ''coinbase_missing_fees'') else None)"

definition ValidateBlockBasic :: "('p, 's) node_env \<Rightarrow> block \<Rightarrow> err" where
  "ValidateBlockBasic env b =
     (case basic_coinbase env b of
        Some e \<Rightarrow> Some e
      | None \<Rightarrow>
          (case first_err (basic_tx env)
                  (drop (if is_Enabled (cfg_Issuance (ne_cfg env)) then 1 else 0) (b_Txs b)) of
             Some e \<Rightarrow> Some e
           | None \<Rightarrow> coinbase_covers env b))"

section \<open>Account closures\<close>

text \<open>
  \<^verbatim>\<open>getBal\<close>, \<^verbatim>\<open>setBal\<close>, \<^verbatim>\<open>getNon\<close>, \<^verbatim>\<open>setNon\<close> over the state they
  capture; \<open>None\<close> is the panic of a database read on a short value.
\<close>

record 'st acct_ops =
  ao_getBal :: "'st \<Rightarrow> string \<Rightarrow> (int \<times> 'st) option"
  ao_setBal :: "'st \<Rightarrow> string \<Rightarrow> int \<Rightarrow> 'st"
  ao_getNon :: "'st \<Rightarrow> string \<Rightarrow> (u64 \<times> 'st) option"
  ao_setNon :: "'st \<Rightarrow> string \<Rightarrow> u64 \<Rightarrow> 'st"

record sim =
  sim_bal :: "string \<rightharpoonup> int"
  sim_non :: "string \<rightharpoonup> u64"

definition empty_sim :: sim where
  "empty_sim = \<lparr>sim_bal = Map.empty, sim_non = Map.empty\<rparr>"

text \<open>The working set over the database, filled on first use.\<close>

definition cached_ops :: "'d leveldb \<Rightarrow> 'd \<Rightarrow> sim acct_ops" where
  "cached_ops L d = \<lparr>
     ao_getBal = (\<lambda>st acct. case sim_bal st acct of
                     Some v \<Rightarrow> Some (v, st)
                   | None \<Rightarrow> do { (v, _, _) \<leftarrow> GetBalance L d acct;
                                  Some (v, st\<lparr>sim_bal := (sim_bal st)(acct \<mapsto> v)\<rparr>) }),
     ao_setBal = (\<lambda>st acct v. st\<lparr>sim_bal := (sim_bal st)(acct \<mapsto> v)\<rparr>),
     ao_getNon = (\<lambda>st acct. case sim_non st acct of
                     Some v \<Rightarrow> Some (v, st)
                   | None \<Rightarrow> do { (v, _, _) \<leftarrow> GetNonce L d acct;
                                  Some (v, st\<lparr>sim_non := (sim_non st)(acct \<mapsto> v)\<rparr>) }),
     ao_setNon = (\<lambda>st acct v. st\<lparr>sim_non := (sim_non st)(acct \<mapsto> v)\<rparr>)\<rparr>"

text \<open>Plain maps, where a missing entry reads as zero.\<close>

definition plain_ops :: "sim acct_ops" where
  "plain_ops = \<lparr>
     ao_getBal = (\<lambda>st acct. Some (case sim_bal st acct of Some v \<Rightarrow> v | None \<Rightarrow> 0, st)),
     ao_setBal = (\<lambda>st acct v. st\<lparr>sim_bal := (sim_bal st)(acct \<mapsto> v)\<rparr>),
     ao_getNon = (\<lambda>st acct. Some (case sim_non st acct of Some v \<Rightarrow> v | None \<Rightarrow> 0, st)),
     ao_setNon = (\<lambda>st acct v. st\<lparr>sim_non := (sim_non st)(acct \<mapsto> v)\<rparr>)\<rparr>"

text \<open>\<^verbatim>\<open>setBal(a, getBal(a)+x)\<close>.\<close>

definition add_bal :: "'st acct_ops \<Rightarrow> string \<Rightarrow> int \<Rightarrow> 'st \<Rightarrow> 'st option" where
  "add_bal A acct x st = do { (v, st) \<leftarrow> ao_getBal A st acct; Some (ao_setBal A st acct (i64 (v + x))) }"

definition otap_bucket :: "string \<Rightarrow> string" where
  "otap_bucket P = ''otap:'' @ P"

text \<open>The loop that credits the outputs of a transfer, the same in the three simulations.\<close>

fun credit_outs :: "'st acct_ops \<Rightarrow> tx_out list \<Rightarrow> 'st \<Rightarrow> 'st option" where
  "credit_outs A [] st = Some st"
| "credit_outs A (out # outs) st =
     do { st \<leftarrow> (if o_Address out \<noteq> [] then add_bal A (o_Address out) (o_Amount out) st
                 else if o_P out \<noteq> [] then add_bal A (otap_bucket (o_P out)) (o_Amount out) st
                 else Some st);
          credit_outs A outs st }"

text \<open>The loop that credits the outputs of a coinbase, whatever their address.\<close>

fun credit_coinbase :: "'st acct_ops \<Rightarrow> tx_out list \<Rightarrow> 'st \<Rightarrow> 'st option" where
  "credit_coinbase A [] st = Some st"
| "credit_coinbase A (out # outs) st =
     do { st \<leftarrow> add_bal A (o_Address out) (o_Amount out) st; credit_coinbase A outs st }"

section \<open>Simulation against the tip: \<^verbatim>\<open>ValidateBlockStateTip\<close>\<close>

definition tip_step :: "'st acct_ops \<Rightarrow> tx \<Rightarrow> 'st \<Rightarrow> (error + 'st) option" where
  "tip_step A tx st =
     (let tx = set_type tx
      in do { (cur, st) \<leftarrow> ao_getNon A st (tx_From tx);
              if tx_Nonce tx \<noteq> cur + 1 then Some (Inl (Err ''bad nonce in block''))
              else let st = ao_setNon A st (tx_From tx) (tx_Nonce tx)
                   in if tx_Type tx = ''otap_claim''
                      then do { c \<leftarrow> tx_OTAPClaim tx;
                                (bBal, st) \<leftarrow> ao_getBal A st (otap_bucket (oc_P c));
                                let need = i64 (oc_Amount c + tx_Fee tx)
                                in if bBal < need then Some (Inl (Err ''insufficient otap bucket''))
                                   else let st = ao_setBal A st (otap_bucket (oc_P c)) (i64 (bBal - need))
                                        in do { st \<leftarrow> add_bal A (oc_To c) (oc_Amount c) st; Some (Inr st) } }
                      else let outTotal = sum_outs (tx_Outputs tx)
                           in do { (fromBal, st) \<leftarrow> ao_getBal A st (tx_From tx);
                                   if fromBal < i64 (outTotal + tx_Fee tx)
                                   then Some (Inl (Err ''insufficient funds''))
                                   else let st = ao_setBal A st (tx_From tx)
                                                   (i64 (fromBal - i64 (outTotal + tx_Fee tx)))
                                        in do { st \<leftarrow> credit_outs A (tx_Outputs tx) st; Some (Inr st) } } })"

text \<open>
  \<open>None\<close> is a panic: a missing coinbase or coinbase output, a claim without its body, a short
  database value.
\<close>

definition ValidateBlockStateTip :: "'d leveldb \<Rightarrow> ('p, 's) node_env \<Rightarrow> 'd \<Rightarrow> block \<Rightarrow> err option" where
  "ValidateBlockStateTip L env d b =
     (let A = cached_ops L d
      in do { (st, txs) \<leftarrow>
                (if is_Enabled (cfg_Issuance (ne_cfg env))
                 then (case b_Txs b of
                         [] \<Rightarrow> None
                       | cb # rest \<Rightarrow>
                           (case tx_Outputs cb of
                              [] \<Rightarrow> None
                            | out # _ \<Rightarrow>
                                do { st \<leftarrow> add_bal A (o_Address out) (o_Amount out) empty_sim; Some (st, rest) }))
                 else Some (empty_sim, b_Txs b));
              r \<leftarrow> foldE (tip_step A) txs st;
              Some (case r of Inl e \<Rightarrow> Some e | Inr _ \<Rightarrow> coinbase_covers env b) })"

text \<open>\<^verbatim>\<open>tx.Type == "otap_claim" && tx.OTAPClaim != nil\<close>, with the claim.\<close>

definition claim_of :: "tx \<Rightarrow> otap_claim option" where
  "claim_of tx = (if tx_Type tx = ''otap_claim'' then tx_OTAPClaim tx else None)"

section \<open>Simulation on a parent: \<^verbatim>\<open>applyBlockToSim\<close>\<close>

definition sim_step :: "'st acct_ops \<Rightarrow> tx \<Rightarrow> 'st \<Rightarrow> (error + 'st) option" where
  "sim_step A tx st =
     (if tx_Type tx = ''coinbase''
      then do { st \<leftarrow> credit_coinbase A (tx_Outputs tx) st; Some (Inr st) }
      else do { (cur, st) \<leftarrow> ao_getNon A st (tx_From tx);
                if tx_Nonce tx \<noteq> cur + 1 then Some (Inl (Err ''bad_nonce''))
                else (case claim_of tx of
                        Some c \<Rightarrow>
                          (let need = i64 (oc_Amount c + tx_Fee tx)
                           in do { (bb, st) \<leftarrow> ao_getBal A st (otap_bucket (oc_P c));
                                   if bb < need then Some (Inl (Err ''insufficient_otap_bucket''))
                                   else let st = ao_setBal A st (otap_bucket (oc_P c)) (i64 (bb - need))
                                        in do { st \<leftarrow> add_bal A (oc_To c) (oc_Amount c) st;
                                                Some (Inr (ao_setNon A st (tx_From tx) (tx_Nonce tx))) } })
                      | None \<Rightarrow>
                          (let outTotal = sum_outs (tx_Outputs tx)
                           in do { (bal, st) \<leftarrow> ao_getBal A st (tx_From tx);
                                   let need = i64 (outTotal + tx_Fee tx)
                                   in if bal < need then Some (Inl (Err ''insufficient_funds''))
                                      else let st = ao_setBal A st (tx_From tx) (i64 (bal - need));
                                               st = ao_setNon A st (tx_From tx) (tx_Nonce tx)
                                           in do { st \<leftarrow> credit_outs A (tx_Outputs tx) st; Some (Inr st) } })) })"

definition applyBlockToSim ::
  "('p, 's) node_env \<Rightarrow> 'st acct_ops \<Rightarrow> block \<Rightarrow> 'st \<Rightarrow> (error + 'st) option" where
  "applyBlockToSim env A b st =
     (case ValidateLimits env b of
        Some e \<Rightarrow> Some (Inl e)
      | None \<Rightarrow>
          (case ValidateBlockBasic env b of
             Some e \<Rightarrow> Some (Inl e)
           | None \<Rightarrow> foldE (sim_step A) (b_Txs b) st))"


section \<open>Selection for a new block: \<^verbatim>\<open>FilterTxsBySimState\<close>\<close>

definition tx_before :: "('p, 's) node_env \<Rightarrow> tx \<Rightarrow> tx \<Rightarrow> bool" where
  "tx_before env a b = (if tx_Fee a \<noteq> tx_Fee b then tx_Fee a > tx_Fee b else env_txid env a < env_txid env b)"

definition filter_step :: "'st acct_ops \<Rightarrow> tx \<Rightarrow> 'st \<times> tx list \<Rightarrow> ('st \<times> tx list) option" where
  "filter_step A tx s =
     (let (st, out) = s
      in if tx_Type tx = ''coinbase''
         then do { st \<leftarrow> credit_coinbase A (tx_Outputs tx) st; Some (st, out @ [tx]) }
         else do { (cur, st) \<leftarrow> ao_getNon A st (tx_From tx);
                   if tx_Nonce tx \<noteq> cur + 1 then Some (st, out)
                   else (case claim_of tx of
                           Some c \<Rightarrow>
                             do { (bb, st) \<leftarrow> ao_getBal A st (otap_bucket (oc_P c));
                                  let need = i64 (oc_Amount c + tx_Fee tx)
                                  in if bb < need then Some (st, out)
                                     else let st = ao_setBal A st (otap_bucket (oc_P c)) (i64 (bb - need))
                                          in do { st \<leftarrow> add_bal A (oc_To c) (oc_Amount c) st;
                                                  Some (ao_setNon A st (tx_From tx) (tx_Nonce tx), out @ [tx]) } }
                         | None \<Rightarrow>
                             (let outTotal = sum_outs (tx_Outputs tx)
                              in do { (bal, st) \<leftarrow> ao_getBal A st (tx_From tx);
                                      let need = i64 (outTotal + tx_Fee tx)
                                      in if bal < need then Some (st, out)
                                         else let st = ao_setBal A st (tx_From tx) (i64 (bal - need));
                                                  st = ao_setNon A st (tx_From tx) (tx_Nonce tx)
                                              in do { st \<leftarrow> credit_outs A (tx_Outputs tx) st;
                                                      Some (st, out @ [tx]) } })) })"

fun filter_loop :: "'st acct_ops \<Rightarrow> tx list \<Rightarrow> 'st \<times> tx list \<Rightarrow> ('st \<times> tx list) option" where
  "filter_loop A [] s = Some s"
| "filter_loop A (tx # txs) s = do { s \<leftarrow> filter_step A tx s; filter_loop A txs s }"

text \<open>
  \<^verbatim>\<open>sort.Slice\<close> leaves the order of elements that are not before each other open: it is the
  argument \<open>sortSlice\<close>.
\<close>

definition FilterTxsBySimState ::
  "'d leveldb \<Rightarrow> ('p, 's) node_env \<Rightarrow> ((tx \<Rightarrow> tx \<Rightarrow> bool) \<Rightarrow> tx list \<Rightarrow> tx list) \<Rightarrow> 'd \<Rightarrow> tx list \<Rightarrow> tx list option" where
  "FilterTxsBySimState L env sortSlice d txs =
     (let txs = sortSlice (tx_before env) txs
      in do { (_, out) \<leftarrow> filter_loop (cached_ops L d) txs (empty_sim, []); Some out })"

section \<open>Application to the database: \<^verbatim>\<open>applyBlockTxs\<close>\<close>

text \<open>
  A failing call leaves the function with its error; what was written before stays written, so
  the error comes with the store.
\<close>

definition apply_add :: "'d leveldb \<Rightarrow> 'd \<Rightarrow> string \<Rightarrow> int \<Rightarrow> ((error \<times> 'd) + 'd) option" where
  "apply_add L d acct delta =
     do { (_, e, d) \<leftarrow> AddBalance L d acct delta; Some (case e of Some e \<Rightarrow> Inl (e, d) | None \<Rightarrow> Inr d) }"

definition apply_credit :: "'d leveldb \<Rightarrow> tx_out \<Rightarrow> 'd \<Rightarrow> ((error \<times> 'd) + 'd) option" where
  "apply_credit L out d =
     (if o_Address out \<noteq> [] then apply_add L d (o_Address out) (o_Amount out)
      else if o_P out \<noteq> [] then apply_add L d (otap_bucket (o_P out)) (o_Amount out)
      else Some (Inr d))"

definition apply_tx ::
  "'d leveldb \<Rightarrow> tx codec \<Rightarrow> ('p, 's) node_env \<Rightarrow> tx \<Rightarrow> 'd \<Rightarrow> ((error \<times> 'd) + 'd) option" where
  "apply_tx L J env tx d =
     (let d = snd (PutTx L J (ne_hash256 env) d tx);
          tx = set_type tx
      in case claim_of tx of
           Some c \<Rightarrow>
             (let d = snd (SetNonce L d (tx_From tx) (tx_Nonce tx))
              in bindE (apply_add L d (otap_bucket (oc_P c)) (i64 (- i64 (oc_Amount c + tx_Fee tx))))
                   (\<lambda>d. apply_add L d (oc_To c) (oc_Amount c)))
         | None \<Rightarrow>
             (let outTotal = sum_outs (tx_Outputs tx)
              in bindE (if tx_From tx \<noteq> []
                        then bindE (apply_add L d (tx_From tx) (i64 (- i64 (outTotal + tx_Fee tx))))
                               (\<lambda>d. Some (Inr (snd (SetNonce L d (tx_From tx) (tx_Nonce tx)))))
                        else Some (Inr d))
                   (foldE (apply_credit L) (tx_Outputs tx))))"

definition keyBlockFees :: "u64 \<Rightarrow> bytes" where
  "keyBlockFees height = ''fees:block:'' @ dec_u64 height"

definition PutBlockFeeSum :: "'d leveldb \<Rightarrow> 'd \<Rightarrow> u64 \<Rightarrow> int \<Rightarrow> 'd" where
  "PutBlockFeeSum L d height s = snd (ldb_Put L d (keyBlockFees height) (PutUint64 (u64_of_int s)))"

definition GetBlockFeeSum :: "'d leveldb \<Rightarrow> 'd \<Rightarrow> u64 \<Rightarrow> int \<times> bool" where
  "GetBlockFeeSum L d height =
     (case ldb_Get L d (keyBlockFees height) of
        Inl _ \<Rightarrow> (0, False)
      | Inr b \<Rightarrow> if length b \<noteq> 8 then (0, False) else (int_of_u64 (of_int (be_int b)), True))"

text \<open>The variable \<^verbatim>\<open>feeSum\<close> is declared and never added to.\<close>

definition applyBlockTxs ::
  "'d leveldb \<Rightarrow> tx codec \<Rightarrow> ('p, 's) node_env \<Rightarrow> 'd \<Rightarrow> block \<Rightarrow> (err \<times> 'd) option" where
  "applyBlockTxs L J env d b =
     do { r \<leftarrow> foldE (apply_tx L J env) (b_Txs b) d;
          Some (case r of
                  Inl (e, d) \<Rightarrow> (Some e, d)
                | Inr d \<Rightarrow> (None, PutBlockFeeSum L d (bh_Height (b_Header b)) 0)) }"

section \<open>The ledger\<close>

text \<open>
  What the simulations compute: balances and nonces as total functions. Amounts are added with the
  wrap-around of \<^verbatim>\<open>int64\<close>, as the code adds them.
\<close>

type_synonym ledger = "(string \<Rightarrow> int) \<times> (string \<Rightarrow> u64)"

datatype fault = BadNonce | NoBucket | NoFunds

definition led_credit :: "tx_out \<Rightarrow> (string \<Rightarrow> int) \<Rightarrow> string \<Rightarrow> int" where
  "led_credit out B =
     (if o_Address out \<noteq> [] then B(o_Address out := i64 (B (o_Address out) + o_Amount out))
      else if o_P out \<noteq> [] then B(otap_bucket (o_P out) := i64 (B (otap_bucket (o_P out)) + o_Amount out))
      else B)"

definition led_move :: "tx \<Rightarrow> (string \<Rightarrow> int) \<Rightarrow> fault + (string \<Rightarrow> int)" where
  "led_move tx B =
     (case claim_of tx of
        Some c \<Rightarrow>
          (let need = i64 (oc_Amount c + tx_Fee tx); B1 = B(otap_bucket (oc_P c) := i64 (B (otap_bucket (oc_P c)) - need))
           in if B (otap_bucket (oc_P c)) < need then Inl NoBucket
              else Inr (B1(oc_To c := i64 (B1 (oc_To c) + oc_Amount c))))
      | None \<Rightarrow>
          (let need = i64 (sum_outs (tx_Outputs tx) + tx_Fee tx)
           in if B (tx_From tx) < need then Inl NoFunds
              else Inr (fold led_credit (tx_Outputs tx) (B(tx_From tx := i64 (B (tx_From tx) - need))))))"

definition led_tx :: "tx \<Rightarrow> ledger \<Rightarrow> fault + ledger" where
  "led_tx tx s =
     (let (B, N) = s
      in if tx_Nonce tx \<noteq> N (tx_From tx) + 1 then Inl BadNonce
         else case led_move tx B of
                Inl f \<Rightarrow> Inl f
              | Inr B' \<Rightarrow> Inr (B', N(tx_From tx := tx_Nonce tx)))"

fun led_txs :: "tx list \<Rightarrow> ledger \<Rightarrow> fault + ledger" where
  "led_txs [] s = Inr s"
| "led_txs (tx # txs) s = (case led_tx tx s of Inl f \<Rightarrow> Inl f | Inr s' \<Rightarrow> led_txs txs s')"

definition led_coinbase :: "tx_out list \<Rightarrow> ledger \<Rightarrow> ledger" where
  "led_coinbase outs s =
     (fold (\<lambda>out B. B(o_Address out := i64 (B (o_Address out) + o_Amount out))) outs (fst s), snd s)"


section \<open>The contract of the closures\<close>

text \<open>
  \<open>refines vw ok msg r l\<close>: the outcome \<open>r\<close> of a simulation is the outcome \<open>l\<close> of the ledger, the
  faults as the code words them.
\<close>

definition refines ::
  "('st \<Rightarrow> ledger) \<Rightarrow> ('st \<Rightarrow> bool) \<Rightarrow> (fault \<Rightarrow> error) \<Rightarrow> (error + 'st) option \<Rightarrow> fault + ledger \<Rightarrow> bool" where
  "refines vw ok msg r l \<longleftrightarrow>
     (case l of Inl f \<Rightarrow> r = Some (Inl (msg f)) | Inr s \<Rightarrow> \<exists>st. r = Some (Inr st) \<and> ok st \<and> vw st = s)"

fun tip_msg :: "fault \<Rightarrow> error" where
  "tip_msg BadNonce = Err ''bad nonce in block''"
| "tip_msg NoBucket = Err ''insufficient otap bucket''"
| "tip_msg NoFunds = Err ''insufficient funds''"

fun sim_msg :: "fault \<Rightarrow> error" where
  "sim_msg BadNonce = Err ''bad_nonce''"
| "sim_msg NoBucket = Err ''insufficient_otap_bucket''"
| "sim_msg NoFunds = Err ''insufficient_funds''"

lemma set_type_simps [simp]:
  "tx_From (set_type tx) = tx_From tx" "tx_Nonce (set_type tx) = tx_Nonce tx" "tx_Fee (set_type tx) = tx_Fee tx"
  "tx_Outputs (set_type tx) = tx_Outputs tx" "tx_OTAPClaim (set_type tx) = tx_OTAPClaim tx"
  "tx_PubKey (set_type tx) = tx_PubKey tx" "tx_SigHex (set_type tx) = tx_SigHex tx"
  "tx_Type (set_type tx) = ''otap_claim'' \<longleftrightarrow> tx_Type tx = ''otap_claim''"
  "tx_Type (set_type tx) = ''coinbase'' \<longleftrightarrow> tx_Type tx = ''coinbase''"
  by (simp_all add: set_type_def)

text \<open>The ledger looks at the type of a transaction only to tell claims from the rest.\<close>

lemma led_tx_set_type [simp]: "led_tx (set_type tx) s = led_tx tx s"
proof -
  have "led_move (set_type tx) = led_move tx"
    by (simp add: led_move_def claim_of_def Let_def fun_eq_iff split: option.split)
  then show ?thesis by (cases s) (simp add: led_tx_def split: sum.split)
qed

locale account_view =
  fixes A :: "'st acct_ops" and ok :: "'st \<Rightarrow> bool"
    and absB :: "'st \<Rightarrow> string \<Rightarrow> int" and absN :: "'st \<Rightarrow> string \<Rightarrow> u64"
  assumes getBal: "ok st \<Longrightarrow>
      \<exists>st'. ao_getBal A st a = Some (absB st a, st') \<and> ok st' \<and> absB st' = absB st \<and> absN st' = absN st"
    and setBal: "ok st \<Longrightarrow> ok (ao_setBal A st a v) \<and>
      absB (ao_setBal A st a v) = (absB st)(a := v) \<and> absN (ao_setBal A st a v) = absN st"
    and getNon: "ok st \<Longrightarrow>
      \<exists>st'. ao_getNon A st a = Some (absN st a, st') \<and> ok st' \<and> absB st' = absB st \<and> absN st' = absN st"
    and setNon: "ok st \<Longrightarrow> ok (ao_setNon A st a n) \<and>
      absB (ao_setNon A st a n) = absB st \<and> absN (ao_setNon A st a n) = (absN st)(a := n)"
begin

abbreviation view :: "'st \<Rightarrow> ledger" where
  "view st \<equiv> (absB st, absN st)"

lemma add_bal_ok:
  assumes "ok st"
  shows "\<exists>st'. add_bal A a x st = Some st' \<and> ok st' \<and>
    absB st' = (absB st)(a := i64 (absB st a + x)) \<and> absN st' = absN st"
proof -
  obtain st1 where st1: "ao_getBal A st a = Some (absB st a, st1)" "ok st1" "absB st1 = absB st" "absN st1 = absN st"
    using getBal [OF assms] by blast
  then show ?thesis using setBal [OF st1(2), of a "i64 (absB st a + x)"] by (simp add: add_bal_def)
qed

lemma credit_outs_ok:
  assumes "ok st"
  shows "\<exists>st'. credit_outs A outs st = Some st' \<and> ok st' \<and>
    absB st' = fold led_credit outs (absB st) \<and> absN st' = absN st"
  using assms
proof (induction outs arbitrary: st)
  case (Cons out outs)
  let ?r = "if o_Address out \<noteq> [] then add_bal A (o_Address out) (o_Amount out) st
            else if o_P out \<noteq> [] then add_bal A (otap_bucket (o_P out)) (o_Amount out) st else Some st"
  have "\<exists>st1. ?r = Some st1 \<and> ok st1 \<and> absB st1 = led_credit out (absB st) \<and> absN st1 = absN st"
    using add_bal_ok [OF Cons.prems] Cons.prems by (auto simp: led_credit_def)
  then obtain st1 where st1: "?r = Some st1" "ok st1" "absB st1 = led_credit out (absB st)" "absN st1 = absN st"
    by blast
  with Cons.IH [OF st1(2)] show ?case by simp
qed simp

lemma credit_coinbase_ok:
  assumes "ok st"
  shows "\<exists>st'. credit_coinbase A outs st = Some st' \<and> ok st' \<and> view st' = led_coinbase outs (view st)"
  using assms
proof (induction outs arbitrary: st)
  case (Cons out outs)
  obtain st1 where "add_bal A (o_Address out) (o_Amount out) st = Some st1" "ok st1"
    "absB st1 = (absB st)(o_Address out := i64 (absB st (o_Address out) + o_Amount out))" "absN st1 = absN st"
    using add_bal_ok [OF Cons.prems] by blast
  with Cons.IH [of st1] show ?case by (simp add: led_coinbase_def fun_upd_def)
qed (simp add: led_coinbase_def)

text \<open>The balance part of a claim and of a transfer.\<close>

lemma claim_ok:
  assumes "ok st"
  shows "\<exists>st1. ao_getBal A st b = Some (absB st b, st1) \<and> ok st1 \<and> view st1 = view st \<and>
    (\<exists>st2. add_bal A a x (ao_setBal A st1 b v) = Some st2 \<and> ok st2 \<and> absN st2 = absN st \<and>
      absB st2 = ((absB st)(b := v))(a := i64 (((absB st)(b := v)) a + x)))"
proof -
  obtain st1 where st1: "ao_getBal A st b = Some (absB st b, st1)" "ok st1" "absB st1 = absB st" "absN st1 = absN st"
    using getBal [OF assms] by blast
  with setBal [OF st1(2), of b v] add_bal_ok [of "ao_setBal A st1 b v" a x] show ?thesis by auto
qed

lemma transfer_ok:
  assumes "ok st"
  shows "\<exists>st1. ao_getBal A st a = Some (absB st a, st1) \<and> ok st1 \<and> view st1 = view st"
    "\<exists>st2. credit_outs A outs (ao_setBal A st a v) = Some st2 \<and> ok st2 \<and>
       view st2 = (fold led_credit outs ((absB st)(a := v)), absN st)"
  using getBal [OF assms, of a] setBal [OF assms, of a v] credit_outs_ok [of "ao_setBal A st a v" outs] by auto

text \<open>
  A step of each simulation does what the ledger does: with the nonce set before the balances
  (\<^verbatim>\<open>ValidateBlockStateTip\<close>) or among them (the two others).
\<close>

lemma tip_step_refines:
  assumes "ok st" "tx_Type tx = ''otap_claim'' \<longrightarrow> tx_OTAPClaim tx \<noteq> None"
  shows "refines view ok tip_msg (tip_step A tx st) (led_tx tx (view st))"
proof -
  obtain st0 where st0: "ao_getNon A st (tx_From tx) = Some (absN st (tx_From tx), st0)" "ok st0" "view st0 = view st"
    using getNon [OF assms(1)] by auto
  define st1 where "st1 = ao_setNon A st0 (tx_From tx) (tx_Nonce tx)"
  have st1: "ok st1" "absB st1 = absB st" "absN st1 = (absN st)(tx_From tx := tx_Nonce tx)"
    using setNon [OF st0(2), of "tx_From tx" "tx_Nonce tx"] st0(3) unfolding st1_def by simp_all
  show ?thesis
  proof (cases "claim_of tx")
    case (Some c)
    then have c: "tx_Type tx = ''otap_claim''" "tx_OTAPClaim tx = Some c"
      by (auto simp: claim_of_def split: if_splits)
    let ?b = "otap_bucket (oc_P c)" and ?need = "i64 (oc_Amount c + tx_Fee tx)"
    show ?thesis
      using claim_ok [OF st1(1), of ?b "oc_To c" "oc_Amount c" "i64 (absB st ?b - ?need)"] st0(1) st1_def c Some
      unfolding st1 by (auto simp: refines_def tip_step_def led_tx_def led_move_def Let_def)
  next
    case None
    with assms(2) have c: "tx_Type tx \<noteq> ''otap_claim''" by (auto simp: claim_of_def)
    let ?v = "i64 (absB st (tx_From tx) - i64 (sum_outs (tx_Outputs tx) + tx_Fee tx))"
    obtain st2 where st2: "ao_getBal A st1 (tx_From tx) = Some (absB st (tx_From tx), st2)" "ok st2"
      "view st2 = (absB st, (absN st)(tx_From tx := tx_Nonce tx))"
      using transfer_ok(1) [OF st1(1), of "tx_From tx"] unfolding st1 by blast
    show ?thesis
      using transfer_ok(2) [OF st2(2), of "tx_Outputs tx" "tx_From tx" ?v] st0(1) st1_def st2(1,3) c None
      by (auto simp: refines_def tip_step_def led_tx_def led_move_def Let_def)
  qed
qed

lemma sim_step_refines:
  assumes "ok st" "tx_Type tx \<noteq> ''coinbase''"
  shows "refines view ok sim_msg (sim_step A tx st) (led_tx tx (view st))"
proof -
  obtain st0 where st0: "ao_getNon A st (tx_From tx) = Some (absN st (tx_From tx), st0)" "ok st0" "view st0 = view st"
    using getNon [OF assms(1)] by auto
  show ?thesis
  proof (cases "claim_of tx")
    case (Some c)
    let ?b = "otap_bucket (oc_P c)" and ?need = "i64 (oc_Amount c + tx_Fee tx)"
    show ?thesis
      using claim_ok [OF st0(2), of ?b "oc_To c" "oc_Amount c" "i64 (absB st ?b - ?need)"] st0(1,3) Some assms(2) setNon
      by (auto simp: refines_def sim_step_def led_tx_def led_move_def Let_def)
  next
    case None
    let ?v = "i64 (absB st (tx_From tx) - i64 (sum_outs (tx_Outputs tx) + tx_Fee tx))"
    obtain st1 where st1: "ao_getBal A st0 (tx_From tx) = Some (absB st (tx_From tx), st1)" "ok st1" "view st1 = view st"
      using transfer_ok(1) [OF st0(2), of "tx_From tx"] st0(3) by auto
    define st2 where "st2 = ao_setNon A (ao_setBal A st1 (tx_From tx) ?v) (tx_From tx) (tx_Nonce tx)"
    have st2: "ok st2" "view st2 = ((absB st)(tx_From tx := ?v), (absN st)(tx_From tx := tx_Nonce tx))"
      using setBal [OF st1(2), of "tx_From tx" ?v] setNon [of "ao_setBal A st1 (tx_From tx) ?v"] st1(3)
      unfolding st2_def by auto
    show ?thesis
      using credit_outs_ok [OF st2(1), of "tx_Outputs tx"] st0(1) st1(1) st2 st2_def None assms(2)
      by (auto simp: refines_def sim_step_def led_tx_def led_move_def Let_def)
  qed
qed

lemma filter_step_refines:
  assumes "ok st"
  shows "\<exists>st'. ok st' \<and>
    filter_step A tx (st, out) = Some (st', if tx_Type tx = ''coinbase'' \<or> \<not> isl (led_tx tx (view st)) then out @ [tx] else out) \<and>
    view st' = (if tx_Type tx = ''coinbase'' then led_coinbase (tx_Outputs tx) (view st)
                else case led_tx tx (view st) of Inl _ \<Rightarrow> view st | Inr s \<Rightarrow> s)"
proof (cases "tx_Type tx = ''coinbase''")
  case True
  then show ?thesis using credit_coinbase_ok [OF assms, of "tx_Outputs tx"] by (auto simp: filter_step_def)
next
  case nc: False
  obtain st0 where st0: "ao_getNon A st (tx_From tx) = Some (absN st (tx_From tx), st0)" "ok st0" "view st0 = view st"
    using getNon [OF assms(1)] by auto
  show ?thesis
  proof (cases "claim_of tx")
    case (Some c)
    let ?b = "otap_bucket (oc_P c)" and ?need = "i64 (oc_Amount c + tx_Fee tx)"
    let ?B = "(absB st)(?b := i64 (absB st ?b - ?need))"
    have eq: "absB st0 = absB st" "absN st0 = absN st" using st0(3) by simp_all
    obtain st1 st2 where st1: "ao_getBal A st0 ?b = Some (absB st ?b, st1)" "ok st1" "view st1 = view st"
      and st2: "add_bal A (oc_To c) (oc_Amount c) (ao_setBal A st1 ?b (i64 (absB st ?b - ?need))) = Some st2"
      "ok st2" "absN st2 = absN st" "absB st2 = ?B(oc_To c := i64 (?B (oc_To c) + oc_Amount c))"
      using claim_ok [OF st0(2), of ?b "oc_To c" "oc_Amount c" "i64 (absB st ?b - ?need)"] unfolding eq by blast
    note st3 = setNon [OF st2(2), of "tx_From tx" "tx_Nonce tx"]
    show ?thesis
    proof (cases "tx_Nonce tx = absN st (tx_From tx) + 1 \<and> \<not> absB st ?b < ?need")
      case True
      then show ?thesis
        using st0(1) st1(1) st2 st3 Some nc
        by (intro exI [of _ "ao_setNon A st2 (tx_From tx) (tx_Nonce tx)"])
          (simp add: filter_step_def led_tx_def led_move_def Let_def)
    next
      case False
      then show ?thesis
        using st0 st1 Some nc by (auto simp: filter_step_def led_tx_def led_move_def Let_def)
    qed
  next
    case None
    let ?v = "i64 (absB st (tx_From tx) - i64 (sum_outs (tx_Outputs tx) + tx_Fee tx))"
    obtain st1 where st1: "ao_getBal A st0 (tx_From tx) = Some (absB st (tx_From tx), st1)" "ok st1" "view st1 = view st"
      using transfer_ok(1) [OF st0(2), of "tx_From tx"] st0(3) by auto
    define st2 where "st2 = ao_setNon A (ao_setBal A st1 (tx_From tx) ?v) (tx_From tx) (tx_Nonce tx)"
    have st2: "ok st2" "view st2 = ((absB st)(tx_From tx := ?v), (absN st)(tx_From tx := tx_Nonce tx))"
      using setBal [OF st1(2), of "tx_From tx" ?v] setNon [of "ao_setBal A st1 (tx_From tx) ?v"] st1(3)
      unfolding st2_def by auto
    show ?thesis
      using credit_outs_ok [OF st2(1), of "tx_Outputs tx"] st0 st1 st2 st2_def None nc
      by (auto simp: filter_step_def led_tx_def led_move_def Let_def)
  qed
qed

text \<open>Runs over the transactions of a block.\<close>

lemma tip_run_refines:
  assumes "ok st" "\<forall>tx \<in> set txs. tx_Type tx = ''otap_claim'' \<longrightarrow> tx_OTAPClaim tx \<noteq> None"
  shows "refines view ok tip_msg (foldE (tip_step A) txs st) (led_txs txs (view st))"
  using assms
proof (induction txs arbitrary: st)
  case Nil
  then show ?case by (simp add: refines_def)
next
  case (Cons tx txs)
  have "refines view ok tip_msg (tip_step A tx st) (led_tx tx (view st))"
    using Cons.prems by (intro tip_step_refines) auto
  with Cons show ?case by (fastforce simp: refines_def split: sum.splits)
qed

lemma sim_run_refines:
  assumes "ok st" "\<forall>tx \<in> set txs. tx_Type tx \<noteq> ''coinbase''"
  shows "refines view ok sim_msg (foldE (sim_step A) txs st) (led_txs txs (view st))"
  using assms
proof (induction txs arbitrary: st)
  case Nil
  then show ?case by (simp add: refines_def)
next
  case (Cons tx txs)
  have "refines view ok sim_msg (sim_step A tx st) (led_tx tx (view st))"
    using Cons.prems by (intro sim_step_refines) auto
  with Cons show ?case by (fastforce simp: refines_def split: sum.splits)
qed

lemma filter_run_refines:
  assumes "ok st" "\<forall>tx \<in> set txs. tx_Type tx \<noteq> ''coinbase''" "led_txs out s0 = Inr (view st)"
  shows "\<exists>st' out'. filter_loop A txs (st, out) = Some (st', out') \<and> ok st' \<and> led_txs out' s0 = Inr (view st') \<and>
    set out' \<subseteq> set out \<union> set txs"
  using assms
proof (induction txs arbitrary: st out)
  case (Cons tx txs)
  have snoc: "led_txs (out @ [tx]) s0 = led_tx tx (view st)"
    using Cons.prems(3)
  proof (induction out arbitrary: s0)
    case Nil
    then show ?case by (cases "led_tx tx (view st)") simp_all
  qed (auto split: sum.splits)
  from filter_step_refines [OF Cons.prems(1), of tx out] Cons.prems(2) obtain st1 where
    st1: "ok st1" "filter_step A tx (st, out) = Some (st1, if \<not> isl (led_tx tx (view st)) then out @ [tx] else out)"
      "view st1 = (case led_tx tx (view st) of Inl _ \<Rightarrow> view st | Inr s \<Rightarrow> s)" by auto
  have "led_txs (if \<not> isl (led_tx tx (view st)) then out @ [tx] else out) s0 = Inr (view st1)"
    using st1(3) snoc Cons.prems(3) by (cases "led_tx tx (view st)") simp_all
  from Cons.IH [OF st1(1) _ this] Cons.prems(2) st1(2) show ?case
    by (cases "isl (led_tx tx (view st))") auto
qed simp

end


text \<open>The working set over a healthy database.\<close>

definition cached_bal :: "(bytes \<rightharpoonup> bytes) \<Rightarrow> sim \<Rightarrow> string \<Rightarrow> int" where
  "cached_bal m st a = (case sim_bal st a of Some v \<Rightarrow> v | None \<Rightarrow> bal_of m a)"

definition cached_non :: "(bytes \<rightharpoonup> bytes) \<Rightarrow> sim \<Rightarrow> string \<Rightarrow> u64" where
  "cached_non m st a = (case sim_non st a of Some v \<Rightarrow> v | None \<Rightarrow> non_of m a)"

definition plain_bal :: "sim \<Rightarrow> string \<Rightarrow> int" where
  "plain_bal st a = (case sim_bal st a of Some v \<Rightarrow> v | None \<Rightarrow> 0)"

definition plain_non :: "sim \<Rightarrow> string \<Rightarrow> u64" where
  "plain_non st a = (case sim_non st a of Some v \<Rightarrow> v | None \<Rightarrow> 0)"

lemmas view_defs = cached_bal_def cached_non_def plain_bal_def plain_non_def

interpretation cached: account_view "cached_ops L d" "\<lambda>_. ldb_laws L V \<and> acct_wf (V d)"
  "cached_bal (V d)" "cached_non (V d)" for L V d
proof
  fix st a v n
  assume h: "ldb_laws L V \<and> acct_wf (V d)"
  note db = GetBalance_eq [of L V d a] GetNonce_eq [of L V d a]
  show "\<exists>st'. ao_getBal (cached_ops L d) st a = Some (cached_bal (V d) st a, st') \<and> (ldb_laws L V \<and> acct_wf (V d)) \<and>
      cached_bal (V d) st' = cached_bal (V d) st \<and> cached_non (V d) st' = cached_non (V d) st"
    using h db by (cases "sim_bal st a") (auto simp: cached_ops_def view_defs fun_eq_iff)
  show "\<exists>st'. ao_getNon (cached_ops L d) st a = Some (cached_non (V d) st a, st') \<and> (ldb_laws L V \<and> acct_wf (V d)) \<and>
      cached_bal (V d) st' = cached_bal (V d) st \<and> cached_non (V d) st' = cached_non (V d) st"
    using h db by (cases "sim_non st a") (auto simp: cached_ops_def view_defs fun_eq_iff)
qed (auto simp: cached_ops_def view_defs fun_eq_iff)

interpretation plain: account_view plain_ops "\<lambda>_. True" plain_bal plain_non
  by unfold_locales (auto simp: plain_ops_def view_defs fun_eq_iff)

lemma empty_sim_view [simp]:
  "cached_bal m empty_sim = bal_of m" "cached_non m empty_sim = non_of m"
  by (simp_all add: view_defs empty_sim_def fun_eq_iff)

section \<open>The two simulations compute the ledger\<close>

text \<open>The ledger of a whole block: the coinbase, where issuance is on, and the transactions.\<close>

definition led_block :: "('p, 's) node_env \<Rightarrow> block \<Rightarrow> ledger \<Rightarrow> fault + ledger" where
  "led_block env b s =
     (if is_Enabled (cfg_Issuance (ne_cfg env))
      then led_txs (tl (b_Txs b)) (led_coinbase (take 1 (tx_Outputs (hd (b_Txs b)))) s)
      else led_txs (b_Txs b) s)"

text \<open>What a block must have for the simulation not to run into a nil or an index out of range.\<close>

definition block_shape :: "('p, 's) node_env \<Rightarrow> block \<Rightarrow> bool" where
  "block_shape env b \<longleftrightarrow>
     (is_Enabled (cfg_Issuance (ne_cfg env)) \<longrightarrow> b_Txs b \<noteq> [] \<and> tx_Outputs (hd (b_Txs b)) \<noteq> []) \<and>
     (\<forall>tx \<in> set (drop (if is_Enabled (cfg_Issuance (ne_cfg env)) then 1 else 0) (b_Txs b)).
        tx_Type tx = ''otap_claim'' \<longrightarrow> tx_OTAPClaim tx \<noteq> None)"

lemma ValidateBlockStateTip_eq:
  assumes "ldb_laws L V" "acct_wf (V d)" "block_shape env b"
  shows "ValidateBlockStateTip L env d b =
    Some (case led_block env b (bal_of (V d), non_of (V d)) of
            Inl f \<Rightarrow> Some (tip_msg f)
          | Inr _ \<Rightarrow> coinbase_covers env b)"
proof (cases "is_Enabled (cfg_Issuance (ne_cfg env))")
  case False
  with assms(3) have "\<forall>tx \<in> set (b_Txs b). tx_Type tx = ''otap_claim'' \<longrightarrow> tx_OTAPClaim tx \<noteq> None"
    by (simp add: block_shape_def)
  from cached.tip_run_refines [where L = L and V = V and d = d and st = empty_sim, OF _ this] assms(1,2) False show ?thesis
    by (auto simp: ValidateBlockStateTip_def led_block_def refines_def Let_def split: sum.splits)
next
  case True
  with assms(3) obtain cb rest out outs where b: "b_Txs b = cb # rest" "tx_Outputs cb = out # outs"
    by (auto simp: block_shape_def neq_Nil_conv)
  from assms(3) True b have rest: "\<forall>tx \<in> set rest. tx_Type tx = ''otap_claim'' \<longrightarrow> tx_OTAPClaim tx \<noteq> None"
    by (simp add: block_shape_def)
  from cached.credit_coinbase_ok [where L = L and V = V and d = d and st = empty_sim and outs = "[out]"] assms(1,2) obtain st where
    st: "add_bal (cached_ops L d) (o_Address out) (o_Amount out) empty_sim = Some st"
      "(cached_bal (V d) st, cached_non (V d) st) = led_coinbase [out] (bal_of (V d), non_of (V d))"
    by (auto split: bind_splits)
  from cached.tip_run_refines [where L = L and V = V and d = d and st = st, OF _ rest] assms(1,2) st True b show ?thesis
    by (auto simp: ValidateBlockStateTip_def led_block_def refines_def Let_def split: sum.splits)
qed


text \<open>What a transaction and a block that pass the basic rules are like.\<close>

lemma basic_txD:
  assumes "basic_tx env tx = None"
  shows "tx_Type tx \<noteq> ''coinbase''" "tx_From tx \<noteq> []" "tx_From tx = tx_PubKey tx"
    "EstimateFee (TxSizeHint (env_txid env (set_type tx)) (int (length (tx_Outputs tx))))
       (list_ex (\<lambda>out. o_P out \<noteq> [] \<and> o_R out \<noteq> []) (tx_Outputs tx)) (fee_params_of (ne_cfg env)) \<le> tx_Fee tx"
    "sig_Verify (ne_edwards env) (tx_PubKey tx) (tx_SigHex tx) (SigningBytes (set_type tx))"
    "tx_Type tx = ''otap_claim'' \<Longrightarrow> \<exists>c. tx_OTAPClaim tx = Some c \<and> oc_P c \<noteq> [] \<and> oc_To c = tx_From tx"
  using assms by (auto simp: basic_tx_def basic_claim_def Let_def split: if_splits option.splits)

lemma ValidateBlockBasicD:
  assumes "ValidateBlockBasic env b = None"
  shows "coinbase_covers env b = None"
    "tx \<in> set (drop (if is_Enabled (cfg_Issuance (ne_cfg env)) then 1 else 0) (b_Txs b)) \<Longrightarrow> basic_tx env tx = None"
    "is_Enabled (cfg_Issuance (ne_cfg env)) \<Longrightarrow>
       \<exists>cb rest out. b_Txs b = cb # rest \<and> tx_Type cb = ''coinbase'' \<and> tx_Outputs cb = [out] \<and>
         o_Amount out = is_BlockReward (cfg_Issuance (ne_cfg env))"
  using assms
  by (auto simp: ValidateBlockBasic_def basic_coinbase_def first_err_None
      split: option.splits if_splits list.splits)

lemma block_shape_basic:
  assumes "ValidateBlockBasic env b = None"
  shows "block_shape env b"
  unfolding block_shape_def
proof (intro conjI ballI impI)
  assume "is_Enabled (cfg_Issuance (ne_cfg env))"
  from ValidateBlockBasicD(3) [OF assms this] show "b_Txs b \<noteq> []" "tx_Outputs (hd (b_Txs b)) \<noteq> []" by auto
next
  fix tx assume "tx \<in> set (drop (if is_Enabled (cfg_Issuance (ne_cfg env)) then 1 else 0) (b_Txs b))"
    and c: "tx_Type tx = ''otap_claim''"
  from basic_txD(6) [OF ValidateBlockBasicD(2) [OF assms this(1)] c] show "tx_OTAPClaim tx \<noteq> None" by auto
qed

lemma sim_block_refines:
  assumes "ValidateBlockBasic env b = None"
  shows "refines (\<lambda>st. (plain_bal st, plain_non st)) (\<lambda>_. True) sim_msg (foldE (sim_step plain_ops) (b_Txs b) st)
    (led_block env b (plain_bal st, plain_non st))"
proof (cases "is_Enabled (cfg_Issuance (ne_cfg env))")
  case False
  then have "\<forall>tx \<in> set (b_Txs b). tx_Type tx \<noteq> ''coinbase''"
    using ValidateBlockBasicD(2) [OF assms] basic_txD(1) [of env] by auto
  with plain.sim_run_refines [of "b_Txs b" st] False show ?thesis by (simp add: led_block_def)
next
  case True
  from ValidateBlockBasicD(3) [OF assms True] obtain cb rest out where
    b: "b_Txs b = cb # rest" "tx_Type cb = ''coinbase''" "tx_Outputs cb = [out]" by blast
  have rest: "\<forall>tx \<in> set rest. tx_Type tx \<noteq> ''coinbase''"
    using ValidateBlockBasicD(2) [OF assms] basic_txD(1) [of env] True b by auto
  from plain.credit_coinbase_ok [of "[out]" st] obtain st1 where
    st1: "credit_coinbase plain_ops [out] st = Some st1"
      "(plain_bal st1, plain_non st1) = led_coinbase [out] (plain_bal st, plain_non st)" by auto
  with plain.sim_run_refines [OF TrueI rest, of st1] b True show ?thesis
    by (simp add: led_block_def sim_step_def)
qed

text \<open>
  C8. The two simulations of a block agree. For a block that passes the limits and the basic rules,
  on a healthy store and on plain maps that hold the same accounts, the simulation against the tip
  and the simulation on a parent block both compute the ledger: they reject for the same reason, or
  both accept, and the second then holds the balances and nonces of the ledger.
\<close>

theorem simulations_agree:
  assumes "ldb_laws L V" "acct_wf (V d)" "ValidateLimits env b = None" "ValidateBlockBasic env b = None"
    "plain_bal st = bal_of (V d)" "plain_non st = non_of (V d)"
  shows "case led_block env b (bal_of (V d), non_of (V d)) of
      Inl f \<Rightarrow> ValidateBlockStateTip L env d b = Some (Some (tip_msg f)) \<and>
               applyBlockToSim env plain_ops b st = Some (Inl (sim_msg f))
    | Inr s \<Rightarrow> ValidateBlockStateTip L env d b = Some None \<and>
               (\<exists>st'. applyBlockToSim env plain_ops b st = Some (Inr st') \<and> (plain_bal st', plain_non st') = s)"
  using ValidateBlockStateTip_eq [OF assms(1,2) block_shape_basic [OF assms(4)]]
    sim_block_refines [OF assms(4), of st] ValidateBlockBasicD(1) [OF assms(4)] assms(3-6)
  by (auto simp: refines_def applyBlockToSim_def split: sum.split)


text \<open>A node and a block with which the statements are evaluated.\<close>

definition unit_edwards :: "(unit, unit) edwards" where
  "unit_edwards = \<lparr>pt_SetBytes = (\<lambda>_. Some ()), pt_Bytes = (\<lambda>_. replicate 32 (CHR 0x00)), pt_Generator = (),
     pt_Add = (\<lambda>_ _. ()), pt_Negate = (\<lambda>_. ()), pt_ScalarMult = (\<lambda>_ _. ()), pt_Equal = (\<lambda>_ _. True),
     sc_SetCanonicalBytes = (\<lambda>_. Some ()), sc_SetUniformBytes = (\<lambda>_. Some ()),
     sc_Bytes = (\<lambda>_. replicate 32 (CHR 0x00)), sc_Multiply = (\<lambda>_ _. ()), sc_Add = (\<lambda>_ _. ())\<rparr>"

definition sample_env :: "(unit, unit) node_env" where
  "sample_env = \<lparr>ne_cfg = sample_config, ne_Reward = 0, ne_genesis = sample_genesis, ne_hash256 = (\<lambda>_. zero_hash),
     ne_edwards = unit_edwards, ne_mustHex32 = (\<lambda>s. s), ne_blockHash = (\<lambda>_. zero_hash)\<rparr>"

definition sample_key :: string where
  "sample_key = replicate 64 (CHR ''0'')"

definition sample_transfer :: tx where
  "sample_transfer = zero_tx\<lparr>tx_From := sample_key, tx_PubKey := sample_key, tx_SigHex := replicate 128 (CHR ''0''),
     tx_Nonce := 1, tx_Fee := 1000,
     tx_Outputs := [\<lparr>o_Amount = 50, o_Asset = ''USDR'', o_Address = ''bob'', o_P = [], o_R = [], o_Tag = [],
       o_EncMemo = [], o_PolicyBits = 0\<rparr>]\<rparr>"

definition sample_block :: block where
  "sample_block = \<lparr>b_Header = zero_header\<lparr>bh_Height := 1\<rparr>, b_Txs = [sample_transfer]\<rparr>"

lemma sample_hex:
  "hex_DecodeString sample_key = Inr (replicate 32 (CHR 0x00))"
  "hex_DecodeString (replicate 128 (CHR ''0'')) = Inr (replicate 64 (CHR 0x00))"
  by code_simp+

lemma sample_sig: "sig_Verify unit_edwards sample_key (replicate 128 (CHR ''0'')) msg"
  by (simp add: sig_Verify_def sig_ParsePub_def sig_ParseSig_def sample_hex ed25519_Verify_def unit_edwards_def
      take_replicate)

lemma sample_basic_tx:
  assumes "length outs \<le> 2" "\<forall>out \<in> set outs. o_P out = []"
  shows "basic_tx sample_env (sample_transfer\<lparr>tx_Outputs := outs\<rparr>) = None"
proof -
  let ?tx = "sample_transfer\<lparr>tx_Outputs := outs\<rparr>"
  have key: "sample_key \<noteq> []" by (simp add: sample_key_def)
  have tx: "tx_From ?tx = sample_key" "tx_PubKey ?tx = sample_key" "tx_SigHex ?tx = replicate 128 (CHR ''0'')"
    "tx_Fee ?tx = 1000" "tx_Type ?tx = []" "tx_Outputs ?tx = outs"
    by (simp_all add: sample_transfer_def zero_tx_def)
  have ty: "tx_Type (set_type ?tx) = ''transfer''" using tx(5) by (simp add: set_type_def)
  have fee: "EstimateFee (TxSizeHint i (int (length outs))) False (fee_params_of (ne_cfg sample_env)) \<le> 1000" for i
    using assms(1)
    by (simp add: TxSizeHint_def EstimateFee_def fee_params_of_def sample_env_def sample_config_def mode_defs i64_small Let_def)
  have otap: "list_ex (\<lambda>out. o_P out \<noteq> [] \<and> o_R out \<noteq> []) outs \<longleftrightarrow> False"
    using assms(2) by (auto simp: list_ex_iff)
  have ed: "ne_edwards sample_env = unit_edwards" by (simp add: sample_env_def)
  show ?thesis
    unfolding basic_tx_def Let_def set_type_simps tx ty otap ed using fee sample_sig key by (simp add: not_less)
qed

lemma sample_block_basic:
  assumes "length outs \<le> 2" "\<forall>out \<in> set outs. o_P out = []"
  shows "ValidateBlockBasic sample_env \<lparr>b_Header = h, b_Txs = [sample_transfer\<lparr>tx_Outputs := outs\<rparr>]\<rparr> = None"
proof -
  have "\<not> is_Enabled (cfg_Issuance (ne_cfg sample_env))" by (simp add: sample_env_def sample_config_def)
  moreover have "tx_Type (sample_transfer\<lparr>tx_Outputs := outs\<rparr>) = []" by (simp add: sample_transfer_def zero_tx_def)
  ultimately show ?thesis
    using sample_basic_tx [OF assms] by (simp add: ValidateBlockBasic_def basic_coinbase_def coinbase_covers_def)
qed

lemma sample_block_ok:
  "ValidateLimits sample_env sample_block = None" "ValidateBlockBasic sample_env sample_block = None"
proof -
  show "ValidateLimits sample_env sample_block = None" by code_simp
  have "sample_transfer = sample_transfer\<lparr>tx_Outputs := tx_Outputs sample_transfer\<rparr>" by simp
  moreover have "length (tx_Outputs sample_transfer) \<le> 2" "\<forall>out \<in> set (tx_Outputs sample_transfer). o_P out = []"
    by (simp_all add: sample_transfer_def)
  ultimately show "ValidateBlockBasic sample_env sample_block = None"
    using sample_block_basic [of "tx_Outputs sample_transfer"] unfolding sample_block_def by simp
qed

definition sample_funds :: "(bytes \<times> bytes) list" where
  "sample_funds = [(keyBal sample_key, PutUint64 2000)]"

lemma sample_funds_view:
  "acct_wf (map_of sample_funds)" "bal_of (map_of sample_funds) = (\<lambda>_. 0)(sample_key := 2000)"
  "non_of (map_of sample_funds) = (\<lambda>_. 0)"
proof -
  have "int_of_u64 2000 = 2000" by (simp add: int_of_u64_def)
  then show "bal_of (map_of sample_funds) = (\<lambda>_. 0)(sample_key := 2000)"
    by (auto simp: bal_of_def sample_funds_def fun_eq_iff)
qed (auto simp: acct_wf_def non_of_def sample_funds_def split: if_splits)

lemma sample_led:
  "led_block sample_env sample_block (bal_of (map_of sample_funds), non_of (map_of sample_funds)) =
     Inr ((\<lambda>_. 0)(sample_key := 950, ''bob'' := 50), (\<lambda>_. 0)(sample_key := 1))"
proof -
  have "sample_key \<noteq> ''bob''" by code_simp
  then show ?thesis
    unfolding sample_funds_view
    by (simp add: led_block_def sample_block_def led_tx_def led_move_def claim_of_def sample_transfer_def zero_tx_def
        sum_outs_def led_credit_def i64_eq sample_env_def sample_config_def fun_upd_twist)
qed

theorem simulations_agree_witness:
  "ValidateBlockStateTip alist_db sample_env sample_funds sample_block = Some None"
  using simulations_agree [OF alist_db_laws sample_funds_view(1) sample_block_ok,
      of "\<lparr>sim_bal = [sample_key \<mapsto> 2000], sim_non = Map.empty\<rparr>"]
  unfolding sample_led by (simp add: sample_funds_view plain_bal_def plain_non_def fun_eq_iff)

end
