(* ===== verification/LedgerApply.thy ===== *)
theory LedgerApply
  imports Ledger
begin

text \<open>
  The application of a block to the database against the ledger of \<open>Ledger\<close>: the arithmetic is
  exact while the coins fit \<^verbatim>\<open>int64\<close>, a validated block is applied without error and
  conserves the coins, and what the validators of \<^verbatim>\<open>block_validate.go\<close> do not check.
\<close>

section \<open>Exact arithmetic and supply\<close>

text \<open>The coins a ledger holds, for a ledger with finitely many funded accounts.\<close>

definition coins :: "(string \<Rightarrow> int) \<Rightarrow> int" where
  "coins B = (\<Sum>a | B a \<noteq> 0. B a)"

lemma coins_upd:
  assumes "finite {a. B a \<noteq> 0}"
  shows "coins (B(a := v)) = coins B - B a + v" "finite {x. (B(a := v)) x \<noteq> 0}"
proof -
  let ?S = "insert a {x. B x \<noteq> 0}"
  have fin: "finite ?S" using assms by simp
  have sum: "coins C = sum C ?S" if "{x. C x \<noteq> 0} \<subseteq> ?S" for C
    unfolding coins_def using fin that by (intro sum.mono_neutral_left) auto
  have "coins (B(a := v)) = sum (B(a := v)) ?S" by (intro sum) auto
  also have "\<dots> = v + sum B (?S - {a})" using fin by (simp add: sum.remove [of ?S a] insert_Diff_if)
  also have "sum B (?S - {a}) = sum B ?S - B a" using fin by (simp add: sum.remove [of ?S a] insert_Diff_if)
  also have "sum B ?S = coins B" by (rule sum [symmetric]) auto
  finally show "coins (B(a := v)) = coins B - B a + v" by (simp add: fun_upd_def)
  show "finite {x. (B(a := v)) x \<noteq> 0}" by (rule finite_subset [OF _ fin]) auto
qed

lemma coins_ge:
  assumes "finite {a. B a \<noteq> 0}" "\<forall>a. 0 \<le> B a"
  shows "B a \<le> coins B"
  unfolding coins_def
  using assms by (cases "B a = 0") (auto intro: sum_nonneg member_le_sum)

text \<open>
  A sound ledger: nothing negative, and in all fewer coins than \<^verbatim>\<open>int64\<close> can count. A sound
  transaction: no negative amount or fee, and a total that \<^verbatim>\<open>int64\<close> can count.
\<close>

definition sound_ledger :: "(string \<Rightarrow> int) \<Rightarrow> bool" where
  "sound_ledger B \<longleftrightarrow> finite {a. B a \<noteq> 0} \<and> (\<forall>a. 0 \<le> B a) \<and> coins B < 2 ^ 63"

definition sound_tx :: "tx \<Rightarrow> bool" where
  "sound_tx tx \<longleftrightarrow> 0 \<le> tx_Fee tx \<and> (\<forall>out \<in> set (tx_Outputs tx). 0 \<le> o_Amount out) \<and>
     sum_list (map o_Amount (tx_Outputs tx)) + tx_Fee tx < 2 ^ 63 \<and>
     (\<forall>c. tx_OTAPClaim tx = Some c \<longrightarrow> 0 \<le> oc_Amount c \<and> oc_Amount c + tx_Fee tx < 2 ^ 63)"

lemma sum_outs_exact:
  assumes "\<forall>out \<in> set outs. 0 \<le> o_Amount out" "sum_list (map o_Amount outs) < 2 ^ 63"
  shows "sum_outs outs = sum_list (map o_Amount outs)"
proof -
  have "foldl (\<lambda>t out. i64 (t + o_Amount out)) t outs = t + sum_list (map o_Amount outs)"
    if "0 \<le> t" "t + sum_list (map o_Amount outs) < 2 ^ 63" for t
    using assms(1) that
  proof (induction outs arbitrary: t)
    case (Cons out outs)
    have "0 \<le> sum_list (map o_Amount outs)" using Cons.prems(1) by (intro sum_list_nonneg) auto
    with Cons.prems have "i64 (t + o_Amount out) = t + o_Amount out"
      by (intro i64_id) (simp add: in_i64_def)
    with Cons show ?case by (simp add: algebra_simps)
  qed simp
  from this [of 0] assms(2) show ?thesis by (simp add: sum_outs_def)
qed


text \<open>Outputs with neither an address nor a claim point reach nobody.\<close>

definition burned :: "tx_out list \<Rightarrow> int" where
  "burned outs = sum_list (map o_Amount (filter (\<lambda>out. o_Address out = [] \<and> o_P out = []) outs))"

text \<open>Balances with room for what is to be credited: sums stay exact.\<close>

definition room :: "(string \<Rightarrow> int) \<Rightarrow> int \<Rightarrow> bool" where
  "room B x \<longleftrightarrow> finite {a. B a \<noteq> 0} \<and> (\<forall>a. 0 \<le> B a) \<and> 0 \<le> x \<and> coins B + x < 2 ^ 63"

lemma room_upd:
  assumes "room B x" "0 \<le> v" "v - B a \<le> x - y" "0 \<le> y"
  shows "room (B(a := v)) y"
  using assms coins_upd [of B a v] by (auto simp: room_def)

lemma room_exact:
  assumes "room B x" "0 \<le> y" "y \<le> x"
  shows "i64 (B a + y) = B a + y" "0 \<le> B a + y" "B a + y < 2 ^ 63"
proof -
  have "B a \<le> coins B" using assms(1) coins_ge unfolding room_def by blast
  then show "B a + y < 2 ^ 63" "0 \<le> B a + y" using assms by (auto simp: room_def)
  then show "i64 (B a + y) = B a + y" by (intro i64_id) (simp add: in_i64_def)
qed

lemma led_credit_exact:
  assumes "room B x" "0 \<le> o_Amount out" "o_Amount out \<le> x"
  shows "room (led_credit out B) (x - o_Amount out)"
    "coins (led_credit out B) = coins B + o_Amount out - burned [out]"
proof -
  have up: "room (B(a := i64 (B a + o_Amount out))) (x - o_Amount out) \<and>
      coins (B(a := i64 (B a + o_Amount out))) = coins B + o_Amount out" for a
    using room_upd [OF assms(1), of "B a + o_Amount out" a "x - o_Amount out"] assms
      room_exact [OF assms, of a] coins_upd(1) [of B a "B a + o_Amount out"]
    by (simp add: room_def)
  have "room B (x - o_Amount out)" using assms by (auto simp: room_def)
  with up show "room (led_credit out B) (x - o_Amount out)"
    "coins (led_credit out B) = coins B + o_Amount out - burned [out]"
    by (simp_all add: led_credit_def burned_def)
qed

lemma led_credits_exact:
  assumes "room B x" "\<forall>out \<in> set outs. 0 \<le> o_Amount out" "sum_list (map o_Amount outs) \<le> x"
  shows "room (fold led_credit outs B) (x - sum_list (map o_Amount outs)) \<and>
    coins (fold led_credit outs B) = coins B + sum_list (map o_Amount outs) - burned outs"
  using assms
proof (induction outs arbitrary: B x)
  case (Cons out outs)
  have "0 \<le> sum_list (map o_Amount outs)" using Cons.prems(2) by (intro sum_list_nonneg) auto
  with Cons.prems led_credit_exact [OF Cons.prems(1), of out]
    Cons.IH [of "led_credit out B" "x - o_Amount out"] show ?case
    by (auto simp: burned_def algebra_simps)
qed (simp add: burned_def)

definition tx_burned :: "tx \<Rightarrow> int" where
  "tx_burned tx = (if claim_of tx = None then burned (tx_Outputs tx) else 0)"

lemma sound_room: "sound_ledger B \<longleftrightarrow> room B 0"
  by (simp add: sound_ledger_def room_def)

text \<open>Taking \<open>need\<close> from an account makes room for anything up to it.\<close>

lemma debit_exact:
  assumes "sound_ledger B" "need \<le> B a" "0 \<le> x" "x \<le> need"
  shows "i64 (B a - need) = B a - need" "room (B(a := B a - need)) x" "coins (B(a := B a - need)) = coins B - need"
  using room_exact [of B 0 0 a] coins_upd [of B a "B a - need"] assms
  by (auto simp: sound_ledger_def room_def intro!: i64_small)

lemma tx_need_exact:
  assumes "sound_tx tx"
  shows "i64 (sum_outs (tx_Outputs tx) + tx_Fee tx) = sum_list (map o_Amount (tx_Outputs tx)) + tx_Fee tx"
    "0 \<le> sum_list (map o_Amount (tx_Outputs tx))" "0 \<le> tx_Fee tx"
    "claim_of tx = Some c \<Longrightarrow> i64 (oc_Amount c + tx_Fee tx) = oc_Amount c + tx_Fee tx"
    "claim_of tx = Some c \<Longrightarrow> 0 \<le> oc_Amount c"
proof -
  show nn: "0 \<le> sum_list (map o_Amount (tx_Outputs tx))" "0 \<le> tx_Fee tx"
    using assms by (auto simp: sound_tx_def intro!: sum_list_nonneg)
  with assms show "i64 (sum_outs (tx_Outputs tx) + tx_Fee tx) = sum_list (map o_Amount (tx_Outputs tx)) + tx_Fee tx"
    by (subst sum_outs_exact) (auto simp: sound_tx_def intro: i64_small)
qed (use assms in \<open>auto simp: sound_tx_def claim_of_def intro!: i64_small split: if_splits\<close>)

lemma led_move_exact:
  assumes "sound_ledger B" "sound_tx tx" "led_move tx B = Inr B'"
  shows "sound_ledger B' \<and> coins B' = coins B - tx_Fee tx - tx_burned tx"
proof (cases "claim_of tx")
  case (Some c)
  let ?b = "otap_bucket (oc_P c)" and ?need = "oc_Amount c + tx_Fee tx"
  note need = tx_need_exact [OF assms(2)] tx_need_exact(4,5) [OF assms(2) Some]
  have le: "?need \<le> B ?b" using assms(3) Some need by (auto simp: led_move_def Let_def split: if_splits)
  let ?B = "B(?b := B ?b - ?need)"
  have r: "i64 (B ?b - ?need) = B ?b - ?need" "room ?B (oc_Amount c)" "coins ?B = coins B - ?need"
    using debit_exact [OF assms(1) le] need by auto
  have B': "B' = ?B(oc_To c := ?B (oc_To c) + oc_Amount c)"
    using assms(3) Some need r(1) room_exact(1) [OF r(2), of "oc_Amount c" "oc_To c"]
    by (auto simp: led_move_def Let_def split: if_splits)
  have "finite {a. ?B a \<noteq> 0}" using r(2) by (simp add: room_def)
  then have "coins B' = coins B - tx_Fee tx"
    unfolding B' by (subst coins_upd(1)) (use r(3) in simp_all)
  moreover have "room B' 0"
    unfolding B' by (rule room_upd [OF r(2)]) (use room_exact(2) [OF r(2), of "oc_Amount c"] need in auto)
  ultimately show ?thesis using Some by (simp add: sound_room tx_burned_def)
next
  case None
  let ?s = "sum_list (map o_Amount (tx_Outputs tx))"
  note need = tx_need_exact(1-3) [OF assms(2)]
  have le: "?s + tx_Fee tx \<le> B (tx_From tx)"
    using assms(3) None need by (auto simp: led_move_def Let_def split: if_splits)
  let ?B = "B(tx_From tx := B (tx_From tx) - (?s + tx_Fee tx))"
  have r: "i64 (B (tx_From tx) - (?s + tx_Fee tx)) = B (tx_From tx) - (?s + tx_Fee tx)" "room ?B ?s"
    "coins ?B = coins B - (?s + tx_Fee tx)"
    using debit_exact [OF assms(1) le] need by auto
  have "B' = fold led_credit (tx_Outputs tx) ?B"
    using assms(3) None need r(1) by (auto simp: led_move_def Let_def split: if_splits)
  with led_credits_exact [OF r(2), of "tx_Outputs tx"] r(3) None assms(2) show ?thesis
    by (simp add: sound_room tx_burned_def sound_tx_def)
qed

section \<open>Applying a validated block\<close>

lemma bal_of_other [simp]: "\<not> acct_key k \<Longrightarrow> bal_of (m(k := v)) = bal_of m"
  by (auto simp: bal_of_def fun_eq_iff)

lemma non_of_other [simp]: "\<not> acct_key k \<Longrightarrow> non_of (m(k := v)) = non_of m"
  by (auto simp: non_of_def fun_eq_iff)

lemma acct_wf_other [simp]: "\<not> acct_key k \<Longrightarrow> acct_wf (m(k := v)) = acct_wf m"
  by (auto simp: acct_wf_def)

text \<open>The accounts of a store that is well formed.\<close>

definition accounts :: "(bytes \<rightharpoonup> bytes) \<Rightarrow> ledger \<Rightarrow> bool" where
  "accounts m s \<longleftrightarrow> acct_wf m \<and> (bal_of m, non_of m) = s"

lemma PutTx_accounts:
  assumes "ldb_laws L V"
  shows "accounts (V (snd (PutTx L J h d tx))) s \<longleftrightarrow> accounts (V d) s"
proof -
  have "\<not> acct_key (keyTx i)" for i by (simp add: acct_key_def keyTx_def)
  then show ?thesis
    by (simp add: PutTx_def put_json_def accounts_def ldb_Put_view [OF assms] split: sum.split)
qed

lemma SetNonce_accounts:
  assumes "ldb_laws L V" "accounts (V d) (B, N)"
  shows "accounts (V (snd (SetNonce L d a n))) (B, N(a := n))"
  using assms by (auto simp: accounts_def SetNonce_view simp del: fun_upd_apply)

lemma apply_add_ok:
  assumes "ldb_laws L V" "accounts (V d) (B, N)" "0 \<le> i64 (B a + x)"
  shows "\<exists>d'. apply_add L d a x = Some (Inr d') \<and> accounts (V d') (B(a := i64 (B a + x)), N)"
  using AddBalance_cases(2) [OF assms(1), of d a x] assms(2,3)
  by (auto simp: apply_add_def accounts_def)

lemma apply_add_exact:
  assumes "ldb_laws L V" "accounts (V d) (B, N)" "i64 (B a + x) = y" "0 \<le> y"
  obtains d' where "apply_add L d a x = Some (Inr d')" "accounts (V d') (B(a := y), N)"
  using apply_add_ok [OF assms(1,2), of a x] assms(3,4) by blast

lemma apply_credits_ok:
  assumes "ldb_laws L V" "accounts (V d) (B, N)" "room B x" "\<forall>out \<in> set outs. 0 \<le> o_Amount out"
    "sum_list (map o_Amount outs) \<le> x"
  shows "\<exists>d'. foldE (apply_credit L) outs d = Some (Inr d') \<and> accounts (V d') (fold led_credit outs B, N)"
  using assms(2-)
proof (induction outs arbitrary: d B x)
  case (Cons out outs)
  have nn: "0 \<le> sum_list (map o_Amount outs)" using Cons.prems(3) by (intro sum_list_nonneg) auto
  have x: "0 \<le> o_Amount out" "o_Amount out \<le> x" using Cons.prems(3,4) nn by auto
  have "\<exists>d1. apply_add L d a (o_Amount out) = Some (Inr d1) \<and>
      accounts (V d1) (B(a := i64 (B a + o_Amount out)), N)" for a
    by (rule apply_add_ok [OF assms(1) Cons.prems(1)]) (simp add: room_exact(1,2) [OF Cons.prems(2) x])
  with Cons.prems(1) have "\<exists>d1. apply_credit L out d = Some (Inr d1) \<and> accounts (V d1) (led_credit out B, N)"
    by (simp add: apply_credit_def led_credit_def)
  then obtain d1 where d1: "apply_credit L out d = Some (Inr d1)" "accounts (V d1) (led_credit out B, N)" by blast
  with Cons.IH [OF d1(2) led_credit_exact(1) [OF Cons.prems(2) x]] Cons.prems(3,4) show ?case by simp
qed simp


lemma apply_debit_ok:
  assumes "ldb_laws L V" "accounts (V d) (B, N)" "sound_ledger B" "0 \<le> need" "need \<le> B a"
  shows "\<exists>d'. apply_add L d a (i64 (- need)) = Some (Inr d') \<and> accounts (V d') (B(a := B a - need), N)"
proof -
  have r: "i64 (B a - need) = B a - need" using debit_exact(1) [OF assms(3,5), of need] assms(4) by simp
  have "B a < 2 ^ 63" using room_exact(3) [of B 0 0 a] assms(3) by (simp add: sound_room)
  with assms(4,5) have "i64 (- need) = - need" by (intro i64_id) (simp add: in_i64_def)
  with apply_add_ok [OF assms(1,2), of a "- need"] r assms(5) show ?thesis by simp
qed

text \<open>
  A sound transaction the ledger accepts is applied to the store without error, and the store then
  holds the accounts of the ledger.
\<close>

lemma apply_claim_ok:
  assumes "ldb_laws L V" "accounts (V d) (B, N)" "sound_ledger B" "sound_tx tx" "claim_of tx = Some c"
    "led_move tx B = Inr B'"
  shows "\<exists>d'. bindE (apply_add L d (otap_bucket (oc_P c)) (i64 (- i64 (oc_Amount c + tx_Fee tx))))
      (\<lambda>d. apply_add L d (oc_To c) (oc_Amount c)) = Some (Inr d') \<and> accounts (V d') (B', N)"
proof -
  let ?b = "otap_bucket (oc_P c)" and ?need = "oc_Amount c + tx_Fee tx"
  let ?B = "B(?b := B ?b - ?need)"
  note need = tx_need_exact(4,5) [OF assms(4,5)] tx_need_exact(3) [OF assms(4)]
  have le: "?need \<le> B ?b" using assms(5,6) need by (auto simp: led_move_def Let_def split: if_splits)
  have r: "i64 (B ?b - ?need) = B ?b - ?need" "room ?B (oc_Amount c)"
    using debit_exact(1,2) [OF assms(3) le, of "oc_Amount c"] need by auto
  obtain d1 where d1: "apply_add L d ?b (i64 (- ?need)) = Some (Inr d1)" "accounts (V d1) (?B, N)"
    using apply_debit_ok [OF assms(1-3) _ le] need by auto
  have x: "i64 (?B (oc_To c) + oc_Amount c) = ?B (oc_To c) + oc_Amount c" "0 \<le> ?B (oc_To c) + oc_Amount c"
    using room_exact(1,2) [OF r(2), of "oc_Amount c" "oc_To c"] need by auto
  obtain d2 where d2: "apply_add L d1 (oc_To c) (oc_Amount c) = Some (Inr d2)"
    "accounts (V d2) (?B(oc_To c := ?B (oc_To c) + oc_Amount c), N)"
    using apply_add_ok [OF assms(1) d1(2), of "oc_To c" "oc_Amount c"] unfolding x(1) using x(2) by blast
  have "B' = ?B(oc_To c := ?B (oc_To c) + oc_Amount c)"
    using assms(5,6) need r(1) x(1) by (auto simp: led_move_def Let_def split: if_splits)
  with d1(1) d2 need(1) show ?thesis by simp
qed

lemma apply_transfer_ok:
  assumes "ldb_laws L V" "accounts (V d) (B, N)" "sound_ledger B" "sound_tx tx" "claim_of tx = None"
    "led_move tx B = Inr B'"
  shows "\<exists>d1 d'. apply_add L d (tx_From tx) (i64 (- i64 (sum_outs (tx_Outputs tx) + tx_Fee tx))) = Some (Inr d1) \<and>
    foldE (apply_credit L) (tx_Outputs tx) (snd (SetNonce L d1 (tx_From tx) n)) = Some (Inr d') \<and>
    accounts (V d') (B', N(tx_From tx := n))"
proof -
  let ?s = "sum_list (map o_Amount (tx_Outputs tx))"
  let ?B = "B(tx_From tx := B (tx_From tx) - (?s + tx_Fee tx))"
  note need = tx_need_exact(1-3) [OF assms(4)]
  have le: "?s + tx_Fee tx \<le> B (tx_From tx)"
    using assms(5,6) need by (auto simp: led_move_def Let_def split: if_splits)
  have r: "i64 (B (tx_From tx) - (?s + tx_Fee tx)) = B (tx_From tx) - (?s + tx_Fee tx)" "room ?B ?s"
    using debit_exact(1,2) [OF assms(3) le, of ?s] need by auto
  obtain d1 where d1: "apply_add L d (tx_From tx) (i64 (- (?s + tx_Fee tx))) = Some (Inr d1)" "accounts (V d1) (?B, N)"
    using apply_debit_ok [OF assms(1-3) _ le] need by auto
  obtain d2 where "foldE (apply_credit L) (tx_Outputs tx) (snd (SetNonce L d1 (tx_From tx) n)) = Some (Inr d2)"
    "accounts (V d2) (fold led_credit (tx_Outputs tx) ?B, N(tx_From tx := n))"
    using apply_credits_ok [OF assms(1) SetNonce_accounts [OF assms(1) d1(2)] r(2), of "tx_Outputs tx" "tx_From tx" n]
      assms(4) by (auto simp: sound_tx_def simp del: fun_upd_apply)
  moreover have "B' = fold led_credit (tx_Outputs tx) ?B"
    using assms(5,6) need r(1) by (auto simp: led_move_def Let_def split: if_splits)
  ultimately show ?thesis using d1(1) need(1) by simp
qed

lemma apply_tx_ok:
  assumes "ldb_laws L V" "accounts (V d) (B, N)" "sound_ledger B" "sound_tx tx" "tx_From tx \<noteq> []"
    "led_tx tx (B, N) = Inr s"
  shows "\<exists>d'. apply_tx L J env tx d = Some (Inr d') \<and> accounts (V d') s"
proof -
  let ?d = "snd (PutTx L J (ne_hash256 env) d tx)"
  have d: "accounts (V ?d) (B, N)" using assms(2) by (simp add: PutTx_accounts [OF assms(1)])
  obtain B' where B': "led_move tx B = Inr B'" "s = (B', N(tx_From tx := tx_Nonce tx))"
    using assms(6) by (auto simp: led_tx_def split: if_splits sum.splits)
  have ct: "claim_of (set_type tx) = claim_of tx" by (simp add: claim_of_def)
  show ?thesis
  proof (cases "claim_of tx")
    case (Some c)
    with apply_claim_ok [OF assms(1) SetNonce_accounts [OF assms(1) d] assms(3,4) Some B'(1), of "tx_From tx" "tx_Nonce tx"]
    show ?thesis using B'(2) ct by (auto simp: apply_tx_def Let_def simp del: fun_upd_apply)
  next
    case None
    with apply_transfer_ok [OF assms(1) d assms(3,4) None B'(1), of "tx_Nonce tx"] show ?thesis
      using B'(2) ct assms(5) by (auto simp: apply_tx_def Let_def simp del: fun_upd_apply)
  qed
qed


lemma apply_run_ok:
  assumes "ldb_laws L V" "accounts (V d) (B, N)" "sound_ledger B"
    "\<forall>tx \<in> set txs. sound_tx tx \<and> tx_From tx \<noteq> []" "led_txs txs (B, N) = Inr (B', N')"
  shows "\<exists>d'. foldE (apply_tx L J env) txs d = Some (Inr d') \<and> accounts (V d') (B', N') \<and> sound_ledger B' \<and>
    coins B' = coins B - sum_list (map tx_Fee txs) - sum_list (map tx_burned txs)"
  using assms(2-)
proof (induction txs arbitrary: d B N)
  case (Cons tx txs)
  obtain B1 N1 where 1: "led_tx tx (B, N) = Inr (B1, N1)" "led_txs txs (B1, N1) = Inr (B', N')"
    using Cons.prems(4) by (auto split: sum.splits)
  obtain d1 where d1: "apply_tx L J env tx d = Some (Inr d1)" "accounts (V d1) (B1, N1)"
    using apply_tx_ok [OF assms(1) Cons.prems(1,2) _ _ 1(1), of J env] Cons.prems(3) by auto
  have "sound_ledger B1 \<and> coins B1 = coins B - tx_Fee tx - tx_burned tx"
    using 1(1) Cons.prems by (intro led_move_exact) (auto simp: led_tx_def split: if_splits sum.splits)
  with Cons.IH [OF d1(2) _ _ 1(2)] Cons.prems(3) d1(1) show ?case by auto
qed simp

text \<open>What issuance adds, and the coinbase the node itself makes: no sender, a plain address.\<close>

definition minted :: "('p, 's) node_env \<Rightarrow> int" where
  "minted env = (if is_Enabled (cfg_Issuance (ne_cfg env)) then is_BlockReward (cfg_Issuance (ne_cfg env)) else 0)"

definition plain_coinbase :: "('p, 's) node_env \<Rightarrow> block \<Rightarrow> bool" where
  "plain_coinbase env b \<longleftrightarrow> (is_Enabled (cfg_Issuance (ne_cfg env)) \<longrightarrow>
     tx_From (hd (b_Txs b)) = [] \<and> o_Address (hd (tx_Outputs (hd (b_Txs b)))) \<noteq> [])"

definition body_txs :: "('p, 's) node_env \<Rightarrow> block \<Rightarrow> tx list" where
  "body_txs env b = drop (if is_Enabled (cfg_Issuance (ne_cfg env)) then 1 else 0) (b_Txs b)"

lemma apply_coinbase_ok:
  assumes "ldb_laws L V" "accounts (V d) (B, N)" "tx_Type cb = ''coinbase''" "tx_From cb = []"
    "tx_Outputs cb = [out]" "o_Address out \<noteq> []" "room B (o_Amount out)"
  shows "\<exists>d' B'. apply_tx L J env cb d = Some (Inr d') \<and> led_coinbase [out] (B, N) = (B', N) \<and>
    accounts (V d') (B', N) \<and> sound_ledger B' \<and> coins B' = coins B + o_Amount out"
proof -
  let ?d = "snd (PutTx L J (ne_hash256 env) d cb)"
  have x: "0 \<le> o_Amount out" using assms(7) by (simp add: room_def)
  obtain d' where d': "foldE (apply_credit L) [out] ?d = Some (Inr d')" "accounts (V d') (led_credit out B, N)"
    using apply_credits_ok [OF assms(1), of ?d B N "o_Amount out" "[out]"] assms(2,7) x
    by (auto simp: PutTx_accounts [OF assms(1)])
  have "claim_of (set_type cb) = None" using assms(3) by (simp add: claim_of_def)
  then have "apply_tx L J env cb d = foldE (apply_credit L) [out] ?d"
    using assms(4,5) by (simp add: apply_tx_def Let_def)
  moreover have "led_coinbase [out] (B, N) = (led_credit out B, N)"
    using assms(6) by (simp add: led_coinbase_def led_credit_def)
  ultimately show ?thesis
    using d' led_credit_exact [OF assms(7) x order_refl] assms(6) by (auto simp: sound_room burned_def)
qed

lemma PutBlockFeeSum_view:
  assumes "ldb_laws L V"
  shows "accounts (V (PutBlockFeeSum L d h s)) x \<longleftrightarrow> accounts (V d) x"
    "GetBlockFeeSum L (PutBlockFeeSum L d h s) h = (i64 s, True)"
proof -
  have "\<not> acct_key (keyBlockFees h)" by (simp add: acct_key_def keyBlockFees_def)
  then show "accounts (V (PutBlockFeeSum L d h s)) x \<longleftrightarrow> accounts (V d) x"
    by (simp add: PutBlockFeeSum_def accounts_def ldb_Put_view [OF assms])
  show "GetBlockFeeSum L (PutBlockFeeSum L d h s) h = (i64 s, True)"
    by (simp add: PutBlockFeeSum_def GetBlockFeeSum_def ldb_Put_view [OF assms] ldb_Get_eq [OF assms])
qed

text \<open>
  C2. A block that both validators accept is applied to the store without error. On a healthy
  store whose accounts are well formed and whose balances are non-negative and, with the reward,
  add up to less than \<open>2 ^ 63\<close>, for a block with no negative or overflowing amounts and, with
  issuance on, a coinbase that has a receiver and no sender: the store then holds the balances and nonces the simulation computed; no balance
  is negative; and the coins are those before plus the reward, less the fees and the outputs that
  name no receiver. The fees of the block, in contrast, are always recorded as 0.
\<close>

theorem validated_block_applies:
  assumes "ldb_laws L V" "acct_wf (V d)" "ValidateBlockBasic env b = None"
    "ValidateBlockStateTip L env d b = Some None" "plain_coinbase env b"
    "\<forall>tx \<in> set (body_txs env b). sound_tx tx" "room (bal_of (V d)) (minted env)"
  shows "\<exists>d'. applyBlockTxs L J env d b = Some (None, d') \<and> acct_wf (V d') \<and>
    led_block env b (bal_of (V d), non_of (V d)) = Inr (bal_of (V d'), non_of (V d')) \<and>
    sound_ledger (bal_of (V d')) \<and>
    coins (bal_of (V d')) = coins (bal_of (V d)) + minted env
      - sum_list (map tx_Fee (body_txs env b)) - sum_list (map tx_burned (body_txs env b)) \<and>
    GetBlockFeeSum L d' (bh_Height (b_Header b)) = (0, True)"
proof -
  let ?s = "(bal_of (V d), non_of (V d))"
  have acc: "accounts (V d) ?s" using assms(2) by (simp add: accounts_def)
  have frm: "\<forall>tx \<in> set (body_txs env b). sound_tx tx \<and> tx_From tx \<noteq> []"
    using assms(6) basic_txD(2) [OF ValidateBlockBasicD(2) [OF assms(3)]] by (simp add: body_txs_def)
  obtain B' N' where led: "led_block env b ?s = Inr (B', N')"
    using ValidateBlockStateTip_eq [OF assms(1,2) block_shape_basic [OF assms(3)]] assms(4)
    by (auto split: sum.splits)
  have "\<exists>d'. foldE (apply_tx L J env) (b_Txs b) d = Some (Inr d') \<and> accounts (V d') (B', N') \<and> sound_ledger B' \<and>
    coins B' = coins (bal_of (V d)) + minted env
      - sum_list (map tx_Fee (body_txs env b)) - sum_list (map tx_burned (body_txs env b))"
  proof (cases "is_Enabled (cfg_Issuance (ne_cfg env))")
    case False
    with apply_run_ok [OF assms(1) acc _ frm, of B' N' J env] led assms(7) show ?thesis
      by (simp add: led_block_def body_txs_def minted_def sound_room)
  next
    case True
    from ValidateBlockBasicD(3) [OF assms(3) True] obtain cb rest out where
      b: "b_Txs b = cb # rest" "tx_Type cb = ''coinbase''" "tx_Outputs cb = [out]" "o_Amount out = minted env"
      using True by (auto simp: minted_def)
    with assms(5,7) True obtain d1 B1 where 1: "apply_tx L J env cb d = Some (Inr d1)"
      "led_coinbase [out] ?s = (B1, non_of (V d))" "accounts (V d1) (B1, non_of (V d))" "sound_ledger B1"
      "coins B1 = coins (bal_of (V d)) + minted env"
      using apply_coinbase_ok [OF assms(1) acc, of cb out J env] by (auto simp: plain_coinbase_def)
    have rest: "body_txs env b = rest" using True b by (simp add: body_txs_def)
    with apply_run_ok [OF assms(1) 1(3,4), of rest B' N' J env] frm led True b 1 show ?thesis
      by (simp add: led_block_def)
  qed
  then obtain d' where d': "foldE (apply_tx L J env) (b_Txs b) d = Some (Inr d')" "accounts (V d') (B', N')"
    "sound_ledger B'" "coins B' = coins (bal_of (V d)) + minted env
      - sum_list (map tx_Fee (body_txs env b)) - sum_list (map tx_burned (body_txs env b))" by blast
  let ?d = "PutBlockFeeSum L d' (bh_Height (b_Header b)) 0"
  have "accounts (V ?d) (B', N')" using d'(2) by (simp add: PutBlockFeeSum_view [OF assms(1)])
  moreover have "applyBlockTxs L J env d b = Some (None, ?d)" using d'(1) by (simp add: applyBlockTxs_def)
  ultimately show ?thesis
    using d'(3,4) led PutBlockFeeSum_view(2) [OF assms(1), of d' "bh_Height (b_Header b)" 0]
    by (intro exI [of _ ?d]) (auto simp: accounts_def i64_small)
qed


lemma sample_tip: "ValidateBlockStateTip alist_db sample_env sample_funds sample_block = Some None"
  using ValidateBlockStateTip_eq [OF alist_db_laws sample_funds_view(1) block_shape_basic [OF sample_block_ok(2)]]
    ValidateBlockBasicD(1) [OF sample_block_ok(2)]
  by (simp add: sample_led)

lemma sample_sound: "sound_tx sample_transfer" "room (bal_of (map_of sample_funds)) 0"
proof -
  show "sound_tx sample_transfer" by (simp add: sound_tx_def sample_transfer_def zero_tx_def)
  have "{a. ((\<lambda>_. 0)(sample_key := 2000 :: int)) a \<noteq> 0} = {sample_key}" by auto
  then show "room (bal_of (map_of sample_funds)) 0"
    unfolding sample_funds_view by (simp add: room_def coins_def)
qed

theorem validated_block_applies_witness:
  "\<exists>d'. applyBlockTxs alist_db (table_codec zero_tx []) sample_env sample_funds sample_block = Some (None, d') \<and>
        bal_of (map_of d') ''bob'' = 50 \<and> bal_of (map_of d') sample_key = 950"
proof -
  have env: "minted sample_env = 0" "plain_coinbase sample_env sample_block" "body_txs sample_env sample_block = [sample_transfer]"
    by (simp_all add: minted_def plain_coinbase_def body_txs_def sample_env_def sample_config_def sample_block_def)
  obtain d' where d': "applyBlockTxs alist_db (table_codec zero_tx []) sample_env sample_funds sample_block = Some (None, d')"
    "bal_of (map_of d') = (\<lambda>_. 0)(sample_key := 950, ''bob'' := 50)"
    using validated_block_applies [OF alist_db_laws sample_funds_view(1) sample_block_ok(2) sample_tip env(2),
      of "table_codec zero_tx []"] sample_sound unfolding env sample_led by (auto simp del: fun_upd_apply)
  have "sample_key \<noteq> ''bob''" by code_simp
  with d' show ?thesis by simp
qed

section \<open>What the validators let through\<close>

lemma i64_cancel: "i64 (i64 (- x) + x) = 0"
proof -
  have "i64 (i64 y + x) = i64 (y + x)" for x y
    unfolding i64_eq by (simp add: mod_simps algebra_simps)
  then have "i64 (i64 (- x) + x) = i64 0" by simp
  then show ?thesis by (simp add: i64_small)
qed

text \<open>
  C27. Nothing checks the sign of an amount. A transfer with two outputs, one of \<open>- x\<close> to somebody
  else and one of \<open>x\<close> back to the sender, in a block that passes the basic rules: the simulation
  accepts it and the application to the store takes \<open>x\<close> from the other account and gives it to the
  sender, who pays the fee only.
\<close>

theorem negative_output_steals:
  assumes "ldb_laws L V" "acct_wf (V d)" "ValidateBlockBasic env b = None"
    "\<not> is_Enabled (cfg_Issuance (ne_cfg env))" "b_Txs b = [tx]" "tx_Type tx \<noteq> ''otap_claim''"
    "tx_Nonce tx = non_of (V d) (tx_From tx) + 1" "tx_Outputs tx = [o1, o2]"
    "o_Amount o1 = - x" "o_Address o1 = victim" "o_Amount o2 = x" "o_Address o2 = tx_From tx"
    "victim \<noteq> []" "victim \<noteq> tx_From tx" "0 \<le> x" "x \<le> bal_of (V d) victim"
    "0 \<le> tx_Fee tx" "tx_Fee tx \<le> bal_of (V d) (tx_From tx)" "bal_of (V d) (tx_From tx) + x < 2 ^ 63"
  shows "ValidateBlockStateTip L env d b = Some None \<and>
    (\<exists>d'. applyBlockTxs L J env d b = Some (None, d') \<and> bal_of (V d') victim = bal_of (V d) victim - x \<and>
       bal_of (V d') (tx_From tx) = bal_of (V d) (tx_From tx) + x - tx_Fee tx)"
proof -
  let ?B = "bal_of (V d)" and ?N = "non_of (V d)" and ?a = "tx_From tx"
  have a: "?a \<noteq> []" using basic_txD(2) [OF ValidateBlockBasicD(2) [OF assms(3)]] assms(4,5) by simp
  have in64: "in_i64 (?B v)" for v by (auto simp: bal_of_def in_i64_simps split: option.split)
  have need: "i64 (sum_outs (tx_Outputs tx) + tx_Fee tx) = tx_Fee tx"
    using i64_cancel [of x] i64_small [of "tx_Fee tx"] assms(8,9,11,15,17-19) by (simp add: sum_outs_def)
  let ?B1 = "?B(?a := ?B ?a - tx_Fee tx)"
  let ?B2 = "?B1(victim := ?B victim - x)"
  let ?B3 = "?B2(?a := ?B ?a - tx_Fee tx + x)"
  have e: "i64 (?B ?a - tx_Fee tx) = ?B ?a - tx_Fee tx" "i64 (?B victim - x) = ?B victim - x"
    "i64 (?B ?a - tx_Fee tx + x) = ?B ?a - tx_Fee tx + x" "i64 (- tx_Fee tx) = - tx_Fee tx"
    using assms(15-19) in64 [of victim] by (auto simp: in_i64_def intro!: i64_small i64_id)
  have nc: "claim_of tx = None" "claim_of (set_type tx) = None" using assms(6) by (simp_all add: claim_of_def)
  have "led_block env b (?B, ?N) = Inr (?B3, ?N(?a := tx_Nonce tx))"
    using assms(4,5,7-14,18) need e a nc
    by (simp add: led_block_def led_tx_def led_move_def led_credit_def Let_def fun_upd_twist)
  then have tip: "ValidateBlockStateTip L env d b = Some None"
    using ValidateBlockStateTip_eq [OF assms(1,2) block_shape_basic [OF assms(3)]] ValidateBlockBasicD(1) [OF assms(3)]
    by simp
  let ?d = "snd (PutTx L J (ne_hash256 env) d tx)"
  have "accounts (V d) (?B, ?N)" using assms(2) by (simp add: accounts_def)
  then have d0: "accounts (V ?d) (?B, ?N)" by (simp add: PutTx_accounts [OF assms(1)])
  obtain d1 where d1: "apply_add L ?d ?a (- tx_Fee tx) = Some (Inr d1)" "accounts (V d1) (?B1, ?N)"
    by (rule apply_add_exact [OF assms(1) d0, of ?a "- tx_Fee tx"]) (use e in simp, use assms(18) in linarith)
  let ?N1 = "?N(?a := tx_Nonce tx)"
  have n1: "accounts (V (snd (SetNonce L d1 ?a (tx_Nonce tx)))) (?B1, ?N1)"
    by (rule SetNonce_accounts [OF assms(1) d1(2)])
  obtain d2 where d2: "apply_add L (snd (SetNonce L d1 ?a (tx_Nonce tx))) victim (- x) = Some (Inr d2)"
    "accounts (V d2) (?B2, ?N1)"
    by (rule apply_add_exact [OF assms(1) n1, of victim "- x"]) (use e assms(14) in simp, use assms(16) in linarith)
  obtain d3 where d3: "apply_add L d2 ?a x = Some (Inr d3)" "accounts (V d3) (?B3, ?N1)"
    by (rule apply_add_exact [OF assms(1) d2(2), of ?a x]) (use e assms(14) in simp, use assms(15,18) in linarith)
  have "apply_tx L J env tx d = Some (Inr d3)"
    using d1(1) d2(1) d3(1) assms(8-13) need e a nc
    by (simp add: apply_tx_def Let_def apply_credit_def)
  then have "applyBlockTxs L J env d b = Some (None, PutBlockFeeSum L d3 (bh_Height (b_Header b)) 0)"
    using assms(5) by (simp add: applyBlockTxs_def)
  moreover have "accounts (V (PutBlockFeeSum L d3 (bh_Height (b_Header b)) 0)) (?B3, ?N1)"
    using d3(2) by (simp add: PutBlockFeeSum_view [OF assms(1)])
  ultimately show ?thesis using tip assms(14) by (auto simp: accounts_def)
qed


definition sample_theft :: block where
  "sample_theft = \<lparr>b_Header = zero_header, b_Txs = [sample_transfer\<lparr>tx_Outputs := [
     \<lparr>o_Amount = - 30, o_Asset = ''USDR'', o_Address = ''bob'', o_P = [], o_R = [], o_Tag = [], o_EncMemo = [], o_PolicyBits = 0\<rparr>,
     \<lparr>o_Amount = 30, o_Asset = ''USDR'', o_Address = sample_key, o_P = [], o_R = [], o_Tag = [], o_EncMemo = [], o_PolicyBits = 0\<rparr>]\<rparr>]\<rparr>"

definition sample_theft_store :: "(bytes \<times> bytes) list" where
  "sample_theft_store = [(keyBal sample_key, PutUint64 2000), (keyBal ''bob'', PutUint64 40)]"

lemma sample_theft_store_view:
  "acct_wf (map_of sample_theft_store)" "bal_of (map_of sample_theft_store) = (\<lambda>_. 0)(''bob'' := 40, sample_key := 2000)"
  "non_of (map_of sample_theft_store) = (\<lambda>_. 0)"
proof -
  have "int_of_u64 2000 = 2000" "int_of_u64 40 = 40" by (simp_all add: int_of_u64_def)
  then show "bal_of (map_of sample_theft_store) = (\<lambda>_. 0)(''bob'' := 40, sample_key := 2000)"
    by (auto simp: bal_of_def sample_theft_store_def fun_eq_iff)
qed (auto simp: acct_wf_def non_of_def sample_theft_store_def split: if_splits)

lemma sample_theft_basic: "ValidateBlockBasic sample_env sample_theft = None"
  unfolding sample_theft_def by (rule sample_block_basic) simp_all

theorem negative_output_steals_witness:
  "\<exists>d'. applyBlockTxs alist_db (table_codec zero_tx []) sample_env sample_theft_store sample_theft = Some (None, d') \<and>
        bal_of (map_of d') ''bob'' = 10 \<and> bal_of (map_of d') sample_key = 1030"
proof -
  have n: "sample_key \<noteq> ''bob''" "''bob'' \<noteq> sample_key" by code_simp+
  let ?tx = "hd (b_Txs sample_theft)"
  have tx: "tx_From ?tx = sample_key" "tx_Fee ?tx = 1000" "tx_Nonce ?tx = 1" "tx_Type ?tx = []"
    "b_Txs sample_theft = [?tx]" "\<not> is_Enabled (cfg_Issuance (ne_cfg sample_env))"
    by (simp_all add: sample_theft_def sample_transfer_def zero_tx_def sample_env_def sample_config_def)
  have outs: "\<exists>o1 o2. tx_Outputs ?tx = [o1, o2] \<and> o_Amount o1 = - 30 \<and> o_Address o1 = ''bob'' \<and>
      o_Amount o2 = 30 \<and> o_Address o2 = sample_key"
    by (simp add: sample_theft_def)
  then obtain o1 o2 where o: "tx_Outputs ?tx = [o1, o2]" "o_Amount o1 = - 30" "o_Address o1 = ''bob''"
    "o_Amount o2 = 30" "o_Address o2 = sample_key" by blast
  from negative_output_steals [OF alist_db_laws sample_theft_store_view(1) sample_theft_basic tx(6,5) _ _ o(1-4),
      of "table_codec zero_tx []"] o(5) n
  show ?thesis by (simp add: tx(1-4) sample_theft_store_view)
qed

lemma sumFees_exact:
  assumes "\<forall>tx \<in> set txs. 0 \<le> tx_Fee tx"
    "sum_list (map tx_Fee (filter (\<lambda>tx. tx_Type tx \<noteq> ''coinbase'') txs)) < 2 ^ 63"
  shows "sumFees txs = sum_list (map tx_Fee (filter (\<lambda>tx. tx_Type tx \<noteq> ''coinbase'') txs))"
proof -
  let ?f = "\<lambda>txs. sum_list (map tx_Fee (filter (\<lambda>tx. tx_Type tx \<noteq> ''coinbase'') txs))"
  have "foldl (\<lambda>s tx. if tx_Type tx = ''coinbase'' then s else i64 (s + tx_Fee tx)) s txs = s + ?f txs"
    if "0 \<le> s" "s + ?f txs < 2 ^ 63" for s
    using assms(1) that
  proof (induction txs arbitrary: s)
    case (Cons tx txs)
    have "0 \<le> ?f txs" using Cons.prems(1) by (intro sum_list_nonneg) auto
    with Cons show ?case by (auto simp: i64_small)
  qed simp
  from this [of 0] assms(2) show ?thesis by (simp add: sumFees_def)
qed

text \<open>
  C28. With issuance on, no block that pays fees is valid: the coinbase output must equal the block
  reward exactly, and it must also cover the reward together with the fees. So a block with a
  positive total of fees (of transactions with non-negative fees, and no overflow) fails the basic
  rules. The reward that is to be covered is read from a field \<^verbatim>\<open>Issuance.Reward\<close> that the
  configuration does not declare; it is taken to hold the configured block reward.
\<close>

theorem fee_paying_block_rejected:
  assumes "is_Enabled (cfg_Issuance (ne_cfg env))" "ne_Reward env = is_BlockReward (cfg_Issuance (ne_cfg env))"
    "0 \<le> ne_Reward env" "\<forall>tx \<in> set (b_Txs b). 0 \<le> tx_Fee tx"
    "0 < sum_list (map tx_Fee (filter (\<lambda>tx. tx_Type tx \<noteq> ''coinbase'') (b_Txs b)))"
    "ne_Reward env + sum_list (map tx_Fee (filter (\<lambda>tx. tx_Type tx \<noteq> ''coinbase'') (b_Txs b))) < 2 ^ 63"
  shows "ValidateBlockBasic env b \<noteq> None"
proof
  assume ok: "ValidateBlockBasic env b = None"
  from ValidateBlockBasicD(3) [OF ok assms(1)] obtain cb rest out where
    b: "b_Txs b = cb # rest" "tx_Type cb = ''coinbase''" "tx_Outputs cb = [out]" "o_Amount out = ne_Reward env"
    using assms(2) by auto
  have "sumFees (b_Txs b) = sum_list (map tx_Fee (filter (\<lambda>tx. tx_Type tx \<noteq> ''coinbase'') (b_Txs b)))"
    using assms(3,4,6) by (intro sumFees_exact) auto
  with assms(3,5,6) have "sum_outs (tx_Outputs cb) < i64 (ne_Reward env + sumFees (b_Txs b))"
    using b(3,4) by (simp add: sum_outs_def i64_small)
  with ValidateBlockBasicD(1) [OF ok] b show False by (simp add: coinbase_covers_def)
qed

text \<open>A coinbase that pays the reward, and an environment in which it is valid.\<close>

definition sample_issuing_env :: "(unit, unit) node_env" where
  "sample_issuing_env = sample_env\<lparr>ne_Reward := 5000,
     ne_cfg := sample_config\<lparr>cfg_Issuance := \<lparr>is_Enabled = True, is_BlockReward = 5000, is_RewardAsset = ''USDR'', is_CoinbaseTo = ''m''\<rparr>\<rparr>\<rparr>"

definition sample_coinbase :: tx where
  "sample_coinbase = zero_tx\<lparr>tx_Type := ''coinbase'', tx_Outputs := [\<lparr>o_Amount = 5000, o_Asset = ''USDR'', o_Address = ''m'',
     o_P = [], o_R = [], o_Tag = [], o_EncMemo = [], o_PolicyBits = 0\<rparr>]\<rparr>"

lemma basic_tx_cong:
  assumes "ne_hash256 env = ne_hash256 env'" "ne_edwards env = ne_edwards env'" "ne_mustHex32 env = ne_mustHex32 env'"
    "cfg_Fees (ne_cfg env) = cfg_Fees (ne_cfg env')"
  shows "basic_tx env tx = basic_tx env' tx"
  unfolding basic_tx_def basic_claim_def fee_params_of_def assms ..

lemma sample_issuing_ok:
  "ValidateBlockBasic sample_issuing_env \<lparr>b_Header = zero_header, b_Txs = [sample_coinbase]\<rparr> = None"
  "basic_tx sample_issuing_env sample_transfer = None"
proof -
  show "ValidateBlockBasic sample_issuing_env \<lparr>b_Header = zero_header, b_Txs = [sample_coinbase]\<rparr> = None"
    by (simp add: ValidateBlockBasic_def basic_coinbase_def coinbase_covers_def sumFees_def sum_outs_def sample_issuing_env_def
        sample_coinbase_def zero_tx_def i64_small)
  have "basic_tx sample_env sample_transfer = None"
    using sample_basic_tx [of "tx_Outputs sample_transfer"] by (simp add: sample_transfer_def)
  moreover have "basic_tx sample_issuing_env tx = basic_tx sample_env tx" for tx
    by (rule basic_tx_cong) (simp_all add: sample_issuing_env_def sample_env_def)
  ultimately show "basic_tx sample_issuing_env sample_transfer = None" by simp
qed

theorem fee_paying_block_rejected_witness:
  "ValidateBlockBasic sample_issuing_env \<lparr>b_Header = zero_header, b_Txs = [sample_coinbase]\<rparr> = None \<and>
   basic_tx sample_issuing_env sample_transfer = None \<and>
   ValidateBlockBasic sample_issuing_env \<lparr>b_Header = zero_header, b_Txs = [sample_coinbase, sample_transfer]\<rparr> \<noteq> None"
proof (intro conjI)
  show "ValidateBlockBasic sample_issuing_env \<lparr>b_Header = zero_header, b_Txs = [sample_coinbase, sample_transfer]\<rparr> \<noteq> None"
    by (rule fee_paying_block_rejected) (simp_all add: sample_issuing_env_def sample_coinbase_def zero_tx_def sample_transfer_def)
qed (rule sample_issuing_ok)+

text \<open>
  Transactions selected for a new block are valid on the tip: with issuance off, on a healthy
  store, for pending transactions none of which is a coinbase or a claim without body, the selection
  returns, and the block made of what it returns passes the simulation, whatever order the sort
  gives to transactions of equal fee and identifier.
\<close>

theorem filtered_txs_valid:
  assumes "ldb_laws L V" "acct_wf (V d)" "\<not> is_Enabled (cfg_Issuance (ne_cfg env))"
    "mset (sortSlice (tx_before env) txs) = mset txs"
    "\<forall>tx \<in> set txs. tx_Type tx \<noteq> ''coinbase'' \<and> (tx_Type tx = ''otap_claim'' \<longrightarrow> tx_OTAPClaim tx \<noteq> None)"
  shows "\<exists>out. FilterTxsBySimState L env sortSlice d txs = Some out \<and> set out \<subseteq> set txs \<and>
    ValidateBlockStateTip L env d \<lparr>b_Header = h, b_Txs = out\<rparr> = Some None"
proof -
  have sort: "set (sortSlice (tx_before env) txs) = set txs" using assms(4) by (rule mset_eq_setD)
  obtain st out where out: "filter_loop (cached_ops L d) (sortSlice (tx_before env) txs) (empty_sim, []) = Some (st, out)"
    "led_txs out (bal_of (V d), non_of (V d)) = Inr (cached_bal (V d) st, cached_non (V d) st)" "set out \<subseteq> set txs"
    using cached.filter_run_refines [where L = L and V = V and d = d and st = empty_sim and out = "[]"
        and txs = "sortSlice (tx_before env) txs" and ?s0.0 = "(bal_of (V d), non_of (V d))"] assms(1,2,5) sort by auto
  let ?b = "\<lparr>b_Header = h, b_Txs = out\<rparr>"
  have "block_shape env ?b" using assms(3,5) out(3) by (auto simp: block_shape_def)
  moreover have "coinbase_covers env ?b = None" using assms(5) out(3) by (cases out) (auto simp: coinbase_covers_def)
  ultimately have "ValidateBlockStateTip L env d ?b = Some None"
    using ValidateBlockStateTip_eq [OF assms(1,2), of env ?b] out(2) assms(3) by (simp add: led_block_def)
  with out show ?thesis by (auto simp: FilterTxsBySimState_def)
qed

lemma filter_step_length: "filter_step A tx (st, out) = Some (st', out') \<Longrightarrow> length out' \<le> Suc (length out)"
  by (auto simp: filter_step_def Let_def split: if_splits option.splits bind_splits prod.splits)

lemma filter_loop_length: "filter_loop A txs (st, out) = Some (st', out') \<Longrightarrow> length out' \<le> length out + length txs"
proof (induction txs arbitrary: st out)
  case (Cons tx txs)
  then obtain st1 out1 where s: "filter_step A tx (st, out) = Some (st1, out1)" "filter_loop A txs (st1, out1) = Some (st', out')"
    by (auto simp: bind_eq_Some_conv)
  from Cons.IH [OF s(2)] filter_step_length [OF s(1)] show ?case by simp
qed simp

lemma FilterTxs_length:
  assumes "FilterTxsBySimState L env sortSlice d txs = Some out" "mset (sortSlice (tx_before env) txs) = mset txs"
  shows "length out \<le> length txs"
proof -
  obtain st where "filter_loop (cached_ops L d) (sortSlice (tx_before env) txs) (empty_sim, []) = Some (st, out)"
    using assms(1) by (auto simp: FilterTxsBySimState_def bind_eq_Some_conv)
  from filter_loop_length [OF this] mset_eq_length [OF assms(2)] show ?thesis by simp
qed

text \<open>An insertion sort by the order of the code.\<close>

fun insert_by :: "('a \<Rightarrow> 'a \<Rightarrow> bool) \<Rightarrow> 'a \<Rightarrow> 'a list \<Rightarrow> 'a list" where
  "insert_by lt x [] = [x]"
| "insert_by lt x (y # ys) = (if lt y x then y # insert_by lt x ys else x # y # ys)"

definition sort_by :: "('a \<Rightarrow> 'a \<Rightarrow> bool) \<Rightarrow> 'a list \<Rightarrow> 'a list" where
  "sort_by lt xs = foldr (insert_by lt) xs []"

lemma mset_sort_by [simp]: "mset (sort_by lt xs) = mset xs"
proof -
  have "mset (insert_by lt x ys) = add_mset x (mset ys)" for x ys by (induction ys) auto
  then show ?thesis unfolding sort_by_def by (induction xs) auto
qed

theorem filtered_txs_valid_witness:
  "\<exists>out. FilterTxsBySimState alist_db sample_env sort_by sample_funds [sample_transfer] = Some out \<and>
     ValidateBlockStateTip alist_db sample_env sample_funds \<lparr>b_Header = zero_header, b_Txs = out\<rparr> = Some None"
proof -
  have "\<not> is_Enabled (cfg_Issuance (ne_cfg sample_env))" by (simp add: sample_env_def sample_config_def)
  from filtered_txs_valid [OF alist_db_laws sample_funds_view(1) this,
      where sortSlice = sort_by and txs = "[sample_transfer]" and h = zero_header]
  show ?thesis by (auto simp: sample_transfer_def zero_tx_def)
qed

end
