(* ===== verification/Participation.thy ===== *)
theory Participation
  imports NetStore LedgerApply
begin

text \<open>
  The fee pools and their distribution: the properties of \<^verbatim>\<open>internal/reservestorage/fees.go\<close>, and
  proof of participation, \<^verbatim>\<open>core/economics/pop/pop.go\<close>.
\<close>

section \<open>The pools of a store\<close>

definition num_of :: "(bytes \<rightharpoonup> bytes) \<Rightarrow> bytes \<Rightarrow> u64" where
  "num_of m k = (case m k of None \<Rightarrow> 0 | Some b \<Rightarrow> of_int (be_int b))"

definition num_wf :: "(bytes \<rightharpoonup> bytes) \<Rightarrow> bytes \<Rightarrow> bool" where
  "num_wf m k \<longleftrightarrow> (\<forall>b. m k = Some b \<longrightarrow> length b = 8)"

lemma num_upd [simp]:
  "num_of (m(k \<mapsto> PutUint64 v)) k' = (if k' = k then v else num_of m k')"
  "num_wf m k' \<Longrightarrow> num_wf (m(k \<mapsto> PutUint64 v)) k'"
  by (auto simp: num_of_def num_wf_def)

lemma num_of_cong: "m k = m' k \<Longrightarrow> num_of m k = num_of m' k"
  by (simp add: num_of_def)

lemma getU64_eq:
  assumes "ldb_laws L V" "num_wf (V d) k"
  shows "getU64 L d k = Some (num_of (V d) k, V d k \<noteq> None)"
  using assms by (auto simp: getU64_def ldb_Get_eq num_of_def num_wf_def Uint64_def split: option.split)

lemma put_u64_view:
  assumes "ldb_laws L V"
  shows "fst (put_u64 L d k v) = None" "V (snd (put_u64 L d k v)) = (V d)(k \<mapsto> PutUint64 v)"
  by (simp_all add: put_u64_def ldb_Put_ok [OF assms] ldb_Put_view [OF assms])

definition pool_key :: "string \<Rightarrow> bytes" where
  "pool_key name = ''fees:pool:'' @ name"

definition pool_names :: "string list" where
  "pool_names = [''validators'', ''participation'', ''treasury'', ''defense'']"

lemma pool_keys:
  "keyFeePoolValidators = pool_key ''validators''" "keyFeePoolParticipation = pool_key ''participation''"
  "keyFeePoolTreasury = pool_key ''treasury''" "keyFeePoolDefense = pool_key ''defense''"
  by (simp_all add: pool_key_def keyFeePoolValidators_def keyFeePoolParticipation_def keyFeePoolTreasury_def
      keyFeePoolDefense_def)

lemma pool_key_inj [simp]: "pool_key a = pool_key b \<longleftrightarrow> a = b"
  by (simp add: pool_key_def)

definition pools_wf :: "(bytes \<rightharpoonup> bytes) \<Rightarrow> bool" where
  "pools_wf m \<longleftrightarrow> (\<forall>name \<in> set pool_names. num_wf m (pool_key name))"

lemma pools_wfD:
  assumes "pools_wf m"
  shows "num_wf m (pool_key ''validators'')" "num_wf m (pool_key ''participation'')"
    "num_wf m (pool_key ''treasury'')" "num_wf m (pool_key ''defense'')"
  using assms by (simp_all add: pools_wf_def pool_names_def)

lemma pools_wf_upd [simp]: "pools_wf m \<Longrightarrow> pools_wf (m(k \<mapsto> PutUint64 v))"
  by (simp add: pools_wf_def)

lemma pool_entry_ok:
  assumes "ldb_laws L V" "num_wf (V d) k" "out name = None"
  obtains out' where "pool_entry L d k name out = Some out'"
    "case_option 0 (\<lambda>v. v) (out' name) = num_of (V d) k" "\<And>n. n \<noteq> name \<Longrightarrow> out' n = out n"
  by (rule that [of "if V d k \<noteq> None then out(name \<mapsto> num_of (V d) k) else out"])
    (use assms(3) in \<open>auto simp: pool_entry_def getU64_eq [OF assms(1,2)] num_of_def\<close>)

lemma GetFeePools_eq:
  assumes "ldb_laws L V" "pools_wf (V d)"
  shows "\<exists>out. GetFeePools L d = Some out \<and>
    (\<forall>name \<in> set pool_names. case_option 0 (\<lambda>v. v) (out name) = num_of (V d) (pool_key name))"
proof -
  note wf = pools_wfD [OF assms(2)]
  obtain o1 where 1: "pool_entry L d (pool_key ''validators'') ''validators'' Map.empty = Some o1"
    "case_option 0 (\<lambda>v. v) (o1 ''validators'') = num_of (V d) (pool_key ''validators'')"
    "\<And>n. n \<noteq> ''validators'' \<Longrightarrow> o1 n = None"
    using pool_entry_ok [OF assms(1) wf(1), of Map.empty] by metis
  have "o1 ''participation'' = None" by (simp add: 1(3))
  then obtain o2 where 2: "pool_entry L d (pool_key ''participation'') ''participation'' o1 = Some o2"
    "case_option 0 (\<lambda>v. v) (o2 ''participation'') = num_of (V d) (pool_key ''participation'')"
    "\<And>n. n \<noteq> ''participation'' \<Longrightarrow> o2 n = o1 n"
    using pool_entry_ok [OF assms(1) wf(2)] by metis
  have "o2 ''treasury'' = None" by (simp add: 1(3) 2(3))
  then obtain o3 where 3: "pool_entry L d (pool_key ''treasury'') ''treasury'' o2 = Some o3"
    "case_option 0 (\<lambda>v. v) (o3 ''treasury'') = num_of (V d) (pool_key ''treasury'')"
    "\<And>n. n \<noteq> ''treasury'' \<Longrightarrow> o3 n = o2 n"
    using pool_entry_ok [OF assms(1) wf(3)] by metis
  have "o3 ''defense'' = None" by (simp add: 1(3) 2(3) 3(3))
  then obtain o4 where 4: "pool_entry L d (pool_key ''defense'') ''defense'' o3 = Some o4"
    "case_option 0 (\<lambda>v. v) (o4 ''defense'') = num_of (V d) (pool_key ''defense'')"
    "\<And>n. n \<noteq> ''defense'' \<Longrightarrow> o4 n = o3 n"
    using pool_entry_ok [OF assms(1) wf(4)] by metis
  have "GetFeePools L d = Some o4" by (simp add: GetFeePools_def pool_keys 1(1) 2(1) 3(1) 4(1))
  then show ?thesis by (simp add: pool_names_def 1(2) 2(2,3) 3(2,3) 4(2,3))
qed

lemma SetFeePool_eq:
  assumes "name \<in> set pool_names"
  shows "SetFeePool L d name v = put_u64 L d (pool_key name) v"
  using assms by (auto simp: SetFeePool_def pool_keys pool_names_def)

lemma add_pool_eq:
  assumes "ldb_laws L V" "num_wf (V d) k"
  shows "\<exists>d'. add_pool L k x d = Some d' \<and>
    (V d' = V d \<and> x = 0 \<or> V d' = (V d)(k \<mapsto> PutUint64 (num_of (V d) k + x)))"
proof (cases "x > 0")
  case True
  obtain e d' where p: "put_u64 L d k (num_of (V d) k + x) = (e, d')" by fastforce
  with put_u64_view(2) [OF assms(1), of d k "num_of (V d) k + x"] True show ?thesis
    by (simp add: add_pool_def addU64_def getU64_eq [OF assms])
next
  case False
  then show ?thesis by (simp add: add_pool_def word_gt_0)
qed

text \<open>In either case the pool grows by \<open>x\<close> and nothing else changes.\<close>

lemma add_pool_ok:
  assumes "ldb_laws L V" "pools_wf (V d)" "num_wf (V d) k"
  obtains d' where "add_pool L k x d = Some d'" "pools_wf (V d')" "num_of (V d') k = num_of (V d) k + x"
    "\<And>k'. k' \<noteq> k \<Longrightarrow> V d' k' = V d k'"
proof -
  from add_pool_eq [OF assms(1,3), of x] obtain d' where d': "add_pool L k x d = Some d'"
    "V d' = V d \<and> x = 0 \<or> V d' = (V d)(k \<mapsto> PutUint64 (num_of (V d) k + x))" by blast
  show thesis by (rule that [OF d'(1)]) (use d'(2) assms(2) in auto)
qed

definition pool_of :: "(bytes \<rightharpoonup> bytes) \<Rightarrow> string \<Rightarrow> u64" where
  "pool_of m name = num_of m (pool_key name)"

text \<open>The coins in the four pools.\<close>

definition pools_total :: "(bytes \<rightharpoonup> bytes) \<Rightarrow> int" where
  "pools_total m = (\<Sum>name \<leftarrow> pool_names. uint (pool_of m name))"

lemma AddFeePools_ok:
  assumes "ldb_laws L V" "pools_wf (V d)"
  shows "\<exists>d'. AddFeePools L d v pop tr def = Some (None, d') \<and> pools_wf (V d') \<and>
    pool_of (V d') ''validators'' = pool_of (V d) ''validators'' + v \<and>
    pool_of (V d') ''participation'' = pool_of (V d) ''participation'' + pop \<and>
    pool_of (V d') ''treasury'' = pool_of (V d) ''treasury'' + tr \<and>
    pool_of (V d') ''defense'' = pool_of (V d) ''defense'' + def \<and>
    (\<forall>k. (\<forall>name \<in> set pool_names. k \<noteq> pool_key name) \<longrightarrow> V d' k = V d k)"
proof -
  obtain d1 where 1: "add_pool L (pool_key ''validators'') v d = Some d1" "pools_wf (V d1)"
    "num_of (V d1) (pool_key ''validators'') = num_of (V d) (pool_key ''validators'') + v"
    "\<And>k. k \<noteq> pool_key ''validators'' \<Longrightarrow> V d1 k = V d k"
    by (rule add_pool_ok [OF assms pools_wfD(1) [OF assms(2)]]) blast
  obtain d2 where 2: "add_pool L (pool_key ''participation'') pop d1 = Some d2" "pools_wf (V d2)"
    "num_of (V d2) (pool_key ''participation'') = num_of (V d1) (pool_key ''participation'') + pop"
    "\<And>k. k \<noteq> pool_key ''participation'' \<Longrightarrow> V d2 k = V d1 k"
    by (rule add_pool_ok [OF assms(1) 1(2) pools_wfD(2) [OF 1(2)]]) blast
  obtain d3 where 3: "add_pool L (pool_key ''treasury'') tr d2 = Some d3" "pools_wf (V d3)"
    "num_of (V d3) (pool_key ''treasury'') = num_of (V d2) (pool_key ''treasury'') + tr"
    "\<And>k. k \<noteq> pool_key ''treasury'' \<Longrightarrow> V d3 k = V d2 k"
    by (rule add_pool_ok [OF assms(1) 2(2) pools_wfD(3) [OF 2(2)]]) blast
  obtain d4 where 4: "add_pool L (pool_key ''defense'') def d3 = Some d4" "pools_wf (V d4)"
    "num_of (V d4) (pool_key ''defense'') = num_of (V d3) (pool_key ''defense'') + def"
    "\<And>k. k \<noteq> pool_key ''defense'' \<Longrightarrow> V d4 k = V d3 k"
    by (rule add_pool_ok [OF assms(1) 3(2) pools_wfD(4) [OF 3(2)]]) blast
  have run: "AddFeePools L d v pop tr def = Some (None, d4)"
    by (simp add: AddFeePools_def pool_keys 1(1) 2(1) 3(1) 4(1))
  note same = num_of_cong [of "V d4" _ "V d3"] num_of_cong [of "V d3" _ "V d2"] num_of_cong [of "V d2" _ "V d1"]
    num_of_cong [of "V d1" _ "V d"]
  have "num_of (V d4) (pool_key ''validators'') = num_of (V d) (pool_key ''validators'') + v"
    by (simp add: same 4(4) 3(4) 2(4) 1(3))
  moreover have "num_of (V d4) (pool_key ''participation'') = num_of (V d) (pool_key ''participation'') + pop"
    by (simp add: same 4(4) 3(4) 2(3) 1(4))
  moreover have "num_of (V d4) (pool_key ''treasury'') = num_of (V d) (pool_key ''treasury'') + tr"
    by (simp add: same 4(4) 3(3) 2(4) 1(4))
  moreover have "num_of (V d4) (pool_key ''defense'') = num_of (V d) (pool_key ''defense'') + def"
    by (simp add: same 4(3) 3(4) 2(4) 1(4))
  moreover have "V d4 k = V d k" if "\<forall>name \<in> set pool_names. k \<noteq> pool_key name" for k
    using that by (simp add: pool_names_def 4(4) 3(4) 2(4) 1(4))
  ultimately show ?thesis using run 4(2) by (simp add: pool_of_def)
qed

section \<open>Draining a pool\<close>

lemma DrainFeePool_ok:
  assumes "ldb_laws L V" "pools_wf (V d)" "name \<in> set pool_names"
  shows "\<exists>d' drained rest. DrainFeePool L d name amount = Some (drained, rest, None, d') \<and>
    drained = (if amount = 0 then pool_of (V d) name else min amount (pool_of (V d) name)) \<and>
    drained + rest = pool_of (V d) name \<and> pool_of (V d') name = rest \<and>
    pools_wf (V d') \<and> (\<forall>k. k \<noteq> pool_key name \<longrightarrow> V d' k = V d k)"
proof -
  obtain out where out: "GetFeePools L d = Some out" "case_option 0 (\<lambda>v. v) (out name) = pool_of (V d) name"
    using GetFeePools_eq [OF assms(1,2)] assms(3) by (auto simp: pool_of_def)
  show ?thesis
  proof (cases "pool_of (V d) name = 0")
    case True
    with out assms(2) show ?thesis by (simp add: DrainFeePool_def)
  next
    case False
    let ?x = "if amount = 0 \<or> amount > pool_of (V d) name then pool_of (V d) name else amount"
    obtain d' where "put_u64 L d (pool_key name) (pool_of (V d) name - ?x) = (None, d')"
      "V d' = (V d)(pool_key name \<mapsto> PutUint64 (pool_of (V d) name - ?x))"
      using put_u64_view [OF assms(1), of d "pool_key name" "pool_of (V d) name - ?x"]
      by (cases "put_u64 L d (pool_key name) (pool_of (V d) name - ?x)") simp
    with False out assms(2) show ?thesis
      by (auto simp: DrainFeePool_def SetFeePool_eq [OF assms(3)] Let_def pool_of_def min_def)
  qed
qed

section \<open>The pools keep what is paid in\<close>

lemma uint_add_exact:
  fixes a b :: u64
  assumes "uint a + uint b < 2 ^ 64"
  shows "uint (a + b) = uint a + uint b"
  using assms by (simp add: uint_word_ariths)

lemma uint_sub_exact:
  fixes a b :: u64
  assumes "b \<le> a"
  shows "uint (a - b) = uint a - uint b"
proof -
  have "uint a < 2 ^ 64" using uint_bounded [of a] by simp
  then have "uint a - uint b < 2 ^ 64" using uint_nonnegative [of b] by linarith
  with assms show ?thesis by (simp add: uint_word_ariths word_le_def)
qed

lemma pools_total_drain:
  assumes "name \<in> set pool_names" "drained + rest = pool_of m name" "drained \<le> pool_of m name"
    "pool_of m' name = rest" "\<forall>k. k \<noteq> pool_key name \<longrightarrow> m' k = m k"
  shows "pools_total m' + uint drained = pools_total m"
proof -
  have o: "pool_of m' n = pool_of m n" if "n \<noteq> name" for n
    unfolding pool_of_def by (rule num_of_cong) (use assms(5) that in simp)
  have "rest = pool_of m name - drained" using assms(2) by (simp add: eq_diff_eq add.commute)
  then have "uint rest = uint (pool_of m name) - uint drained"
    using assms(3) by (simp add: uint_sub_exact)
  with assms(1,4) o show ?thesis by (auto simp: pools_total_def pool_names_def)
qed

text \<open>
  C12. The fee pools keep what is paid in: on a healthy store whose pool entries have eight bytes,
  paying four amounts into the pools (none of which overflows \<^verbatim>\<open>uint64\<close>) and then draining any
  pool by any amount, where 0 asks for all of it, leaves the four pools with what they held, plus
  what was paid in, minus what the drain returned; no other entry of the store changes.
\<close>

theorem fee_pools_conserve:
  assumes "ldb_laws L V" "pools_wf (V d)" "name \<in> set pool_names"
    "uint (pool_of (V d) ''validators'') + uint v < 2 ^ 64" "uint (pool_of (V d) ''participation'') + uint pop < 2 ^ 64"
    "uint (pool_of (V d) ''treasury'') + uint tr < 2 ^ 64" "uint (pool_of (V d) ''defense'') + uint def < 2 ^ 64"
  shows "\<exists>d1 drained rest d2. AddFeePools L d v pop tr def = Some (None, d1) \<and>
    DrainFeePool L d1 name amount = Some (drained, rest, None, d2) \<and> pool_of (V d2) name = rest \<and>
    pools_total (V d2) + uint drained = pools_total (V d) + uint v + uint pop + uint tr + uint def \<and>
    (\<forall>k. (\<forall>n \<in> set pool_names. k \<noteq> pool_key n) \<longrightarrow> V d2 k = V d k)"
proof -
  obtain d1 where 1: "AddFeePools L d v pop tr def = Some (None, d1)" "pools_wf (V d1)"
    "pool_of (V d1) ''validators'' = pool_of (V d) ''validators'' + v"
    "pool_of (V d1) ''participation'' = pool_of (V d) ''participation'' + pop"
    "pool_of (V d1) ''treasury'' = pool_of (V d) ''treasury'' + tr"
    "pool_of (V d1) ''defense'' = pool_of (V d) ''defense'' + def"
    "\<forall>k. (\<forall>n \<in> set pool_names. k \<noteq> pool_key n) \<longrightarrow> V d1 k = V d k"
    using AddFeePools_ok [OF assms(1,2), of v pop tr def] by blast
  obtain d2 drained rest where 2: "DrainFeePool L d1 name amount = Some (drained, rest, None, d2)"
    "drained = (if amount = 0 then pool_of (V d1) name else min amount (pool_of (V d1) name))"
    "drained + rest = pool_of (V d1) name" "pool_of (V d2) name = rest"
    "\<forall>k. k \<noteq> pool_key name \<longrightarrow> V d2 k = V d1 k"
    using DrainFeePool_ok [OF assms(1) 1(2) assms(3), of amount] by blast
  have "drained \<le> pool_of (V d1) name" by (simp add: 2(2))
  from pools_total_drain [OF assms(3) 2(3) this 2(4,5)]
  have "pools_total (V d2) + uint drained = pools_total (V d1)" .
  also have "\<dots> = pools_total (V d) + uint v + uint pop + uint tr + uint def"
    by (simp add: pools_total_def pool_names_def 1(3-6) assms(4-7) [THEN uint_add_exact])
  finally show ?thesis using 1(1,7) 2(1,4,5) assms(3) by auto
qed

theorem fee_pools_conserve_witness:
  "\<exists>d1 drained rest d2. AddFeePools alist_db [(pool_key ''treasury'', PutUint64 5)] 50 20 30 0 = Some (None, d1) \<and>
     DrainFeePool alist_db d1 ''treasury'' 0 = Some (drained, rest, None, d2) \<and>
     pools_total (map_of d2) + uint drained = 105"
proof -
  let ?d = "[(pool_key ''treasury'', PutUint64 5)]"
  have p: "pool_of [pool_key ''treasury'' \<mapsto> PutUint64 5] n = (if n = ''treasury'' then 5 else 0)" for n
    by (simp add: pool_of_def num_of_def)
  have "pools_wf (map_of ?d)" by (auto simp: pools_wf_def num_wf_def)
  then have "\<exists>d1 drained rest d2. AddFeePools alist_db ?d 50 20 30 0 = Some (None, d1) \<and>
    DrainFeePool alist_db d1 ''treasury'' 0 = Some (drained, rest, None, d2) \<and> pool_of (map_of d2) ''treasury'' = rest \<and>
    pools_total (map_of d2) + uint drained
      = pools_total (map_of ?d) + uint (50 :: u64) + uint (20 :: u64) + uint (30 :: u64) + uint (0 :: u64) \<and>
    (\<forall>k. (\<forall>n \<in> set pool_names. k \<noteq> pool_key n) \<longrightarrow> map_of d2 k = map_of ?d k)"
    by (intro fee_pools_conserve [OF alist_db_laws]) (simp_all add: p pool_names_def)
  moreover have "pools_total [pool_key ''treasury'' \<mapsto> PutUint64 5] = 5" by (simp add: pools_total_def pool_names_def p)
  ultimately show ?thesis by auto
qed

section \<open>Proof of participation: \<^verbatim>\<open>core/economics/pop/pop.go\<close>\<close>

record pop_params =
  pp_EpochBlocks :: u64
  pp_MinPayout :: u64

definition pop_DefaultParams :: pop_params where
  "pop_DefaultParams = \<lparr>pp_EpochBlocks = 50, pp_MinPayout = 100\<rparr>"

text \<open>The first loop: the weight of each participant and their total.\<close>

fun pop_weights :: "'d leveldb \<Rightarrow> 'd \<Rightarrow> participant list \<Rightarrow> int \<Rightarrow> (int list \<times> int) option" where
  "pop_weights L d [] totalW = Some ([], totalW)"
| "pop_weights L d (p # parts) totalW =
     (if pa_Weight p \<le> 0
      then do { (weights, totalW) \<leftarrow> pop_weights L d parts totalW; Some (0 # weights, totalW) }
      else do { (sc, _) \<leftarrow> GetScore L d (pa_ID p);
                let w = int_of_u64 sc; w = (if w \<le> 0 then pa_Weight p else w)
                in do { (weights, totalW) \<leftarrow> pop_weights L d parts (i64 (totalW + w));
                        Some (w # weights, totalW) } })"

text \<open>
  The second loop, over the participants with their weights; the last one of the list takes what
  remains. \<open>Inl\<close> is the early return with what has been paid and the error.
\<close>

fun pop_pay :: "'d leveldb \<Rightarrow> u64 \<Rightarrow> int \<Rightarrow> (participant \<times> int) list \<Rightarrow> int \<Rightarrow> 'd
    \<Rightarrow> ((u64 \<times> error \<times> 'd) + 'd) option" where
  "pop_pay L drain totalW [] remaining d = Some (Inr d)"
| "pop_pay L drain totalW ((p, w) # parts) remaining d =
     (if pa_Weight p \<le> 0 then pop_pay L drain totalW parts remaining d
      else let share = go_div (i64 (int_of_u64 drain * w)) totalW;
               share = (if parts = [] then remaining else share)
           in if share \<le> 0 then pop_pay L drain totalW parts remaining d
              else let remaining = i64 (remaining - share)
                   in do { (_, e, d) \<leftarrow> AddBalance L d (''pop:'' @ pa_ID p) share;
                           case e of
                             Some e \<Rightarrow> Some (Inl (u64_of_int (i64 (int_of_u64 drain - remaining)), e, d))
                           | None \<Rightarrow> pop_pay L drain totalW parts remaining d })"

definition DistributeIfEpoch ::
  "'d leveldb \<Rightarrow> participant codec \<Rightarrow> 'd \<Rightarrow> u64 \<Rightarrow> pop_params \<Rightarrow> (u64 \<times> err \<times> 'd) option" where
  "DistributeIfEpoch L J d height params =
     (let params = (if pp_EpochBlocks params = 0 then pop_DefaultParams else params)
      in if height = 0 \<or> height mod pp_EpochBlocks params \<noteq> 0 then Some (0, None, d)
      else do {
        (drain, _, e, d) \<leftarrow> DrainFeePool L d ''participation'' 0;
        let restore = (\<lambda>d. Some (0, None, snd (SetFeePool L d ''participation'' drain)))
        in case e of Some e \<Rightarrow> Some (0, Some e, d) | None \<Rightarrow>
           if drain < pp_MinPayout params
           then do { (_, _, _, d) \<leftarrow> DrainFeePool L d ''participation'' 0; restore d }
           else case ListParticipants L J d 5000 of
                  (_, Some e) \<Rightarrow> Some (0, Some e, d)
                | (parts, None) \<Rightarrow>
                    if parts = [] then restore d
                    else do {
                      (weights, totalW) \<leftarrow> pop_weights L d parts 0;
                      if totalW \<le> 0 then restore d
                      else do {
                        r \<leftarrow> pop_pay L drain totalW (zip parts weights) (int_of_u64 drain) d;
                        case r of
                          Inl (paid, e, d) \<Rightarrow> Some (paid, Some e, d)
                        | Inr d \<Rightarrow> Some (drain, None, snd (ResetScores L d)) } } })"

text \<open>
  What a distribution should pay: by weight, rounded down, and the rest to the last participant.
\<close>

definition eff_weight :: "(bytes \<rightharpoonup> bytes) \<Rightarrow> participant \<Rightarrow> int" where
  "eff_weight m p =
     (if pa_Weight p \<le> 0 then 0
      else let s = int_of_u64 (num_of m (keyScore (pa_ID p))) in if s \<le> 0 then pa_Weight p else s)"

definition pop_split :: "int \<Rightarrow> int \<Rightarrow> int \<Rightarrow> int list \<Rightarrow> int list" where
  "pop_split D T rest ws =
     map (\<lambda>w. D * w div T) (butlast ws) @ [rest - (\<Sum>w \<leftarrow> butlast ws. D * w div T)]"

definition pop_credit :: "participant \<times> int \<Rightarrow> (string \<Rightarrow> int) \<Rightarrow> string \<Rightarrow> int" where
  "pop_credit ps B = B(''pop:'' @ pa_ID (fst ps) := B (''pop:'' @ pa_ID (fst ps)) + snd ps)"

lemma pop_credit_0 [simp]: "pop_credit (p, 0) B = B"
  by (simp add: pop_credit_def)

lemma eff_weight_nonneg [simp]: "0 \<le> eff_weight m p"
  by (simp add: eff_weight_def Let_def)

lemma eff_weight_0: "pa_Weight p \<le> 0 \<Longrightarrow> eff_weight m p = 0"
  by (simp add: eff_weight_def)

lemma pop_weights_eq:
  assumes "ldb_laws L V" "\<forall>i. num_wf (V d) (keyScore i)"
    "0 \<le> t" "t + (\<Sum>p \<leftarrow> parts. eff_weight (V d) p) < 2 ^ 63"
  shows "pop_weights L d parts t = Some (map (eff_weight (V d)) parts, t + (\<Sum>p \<leftarrow> parts. eff_weight (V d) p))"
  using assms(3,4)
proof (induction parts arbitrary: t)
  case (Cons p parts)
  show ?case
  proof (cases "pa_Weight p \<le> 0")
    case True
    with Cons show ?thesis by (simp add: eff_weight_def)
  next
    case False
    let ?w = "eff_weight (V d) p"
    have "0 \<le> (\<Sum>p \<leftarrow> parts. eff_weight (V d) p)" by (intro sum_list_nonneg) auto
    with Cons.prems have "i64 (t + ?w) = t + ?w" by (intro i64_small) auto
    moreover have "GetScore L d (pa_ID p) = Some (num_of (V d) (keyScore (pa_ID p)), V d (keyScore (pa_ID p)) \<noteq> None)"
      using assms(1,2) by (simp add: GetScore_def getU64_eq)
    moreover have "?w = (let s = int_of_u64 (num_of (V d) (keyScore (pa_ID p))) in if s \<le> 0 then pa_Weight p else s)"
      using False by (simp add: eff_weight_def)
    ultimately show ?thesis
      using False Cons.IH [of "t + ?w"] Cons.prems by (simp add: Let_def algebra_simps)
  qed
qed simp

text \<open>One payment, on balances with room for it.\<close>

lemma pop_payment:
  assumes "ldb_laws L V" "accounts (V d) (B, N)" "room B rest" "0 \<le> share" "share \<le> rest"
  shows "\<exists>r d'. AddBalance L d (''pop:'' @ pa_ID p) share = Some (r, None, d') \<and>
    accounts (V d') (pop_credit (p, share) B, N) \<and> room (pop_credit (p, share) B) (rest - share) \<and>
    coins (pop_credit (p, share) B) = coins B + share \<and> (\<forall>k. \<not> acct_key k \<longrightarrow> V d' k = V d k)"
proof -
  let ?a = "''pop:'' @ pa_ID p"
  note ex = room_exact [OF assms(3-5), of ?a]
  have wf: "acct_wf (V d)" "bal_of (V d) = B" "non_of (V d) = N" using assms(2) by (auto simp: accounts_def)
  have "0 \<le> i64 (bal_of (V d) ?a + share)" using ex wf(2) by simp
  from AddBalance_cases(2) [OF assms(1) wf(1) this] obtain d' where
    "AddBalance L d ?a share = Some (B ?a + share, None, d')"
    "V d' = (V d)(keyBal ?a \<mapsto> PutUint64 (u64_of_int (B ?a + share)))"
    using ex(1) wf(2) by auto
  moreover from this(2) have "accounts (V d') (pop_credit (p, share) B, N)"
    using wf ex by (auto simp: accounts_def pop_credit_def simp del: fun_upd_apply)
  moreover have "\<not> acct_key k \<Longrightarrow> V d' k = V d k" for k
    using calculation(2) by (auto simp: acct_key_def keyBal_def)
  moreover have "room (pop_credit (p, share) B) (rest - share)"
    unfolding pop_credit_def by (rule room_upd [OF assms(3)]) (use ex assms in auto)
  moreover have "coins (pop_credit (p, share) B) = coins B + share"
    using assms(3) by (simp add: pop_credit_def coins_upd room_def)
  ultimately show ?thesis by blast
qed

lemma int_of_u64_small: "uint w < 2 ^ 63 \<Longrightarrow> int_of_u64 w = uint w"
  using int_of_u64_of_int [of "uint w"] by (simp add: u64_of_int_def i64_small)

lemma room_bound: "room B x \<Longrightarrow> 0 \<le> x \<and> x < 2 ^ 63"
  using coins_ge [of B "[]"] by (auto simp: room_def dest: spec [of _ "[]"])

lemma pop_split_simps [simp]:
  "pop_split D T rest [w] = [rest]"
  "ws \<noteq> [] \<Longrightarrow> pop_split D T rest (w # ws) = D * w div T # pop_split D T (rest - D * w div T) ws"
  by (simp_all add: pop_split_def)

lemma pop_pay_ok:
  assumes laws: "ldb_laws L V" and T: "0 < T" and D: "0 \<le> int_of_u64 drain"
  shows "pws \<noteq> [] \<Longrightarrow> accounts (V d) (B, N) \<Longrightarrow> room B rest \<Longrightarrow>
    \<forall>(p, w) \<in> set pws. 0 \<le> w \<and> (pa_Weight p \<le> 0 \<longrightarrow> w = 0) \<and> int_of_u64 drain * w < 2 ^ 63 \<Longrightarrow>
    0 < pa_Weight (fst (last pws)) \<Longrightarrow>
    (\<Sum>w \<leftarrow> butlast (map snd pws). int_of_u64 drain * w div T) \<le> rest \<Longrightarrow>
    \<exists>d'. pop_pay L drain T pws rest d = Some (Inr d') \<and>
      accounts (V d') (fold pop_credit (zip (map fst pws) (pop_split (int_of_u64 drain) T rest (map snd pws))) B, N) \<and>
      coins (fold pop_credit (zip (map fst pws) (pop_split (int_of_u64 drain) T rest (map snd pws))) B) = coins B + rest \<and>
      (\<forall>k. \<not> acct_key k \<longrightarrow> V d' k = V d k)"
proof (induction pws arbitrary: d B rest rule: list_nonempty_induct)
  case (single pw)
  obtain p w where pw: "pw = (p, w)" by fastforce
  have r: "0 \<le> rest" using room_bound single.prems(2) by blast
  obtain a d' where "AddBalance L d (''pop:'' @ pa_ID p) rest = Some (a, None, d')"
    "accounts (V d') (pop_credit (p, rest) B, N)" "coins (pop_credit (p, rest) B) = coins B + rest"
    "\<forall>k. \<not> acct_key k \<longrightarrow> V d' k = V d k"
    using pop_payment [OF laws single.prems(1,2) r order_refl, of p] by blast
  with single.prems(1,4) r pw show ?case by (cases "rest = 0") (simp_all add: Let_def)
next
  case (cons pw pws)
  obtain p w where pw: "pw = (p, w)" by fastforce
  let ?D = "int_of_u64 drain" and ?s = "int_of_u64 drain * w div T"
  have w: "0 \<le> w" "pa_Weight p \<le> 0 \<Longrightarrow> w = 0" "?D * w < 2 ^ 63" using cons.prems(3) pw by auto
  have s: "0 \<le> ?s" using w(1) D T by (simp add: pos_imp_zdiv_nonneg_iff)
  have go: "go_div (i64 (?D * w)) T = ?s" using w(1,3) D T by (simp add: i64_small go_div_nonneg)
  have "0 \<le> (\<Sum>w \<leftarrow> butlast (map snd pws). ?D * w div T)"
    using cons.prems(3) D T
    by (intro sum_list_nonneg) (fastforce simp: pos_imp_zdiv_nonneg_iff intro: mult_nonneg_nonneg dest!: in_set_butlastD)
  with cons.prems(5) cons.hyps pw have le: "?s \<le> rest"
    "(\<Sum>w \<leftarrow> butlast (map snd pws). ?D * w div T) \<le> rest - ?s" by auto
  have last: "0 < pa_Weight (fst (last pws))" using cons.prems(4) cons.hyps by simp
  have all: "\<forall>(p, w) \<in> set pws. 0 \<le> w \<and> (pa_Weight p \<le> 0 \<longrightarrow> w = 0) \<and> ?D * w < 2 ^ 63"
    using cons.prems(3) by auto
  show ?case
  proof (cases "?s = 0")
    case True
    then have "pop_pay L drain T (pw # pws) rest d = pop_pay L drain T pws rest d"
      using cons.hyps by (simp add: pw go Let_def)
    with cons.IH [OF cons.prems(1,2) all last] le(2) True cons.hyps pw show ?thesis by simp
  next
    case False
    then have pos: "0 < pa_Weight p" using w(2) by (cases "pa_Weight p \<le> 0") auto
    have s1: "0 < ?s" using s False by linarith
    have r: "i64 (rest - ?s) = rest - ?s" using le(1) s room_bound [OF cons.prems(2)] by (intro i64_small) auto
    obtain a d1 where d1: "AddBalance L d (''pop:'' @ pa_ID p) ?s = Some (a, None, d1)"
      "accounts (V d1) (pop_credit (p, ?s) B, N)" "room (pop_credit (p, ?s) B) (rest - ?s)"
      "coins (pop_credit (p, ?s) B) = coins B + ?s" "\<forall>k. \<not> acct_key k \<longrightarrow> V d1 k = V d k"
      using pop_payment [OF laws cons.prems(1,2) s le(1), of p] by blast
    have "pop_pay L drain T (pw # pws) rest d = pop_pay L drain T pws (rest - ?s) d1"
      using cons.hyps pos s1 d1(1) by (simp add: pw go Let_def r)
    with cons.IH [OF d1(2,3) all last le(2)] d1(4,5) cons.hyps pw show ?thesis by simp
  qed
qed

lemma ResetScores_view:
  assumes "ldb_laws L V"
  shows "V (snd (ResetScores L d)) k = (if prefix ''pop:score:'' k then None else V d k)"
proof -
  have del: "fold batch_apply (map (\<lambda>(k, v). BatchDelete k) ents) m k = (if k \<in> fst ` set ents then None else m k)" for ents m
    by (induction ents arbitrary: m) auto
  have "fst ` set (fst (ldb_Iter L d ''pop:score:'')) = {k. prefix ''pop:score:'' k \<and> V d k \<noteq> None}"
    by (force simp: ldb_Iter_set [OF assms])
  then show ?thesis by (auto simp: ResetScores_def ldb_Write_view [OF assms] del)
qed

lemma shares_le:
  fixes D T :: int
  assumes "0 < T" "0 \<le> D" "sum_list ws \<le> T" "\<forall>w \<in> set ws. 0 \<le> w"
  shows "(\<Sum>w \<leftarrow> ws. D * w div T) \<le> D"
proof -
  have "T * (\<Sum>w \<leftarrow> ws. D * w div T) \<le> D * sum_list ws"
  proof (induction ws)
    case (Cons w ws)
    have "T * (D * w div T) \<le> D * w"
      using mult_div_mod_eq [of T "D * w"] pos_mod_sign [OF assms(1), of "D * w"] by linarith
    with Cons show ?case by (simp add: distrib_left)
  qed simp
  also have "\<dots> \<le> D * T" using assms(2,3) by (rule mult_left_mono [rotated])
  finally show ?thesis using assms(1) by (simp add: mult.commute)
qed

lemma accounts_cong:
  assumes "\<And>k. acct_key k \<Longrightarrow> m' k = m k"
  shows "accounts m' s \<longleftrightarrow> accounts m s"
  using assms
  by (auto simp: accounts_def acct_wf_def bal_of_def non_of_def acct_key_def keyBal_def keyNonce_def)

lemma pool_key_acct [simp]: "\<not> acct_key (pool_key name)" "pool_key name \<noteq> keyScore i"
  by (simp_all add: acct_key_def pool_key_def keyScore_def)

lemma ListParticipants_cong:
  assumes "ldb_laws L V" "\<forall>k. k \<noteq> pool_key name \<longrightarrow> V d' k = V d k"
  shows "ListParticipants L J d' limit = ListParticipants L J d limit"
  unfolding ListParticipants_def list_prefix_def
proof (subst ldb_Iter_cong [OF assms(1), of _ d' d])
  fix k
  assume "prefix ''pop:participant:'' k"
  then have "k \<noteq> pool_key name" by (auto simp: pool_key_def prefix_def)
  with assms(2) show "V d' k = V d k" by simp
qed simp

text \<open>
  C11. At an epoch boundary, on a healthy and well-formed store, with a pool of at least the
  minimal payout, a last participant of positive weight and numbers that fit \<^verbatim>\<open>int64\<close>, the
  distribution pays out the pool exactly: every participant is credited its share by weight,
  rounded down, the last one what remains, so that the coins in the accounts rise by the drained
  amount; no nonce changes, the pool is empty and every score is cleared.
\<close>

theorem DistributeIfEpoch_pays:
  assumes "ldb_laws L V" "pools_wf (V d)" "\<forall>i. num_wf (V d) (keyScore i)" "accounts (V d) (B, N)"
    "pp_EpochBlocks params \<noteq> 0" "height \<noteq> 0" "height mod pp_EpochBlocks params = 0"
    "ListParticipants L J d 5000 = (parts, None)" "parts \<noteq> []" "0 < pa_Weight (last parts)"
    "drain = pool_of (V d) ''participation''" "pp_MinPayout params \<le> drain" "room B (uint drain)"
    "W = (\<Sum>p \<leftarrow> parts. eff_weight (V d) p)" "W < 2 ^ 63" "uint drain * W < 2 ^ 63"
  shows "let B' = fold pop_credit (zip parts (pop_split (uint drain) W (uint drain) (map (eff_weight (V d)) parts))) B
    in coins B' = coins B + uint drain \<and>
       (\<exists>d'. DistributeIfEpoch L J d height params = Some (drain, None, d') \<and>
          accounts (V d') (B', N) \<and> pool_of (V d') ''participation'' = 0 \<and> (\<forall>i. V d' (keyScore i) = None))"
proof -
  let ?ws = "map (eff_weight (V d)) parts"
  have D: "int_of_u64 drain = uint drain"
    using room_bound [OF assms(13)] by (simp add: int_of_u64_small)
  obtain d1 where d1: "DrainFeePool L d ''participation'' 0 = Some (drain, 0, None, d1)"
    "pool_of (V d1) ''participation'' = 0" "\<forall>k. k \<noteq> pool_key ''participation'' \<longrightarrow> V d1 k = V d k"
    using DrainFeePool_ok [OF assms(1,2), of "''participation''" 0] assms(11) by (auto simp: pool_names_def)
  have score: "num_of (V d1) (keyScore i) = num_of (V d) (keyScore i)" "num_wf (V d1) (keyScore i)" for i
    using d1(3) pool_key_acct(2) assms(3) unfolding num_of_def num_wf_def by metis+
  then have eff: "eff_weight (V d1) = eff_weight (V d)" by (simp add: eff_weight_def fun_eq_iff)
  have "V d1 k = V d k" if "acct_key k" for k 
  proof -
    have "k \<noteq> pool_key ''participation''" using that by (auto simp del: pool_key_inj)
    with d1(3) show ?thesis by simp
  qed
  then have acc: "accounts (V d1) (B, N)" using accounts_cong [of "V d1" "V d" "(B, N)"] assms(4) by simp
  have W: "pop_weights L d1 parts 0 = Some (?ws, W)"
    using pop_weights_eq [OF assms(1), of d1 0 parts] score(2) assms(14,15) by (simp add: eff)
  have lw: "0 < eff_weight (V d) (last parts)" using assms(10) by (simp add: eff_weight_def Let_def)
  have le: "eff_weight (V d) p \<le> W" if "p \<in> set parts" for p
    unfolding assms(14) using that by (intro member_le_sum_list) auto
  have "0 < W" using le [OF last_in_set [OF assms(9)]] lw by linarith
  have "sum_list ?ws = sum_list (butlast ?ws @ [last ?ws])" using assms(9) by simp
  then have bl: "sum_list (butlast ?ws) \<le> W" using lw assms(9,14) by (simp add: last_map)
  have fits: "uint drain * eff_weight (V d) p < 2 ^ 63" if "p \<in> set parts" for p
    using mult_left_mono [OF le [OF that], of "uint drain"] assms(16) by simp
  have "(\<Sum>w \<leftarrow> butlast ?ws. uint drain * w div W) \<le> uint drain"
    using \<open>0 < W\<close> bl by (intro shares_le) (auto dest!: in_set_butlastD)
  moreover have "\<forall>(p, w) \<in> set (zip parts ?ws). 0 \<le> w \<and> (pa_Weight p \<le> 0 \<longrightarrow> w = 0) \<and> uint drain * w < 2 ^ 63"
    using fits by (auto simp: set_zip eff_weight_0)
  ultimately obtain d2 where d2: "pop_pay L drain W (zip parts ?ws) (uint drain) d1 = Some (Inr d2)"
    "accounts (V d2) (fold pop_credit (zip parts (pop_split (uint drain) W (uint drain) ?ws)) B, N)"
    "coins (fold pop_credit (zip parts (pop_split (uint drain) W (uint drain) ?ws)) B) = coins B + uint drain"
    "\<forall>k. \<not> acct_key k \<longrightarrow> V d2 k = V d1 k"
    using pop_pay_ok [OF assms(1) \<open>0 < W\<close>, of drain "zip parts ?ws" d1 B N "uint drain"] acc assms(9,10,13)
    by (auto simp: D zip_eq_Nil_iff last_zip)
  let ?d = "snd (ResetScores L d2)"
  have "\<not> drain < pp_MinPayout params" using assms(12) by (simp add: not_less)
  then have "DistributeIfEpoch L J d height params = Some (drain, None, ?d)"
    using assms(5-7,9) \<open>0 < W\<close>
    by (simp add: DistributeIfEpoch_def Let_def d1(1) W D d2(1) ListParticipants_cong [OF assms(1) d1(3)] assms(8))
  moreover have "accounts (V ?d) (fold pop_credit (zip parts (pop_split (uint drain) W (uint drain) ?ws)) B, N)"
    using d2(2) by (subst accounts_cong [of _ "V d2"]) (auto simp: ResetScores_view [OF assms(1)] acct_key_def prefix_def)
  moreover have "pool_of (V ?d) ''participation'' = 0"
    using d1(2) d2(4) by (simp add: pool_of_def num_of_def ResetScores_view [OF assms(1)] pool_key_def acct_key_def)
  moreover have "V ?d (keyScore i) = None" for i by (simp add: ResetScores_view [OF assms(1)] keyScore_def)
  ultimately show ?thesis using d2(3) by (auto simp: Let_def)
qed

definition sample_participants :: "participant list" where
  "sample_participants =
     [\<lparr>pa_ID = ''a'', pa_Weight = 1, pa_AddedAt = 0\<rparr>, \<lparr>pa_ID = ''b'', pa_Weight = 2, pa_AddedAt = 0\<rparr>]"

definition sample_participant_codec :: "participant codec" where
  "sample_participant_codec = table_codec zero_participant (zip [''1'', ''2''] sample_participants)"

definition sample_pool :: "(bytes \<times> bytes) list" where
  "sample_pool = [(pool_key ''participation'', PutUint64 100), (keyParticipant ''a'', ''1''),
     (keyParticipant ''b'', ''2'')]"

lemma sample_pool_facts:
  "pools_wf (map_of sample_pool)" "\<forall>i. num_wf (map_of sample_pool) (keyScore i)"
  "accounts (map_of sample_pool) (\<lambda>_. 0, \<lambda>_. 0)" "pool_of (map_of sample_pool) ''participation'' = 100"
  "eff_weight (map_of sample_pool) = (\<lambda>p. if pa_Weight p \<le> 0 then 0 else pa_Weight p)"
  "ListParticipants alist_db sample_participant_codec sample_pool 5000 = (sample_participants, None)"
proof -
  note defs = sample_pool_def pool_key_def keyParticipant_def keyScore_def keyBal_def keyNonce_def
  show "pools_wf (map_of sample_pool)" by (auto simp: pools_wf_def num_wf_def pool_names_def defs)
  show "\<forall>i. num_wf (map_of sample_pool) (keyScore i)" by (simp add: num_wf_def defs)
  show "accounts (map_of sample_pool) (\<lambda>_. 0, \<lambda>_. 0)"
    by (auto simp: accounts_def acct_wf_def bal_of_def non_of_def defs)
  show "pool_of (map_of sample_pool) ''participation'' = 100"
    by (simp add: pool_of_def num_of_def sample_pool_def)
  show "eff_weight (map_of sample_pool) = (\<lambda>p. if pa_Weight p \<le> 0 then 0 else pa_Weight p)"
    by (auto simp: fun_eq_iff eff_weight_def num_of_def defs int_of_u64_def)
  show "ListParticipants alist_db sample_participant_codec sample_pool 5000 = (sample_participants, None)"
    by code_simp
qed

theorem DistributeIfEpoch_pays_witness:
  "\<exists>d' B'. DistributeIfEpoch alist_db sample_participant_codec sample_pool 50 pop_DefaultParams = Some (100, None, d') \<and>
     accounts (map_of d') (B', \<lambda>_. 0) \<and> B' ''pop:a'' = 33 \<and> B' ''pop:b'' = 67"
proof -
  have r: "room (\<lambda>_ :: string. 0) (uint (100 :: u64))" by (simp add: room_def coins_def)
  have w: "map (eff_weight (map_of sample_pool)) sample_participants = [1, 2]"
    by (simp add: sample_pool_facts(5) sample_participants_def)
  have split: "pop_split (uint (100 :: u64)) 3 (uint (100 :: u64)) [1, 2] = [33, 67]" by (simp add: pop_split_def)
  let ?B = "fold pop_credit (zip sample_participants [33, 67]) (\<lambda>_. 0)"
  note pays = DistributeIfEpoch_pays [OF alist_db_laws sample_pool_facts(1-3), where params = pop_DefaultParams
      and height = 50 and J = sample_participant_codec and parts = sample_participants and drain = 100 and W = 3,
      unfolded w split Let_def]
  have "\<exists>d'. DistributeIfEpoch alist_db sample_participant_codec sample_pool 50 pop_DefaultParams = Some (100, None, d') \<and>
      accounts (map_of d') (?B, \<lambda>_. 0)"
    using pays [OF _ _ _ sample_pool_facts(6) _ _ sample_pool_facts(4) [symmetric] _ r]
    by (auto simp: pop_DefaultParams_def sample_participants_def)
  moreover have "?B ''pop:a'' = 33" "?B ''pop:b'' = 67" by (simp_all add: sample_participants_def pop_credit_def)
  ultimately show ?thesis by blast
qed

end
