(* ===== verification/Snapshots.thy ===== *)
theory Snapshots
  imports ChainStore
begin

text \<open>
  Snapshot files: \<^verbatim>\<open>core/state/snapshot.go\<close>, \<^verbatim>\<open>snapshot_bin.go\<close>,
  \<^verbatim>\<open>snapshot_auto.go\<close>, and the choice of a file by the height in its name
  (\<^verbatim>\<open>core/node/block_validate_fork.go\<close>). The operating system's files are the record
  \<open>filesys\<close>, an argument of the definitions, with the law \<open>fs_laws\<close>. Compression and encoding of a
  file's contents together are a \<open>codec\<close> of snapshots, one for \<^verbatim>\<open>.json.gz\<close> and one for
  \<^verbatim>\<open>.gob.gz\<close>.
\<close>

section \<open>Paths and numbers of the standard library\<close>

fun split_slash :: "string \<Rightarrow> string \<Rightarrow> string list" where
  "split_slash [] w = [w]"
| "split_slash (c # s) w = (if c = CHR ''/'' then w # split_slash s [] else split_slash s (w @ [c]))"

fun join_slash :: "string list \<Rightarrow> string" where
  "join_slash [] = []"
| "join_slash [x] = x"
| "join_slash (x # xs) = x @ CHR ''/'' # join_slash xs"

text \<open>
  One element of a path in \<^verbatim>\<open>filepath.Clean\<close>: empty elements and dots vanish, two dots take
  the element before away, and stay only at the start of a relative path.
\<close>

definition clean_step :: "bool \<Rightarrow> string list \<Rightarrow> string \<Rightarrow> string list" where
  "clean_step rooted out x =
     (if x = [] \<or> x = ''.'' then out
      else if x = ''..''
      then (if out \<noteq> [] \<and> last out \<noteq> ''..'' then butlast out else if rooted then out else out @ [x])
      else out @ [x])"

definition filepath_Clean :: "string \<Rightarrow> string" where
  "filepath_Clean p =
     (let rooted = prefix ''/'' p;
          r = (if rooted then ''/'' else []) @ join_slash (foldl (clean_step rooted) [] (split_slash p []))
      in if r = [] then ''.'' else r)"

definition filepath_Join :: "string list \<Rightarrow> string" where
  "filepath_Join xs =
     (let xs = filter (\<lambda>x. x \<noteq> []) xs in if xs = [] then [] else filepath_Clean (join_slash xs))"

definition TrimSuffix :: "string \<Rightarrow> string \<Rightarrow> string" where
  "TrimSuffix s p = (if suffix p s then take (length s - length p) s else s)"

text \<open>\<^verbatim>\<open>strconv.ParseUint(s, 10, 64)\<close>; \<open>None\<close> is its error.\<close>

definition is_digit :: "char \<Rightarrow> bool" where
  "is_digit c \<longleftrightarrow> 48 \<le> (of_char c :: nat) \<and> (of_char c :: nat) \<le> 57"

definition ParseUint :: "string \<Rightarrow> u64 option" where
  "ParseUint s = (if s \<noteq> [] \<and> list_all is_digit s \<and> dec_val s < 2 ^ 64 then Some (of_nat (dec_val s)) else None)"

section \<open>The files of the operating system\<close>

text \<open>
  \<open>fs_Write\<close> is what the encoder's writes through the compressor leave in the file that
  \<^verbatim>\<open>os.Create\<close> made; \<open>fs_ReadDir\<close> gives the name of every entry and whether it is a directory.
\<close>

record 'f filesys =
  fs_MkdirAll :: "'f \<Rightarrow> string \<Rightarrow> err \<times> 'f"
  fs_Create :: "'f \<Rightarrow> string \<Rightarrow> err \<times> 'f"
  fs_Write :: "'f \<Rightarrow> string \<Rightarrow> bytes \<Rightarrow> err \<times> 'f"
  fs_Read :: "'f \<Rightarrow> string \<Rightarrow> error + bytes"
  fs_ReadDir :: "'f \<Rightarrow> string \<Rightarrow> error + (string \<times> bool) list"

record snapshot_codecs =
  sc_json :: "snapshot codec"
  sc_gob :: "snapshot codec"

definition zero_snapshot :: snapshot where
  "zero_snapshot = \<lparr>ss_Version = 0, ss_Height = 0, ss_TipHash = [], ss_CreatedUnix = 0,
     ss_Balances = Map.empty, ss_Nonces = Map.empty\<rparr>"

section \<open>Writing, listing and reading snapshots\<close>

definition snapshot_dir :: "string \<Rightarrow> string" where
  "snapshot_dir dir = (if dir = [] then filepath_Join [''runtime'', ''snapshots''] else dir)"

text \<open>What both writers do once they have the snapshot: create the file and encode into it.\<close>

definition write_file ::
  "'f filesys \<Rightarrow> snapshot codec \<Rightarrow> 'f \<Rightarrow> string \<Rightarrow> snapshot \<Rightarrow> string \<times> err \<times> 'f" where
  "write_file F J f name s =
     (case fs_Create F f name of
        (Some e, f) \<Rightarrow> ([], Some e, f)
      | (None, f) \<Rightarrow>
          (case jc_Marshal J s of
             Inl e \<Rightarrow> ([], Some e, f)
           | Inr b \<Rightarrow> (case fs_Write F f name b of
                         (Some e, f) \<Rightarrow> ([], Some e, f)
                       | (None, f) \<Rightarrow> (name, None, f))))"

definition WriteSnapshot ::
  "'d leveldb \<Rightarrow> 'f filesys \<Rightarrow> snapshot_codecs \<Rightarrow> int \<Rightarrow> 'd \<Rightarrow> 'f \<Rightarrow> string \<Rightarrow> u64 \<Rightarrow> string \<Rightarrow> string \<times> err \<times> 'f" where
  "WriteSnapshot L F S now d f dir height tipHash =
     (let dir = snapshot_dir dir
      in case fs_MkdirAll F f dir of
           (Some e, f) \<Rightarrow> ([], Some e, f)
         | (None, f) \<Rightarrow>
             (let bal = assign_all (map (\<lambda>(acct, u). (acct, int_of_u64 u))
                          (export_entries ''bal:'' (fst (ldb_Iter L d ''bal:''))));
                  non = assign_all (export_entries ''nonce:'' (fst (ldb_Iter L d ''nonce:'')))
              in write_file F (sc_json S) f (filepath_Join [dir, ''state_'' @ dec_u64 height @ ''.json.gz''])
                   \<lparr>ss_Version = 1, ss_Height = height, ss_TipHash = tipHash, ss_CreatedUnix = now,
                    ss_Balances = bal, ss_Nonces = non\<rparr>))"

definition WriteSnapshotBin ::
  "'d leveldb \<Rightarrow> 'f filesys \<Rightarrow> snapshot_codecs \<Rightarrow> int \<Rightarrow> 'd \<Rightarrow> 'f \<Rightarrow> string \<Rightarrow> u64 \<Rightarrow> string \<Rightarrow> string \<times> err \<times> 'f" where
  "WriteSnapshotBin L F S now d f dir height tipHash =
     (let dir = snapshot_dir dir
      in case fs_MkdirAll F f dir of
           (Some e, f) \<Rightarrow> ([], Some e, f)
         | (None, f) \<Rightarrow>
             (case ExportStateMaps L d of
                (None, e) \<Rightarrow> ([], e, f)
              | (Some (bal, non), _) \<Rightarrow>
                  write_file F (sc_gob S) f (filepath_Join [dir, ''state_'' @ dec_u64 height @ ''.gob.gz''])
                    \<lparr>ss_Version = 2, ss_Height = height, ss_TipHash = tipHash, ss_CreatedUnix = now,
                     ss_Balances = bal, ss_Nonces = non\<rparr>))"

definition ListSnapshots :: "'f filesys \<Rightarrow> 'f \<Rightarrow> string \<Rightarrow> string list \<times> err" where
  "ListSnapshots F f dir =
     (let dir = snapshot_dir dir
      in case fs_ReadDir F f dir of
           Inl e \<Rightarrow> ([], Some e)
         | Inr ents \<Rightarrow>
             (sort (map (\<lambda>(name, _). filepath_Join [dir, name])
                (filter (\<lambda>(name, isDir). \<not> isDir \<and> prefix ''state_'' name \<and>
                   (suffix ''.json.gz'' name \<or> suffix ''.gob.gz'' name)) ents)), None))"

definition read_file :: "'f filesys \<Rightarrow> snapshot codec \<Rightarrow> 'f \<Rightarrow> string \<Rightarrow> snapshot \<times> err" where
  "read_file F J f path =
     (case fs_Read F f path of
        Inl e \<Rightarrow> (zero_snapshot, Some e)
      | Inr b \<Rightarrow> jc_Unmarshal J b)"

definition ReadSnapshot :: "'f filesys \<Rightarrow> snapshot_codecs \<Rightarrow> 'f \<Rightarrow> string \<Rightarrow> snapshot \<times> err" where
  "ReadSnapshot F S f path = read_file F (sc_json S) f path"

definition ReadSnapshotBin :: "'f filesys \<Rightarrow> snapshot_codecs \<Rightarrow> 'f \<Rightarrow> string \<Rightarrow> snapshot \<times> err" where
  "ReadSnapshotBin F S f path = read_file F (sc_gob S) f path"

definition ReadSnapshotAuto :: "'f filesys \<Rightarrow> snapshot_codecs \<Rightarrow> 'f \<Rightarrow> string \<Rightarrow> snapshot \<times> err" where
  "ReadSnapshotAuto F S f path =
     (if suffix ''.gob.gz'' path then ReadSnapshotBin F S f path else ReadSnapshot F S f path)"

section \<open>Choosing by name: \<^verbatim>\<open>pickSnapshotForHeight\<close>\<close>

definition baseName :: "string \<Rightarrow> string" where
  "baseName p = rev (takeWhile (\<lambda>c. c \<noteq> CHR ''/'' \<and> c \<noteq> CHR 92) (rev p))"

definition parseSnapshotHeight :: "string \<Rightarrow> u64 \<times> bool" where
  "parseSnapshotHeight base =
     (if \<not> prefix ''state_'' base then (0, False)
      else case ParseUint (TrimSuffix (TrimPrefix base ''state_'') ''.json.gz'') of
             None \<Rightarrow> (0, False)
           | Some hh \<Rightarrow> (hh, True))"

fun pick_loop :: "string list \<Rightarrow> u64 \<Rightarrow> string \<Rightarrow> u64 \<Rightarrow> string" where
  "pick_loop [] h best bestH = best"
| "pick_loop (p # paths) h best bestH =
     (case parseSnapshotHeight (baseName p) of
        (s, ok) \<Rightarrow> if ok \<and> s \<le> h \<and> s \<ge> bestH then pick_loop paths h p s else pick_loop paths h best bestH)"

definition pickSnapshotForHeight :: "string list \<Rightarrow> u64 \<Rightarrow> string" where
  "pickSnapshotForHeight paths h = pick_loop paths h [] 0"

section \<open>The names the writers give\<close>

definition plain_name :: "string \<Rightarrow> bool" where
  "plain_name n \<longleftrightarrow> n \<noteq> [] \<and> n \<noteq> ''.'' \<and> n \<noteq> ''..'' \<and> CHR ''/'' \<notin> set n \<and> CHR 92 \<notin> set n"

lemma split_slash_append: "split_slash (s @ CHR ''/'' # t) w = split_slash s w @ split_slash t []"
  by (induction s arbitrary: w) auto

lemma split_slash_plain: "CHR ''/'' \<notin> set t \<Longrightarrow> split_slash t w = [w @ t]"
  by (induction t arbitrary: w) auto

lemma join_slash_snoc: "join_slash (xs @ [n]) = (if xs = [] then n else join_slash xs @ CHR ''/'' # n)"
proof (induction xs)
  case (Cons x xs)
  then show ?case by (cases xs) auto
qed simp

lemma baseName_slash: "plain_name n \<Longrightarrow> baseName (s @ CHR ''/'' # n) = n"
  by (auto simp: baseName_def plain_name_def takeWhile_append)

lemma baseName_plain: "plain_name n \<Longrightarrow> baseName n = n"
proof -
  assume n: "plain_name n"
  have "takeWhile (\<lambda>c. c \<noteq> CHR ''/'' \<and> c \<noteq> CHR 92) (rev n) = rev n"
    unfolding takeWhile_eq_all_conv using n by (auto simp: plain_name_def)
  then show ?thesis by (simp only: baseName_def rev_rev_ident)
qed

lemma baseName_Join:
  assumes "plain_name n" "dir \<noteq> []"
  shows "baseName (filepath_Join [dir, n]) = n"
proof -
  let ?p = "dir @ CHR ''/'' # n" and ?r = "prefix ''/'' (dir @ CHR ''/'' # n)"
  define out where "out = foldl (clean_step ?r) [] (split_slash dir [])"
  have n: "n \<noteq> []" "CHR ''/'' \<notin> set n" "n \<noteq> ''.''" "n \<noteq> ''..''" using assms(1) by (auto simp: plain_name_def)
  have "foldl (clean_step ?r) [] (split_slash ?p []) = out @ [n]"
    using n by (simp add: split_slash_append split_slash_plain out_def clean_step_def)
  then have "filepath_Join [dir, n] = (if ?r then ''/'' else []) @ join_slash (out @ [n])"
    using n assms(2) by (simp add: filepath_Join_def filepath_Clean_def Let_def join_slash_snoc)
  moreover have "baseName (''/'' @ n) = n" using baseName_slash [OF assms(1), of "[]"] by simp
  moreover have "baseName (''/'' @ join_slash out @ CHR ''/'' # n) = n"
    using baseName_slash [OF assms(1), of "''/'' @ join_slash out"] by simp
  ultimately show ?thesis
    using baseName_slash [OF assms(1)] baseName_plain [OF assms(1)] by (simp add: join_slash_snoc)
qed

lemma digit_is_digit: "d < 10 \<Longrightarrow> is_digit (digit d)"
  by (simp add: is_digit_def)

lemma ParseUint_dec_u64 [simp]: "ParseUint (dec_u64 h) = Some h"
proof -
  have "list_all is_digit (dec_u64 h)"
    using dec_nat_digits digit_is_digit by (fastforce simp: list_all_iff dec_u64_def)
  moreover have "dec_val (dec_u64 h) < 2 ^ 64"
    using unsigned_less [of h] by (simp add: dec_u64_def)
  ultimately show ?thesis by (simp add: ParseUint_def dec_u64_def)
qed

lemma dec_u64_plain:
  assumes "c \<in> set (dec_u64 h)" shows "c \<noteq> CHR ''/'' \<and> c \<noteq> CHR 92"
proof -
  obtain d where "d < 10" "c = digit d" using assms dec_nat_digits [of c] by (auto simp: dec_u64_def)
  then have "48 \<le> (of_char c :: nat) \<and> (of_char c :: nat) \<le> 57" by simp
  then show ?thesis by auto
qed

lemma snapshot_names_plain:
  "plain_name (''state_'' @ dec_u64 h @ ''.json.gz'')" "plain_name (''state_'' @ dec_u64 h @ ''.gob.gz'')"
  using dec_u64_plain by (auto simp: plain_name_def)

lemma parseSnapshotHeight_json: "parseSnapshotHeight (''state_'' @ dec_u64 h @ ''.json.gz'') = (h, True)"
proof -
  have "TrimPrefix (''state_'' @ s) ''state_'' = s" for s by (simp add: TrimPrefix_def)
  moreover have "TrimSuffix (s @ ''.json.gz'') ''.json.gz'' = s" for s by (simp add: TrimSuffix_def suffix_def)
  moreover have "prefix ''state_'' (''state_'' @ s)" for s by simp
  ultimately show ?thesis unfolding parseSnapshotHeight_def by (simp only: if_False not_True_eq_False ParseUint_dec_u64 option.case)
qed

text \<open>The binary files are listed and read, and never chosen by height.\<close>

lemma not_ParseUint: "c \<in> set s \<Longrightarrow> \<not> is_digit c \<Longrightarrow> ParseUint s = None"
  by (auto simp: ParseUint_def list_all_iff)

lemma parseSnapshotHeight_gob: "parseSnapshotHeight (''state_'' @ dec_u64 h @ ''.gob.gz'') = (0, False)"
proof -
  let ?s = "dec_u64 h @ ''.gob.gz''"
  have t: "TrimPrefix (''state_'' @ ?s) ''state_'' = ?s" by (simp add: TrimPrefix_def)
  have "TrimSuffix ?s ''.json.gz'' = ?s"
    unfolding TrimSuffix_def suffix_to_prefix by simp
  moreover have "ParseUint ?s = None" by (rule not_ParseUint [of "CHR ''g''"]) (simp_all add: is_digit_def)
  ultimately show ?thesis unfolding parseSnapshotHeight_def t by simp
qed

section \<open>The choice by height is the highest one allowed\<close>

definition snap_height :: "string \<Rightarrow> u64 option" where
  "snap_height p = (case parseSnapshotHeight (baseName p) of (s, ok) \<Rightarrow> if ok then Some s else None)"

lemma pick_loop_Cons:
  "pick_loop (p # paths) h best bestH =
     (case snap_height p of
        Some s \<Rightarrow> if s \<le> h \<and> s \<ge> bestH then pick_loop paths h p s else pick_loop paths h best bestH
      | None \<Rightarrow> pick_loop paths h best bestH)"
  by (simp add: snap_height_def split: prod.split)

declare pick_loop.simps(2) [simp del]

lemma pick_loop_spec:
  assumes "best \<noteq> [] \<Longrightarrow> snap_height best = Some bestH \<and> bestH \<le> h" "best = [] \<Longrightarrow> bestH = 0" "[] \<notin> set paths"
  shows "case snap_height (pick_loop paths h best bestH) of
      Some s \<Rightarrow> pick_loop paths h best bestH \<in> insert best (set paths) \<and> s \<le> h \<and> bestH \<le> s \<and>
        (\<forall>p \<in> set paths. \<forall>t. snap_height p = Some t \<longrightarrow> t \<le> h \<longrightarrow> t \<le> s)
    | None \<Rightarrow> pick_loop paths h best bestH = [] \<and> best = [] \<and>
        (\<forall>p \<in> set paths. \<forall>t. snap_height p = Some t \<longrightarrow> \<not> t \<le> h)"
  using assms
proof (induction paths arbitrary: best bestH)
  case Nil
  have "snap_height [] = None" by (simp add: snap_height_def baseName_def parseSnapshotHeight_def)
  with Nil show ?case by (cases "best = []") auto
next
  case (Cons p paths)
  have ne: "p \<noteq> []" "[] \<notin> set paths" using Cons.prems(3) by auto
  show ?case
  proof (cases "\<exists>s. snap_height p = Some s \<and> s \<le> h \<and> bestH \<le> s")
    case True
    then obtain s where s: "snap_height p = Some s" "s \<le> h" "bestH \<le> s" by blast
    with Cons.IH [of p s] ne show ?thesis
      by (auto simp: pick_loop_Cons split: option.splits)
  next
    case False
    then have eq: "pick_loop (p # paths) h best bestH = pick_loop paths h best bestH"
      by (auto simp: pick_loop_Cons split: option.split)
    have "t \<le> bestH \<and> best \<noteq> []" if "snap_height p = Some t" "t \<le> h" for t
      using False that Cons.prems(2) by fastforce
    with Cons.IH [OF Cons.prems(1,2) ne(2)] show ?thesis
      unfolding eq by (fastforce split: option.splits)
  qed
qed

end
