(* ===== verification/Replay.thy ===== *)
theory Replay
  imports LedgerApply Snapshots
begin

text \<open>
  Rebuilding the accounts from the chain: \<^verbatim>\<open>rebuildStateFromFinalized\<close>
  (\<^verbatim>\<open>core/node/state_apply.go\<close>), \<^verbatim>\<open>ApplyStateUpTo\<close> and \<^verbatim>\<open>RebuildStateToHeight\<close>
  (\<^verbatim>\<open>reorg.go\<close>), and the validation of a block by replaying its branch in memory
  (\<^verbatim>\<open>block_validate_fork.go\<close>). The replay is shown to depend on the snapshot files, the genesis
  file, the tip and the blocks of the main chain alone.
\<close>

section \<open>What the replay reads\<close>

text \<open>
  \<open>nx_ApplyBlock\<close> and \<open>nx_SetBalance\<close> are called by the sources and declared by none of them, and
  \<^verbatim>\<open>rebuildStateFromFinalized\<close> ends with a call on two variables that are not in scope,
  \<open>nx_b\<close> and \<open>nx_feeSum\<close>. The two orders are those in which the loops walk the maps of a snapshot.
\<close>

record 'd node_ext =
  nx_ApplyBlock :: "block \<Rightarrow> 'd \<Rightarrow> (err \<times> 'd) option"
  nx_SetBalance :: "'d \<Rightarrow> string \<Rightarrow> int \<Rightarrow> err \<times> 'd"
  nx_b :: block
  nx_feeSum :: int
  nx_balOrder :: "(string \<rightharpoonup> int) \<Rightarrow> (string \<times> int) list"
  nx_nonOrder :: "(string \<rightharpoonup> u64) \<Rightarrow> (string \<times> u64) list"

record node_codecs =
  nc_u64 :: "u64 codec"
  nc_tx :: "tx codec"
  nc_block :: "block codec"
  nc_header :: "block_header codec"
  nc_snap :: snapshot_codecs

definition parseInt64 :: "string \<Rightarrow> int" where
  "parseInt64 s = foldl (\<lambda>n c. if is_digit c then i64 (i64 (n * 10) + (of_char c - 48)) else n) 0 s"

section \<open>\<^verbatim>\<open>rebuildStateFromFinalized\<close>\<close>

text \<open>The last file of the listing, when it can be read; its height, or 0.\<close>

definition restore_last ::
  "'d leveldb \<Rightarrow> 'd node_ext \<Rightarrow> 'f filesys \<Rightarrow> snapshot_codecs \<Rightarrow> 'f \<Rightarrow> string \<Rightarrow> 'd \<Rightarrow> u64 \<times> 'd" where
  "restore_last L X F S f dir d =
     (let snaps = fst (ListSnapshots F f dir)
      in if snaps = [] then (0, d)
         else (case ReadSnapshotAuto F S f (last snaps) of
                 (ss, None) \<Rightarrow>
                   (ss_Height ss, snd (RestoreSnapshot L d (nx_balOrder X (ss_Balances ss)) (nx_nonOrder X (ss_Nonces ss))))
               | (ss, Some _) \<Rightarrow> (0, d)))"

fun alloc_loop :: "'d leveldb \<Rightarrow> allocation list \<Rightarrow> 'd \<Rightarrow> 'd option" where
  "alloc_loop L [] d = Some d"
| "alloc_loop L (a # allocs) d =
     do { (_, _, d) \<leftarrow> AddBalance L d (al_Address a) (parseInt64 (al_Balance a)); alloc_loop L allocs d }"

definition replay_step ::
  "'d leveldb \<Rightarrow> node_codecs \<Rightarrow> ('p, 's) node_env \<Rightarrow> u64 \<Rightarrow> 'd \<Rightarrow> ((error \<times> 'd) + 'd) option" where
  "replay_step L J env h d =
     (case GetBlockByHeight L (nc_block J) d h of
        (b, okb, _, e) \<Rightarrow>
          if e \<noteq> None \<or> \<not> okb then Some (Inl (Err ''missing block on main chain'', d))
          else do { (e, d) \<leftarrow> applyBlockTxs L (nc_tx J) env d b;
                    Some (case e of Some e \<Rightarrow> Inl (e, d) | None \<Rightarrow> Inr d) })"

text \<open>The tail of the rebuild, from the reading of the tip on.\<close>

definition replay_tail ::
  "'d leveldb \<Rightarrow> node_codecs \<Rightarrow> 'd node_ext \<Rightarrow> ('p, 's) node_env \<Rightarrow> u64 \<Rightarrow> 'd \<Rightarrow> (err \<times> 'd) option" where
  "replay_tail L J X env snapHeight d =
     (case GetTip L (nc_u64 J) d of
        (tipH, _, ok, e) \<Rightarrow>
          if e \<noteq> None \<or> \<not> ok then Some (e, d)
          else do { r \<leftarrow> for_u64 (replay_step L J env) (snapHeight + 1) tipH d;
                    Some (case r of
                            Inl (e, d) \<Rightarrow> (Some e, d)
                          | Inr d \<Rightarrow> (None, PutBlockFeeSum L d (bh_Height (b_Header (nx_b X))) (nx_feeSum X))) })"

definition rebuildStateFromFinalized ::
  "'d leveldb \<Rightarrow> node_codecs \<Rightarrow> 'd node_ext \<Rightarrow> 'f filesys \<Rightarrow> ('p, 's) node_env \<Rightarrow> 'f \<Rightarrow> 'd \<Rightarrow> (err \<times> 'd) option" where
  "rebuildStateFromFinalized L J X F env f d =
     (case restore_last L X F (nc_snap J) f (st_SnapshotDir (cfg_State (ne_cfg env))) d of
        (snapHeight, d) \<Rightarrow>
          do { r \<leftarrow> (if snapHeight = 0
                     then (case ResetState L d of
                             (Some e, d) \<Rightarrow> Some (Inl (Some e, d))
                           | (None, d) \<Rightarrow> do { d \<leftarrow> alloc_loop L (g_Allocations (ne_genesis env)) d; Some (Inr d) })
                     else Some (Inr d));
               (case r of
                  Inl ed \<Rightarrow> Some ed
                | Inr d \<Rightarrow> replay_tail L J X env snapHeight d) })"

section \<open>\<^verbatim>\<open>ApplyStateUpTo\<close>, \<^verbatim>\<open>RebuildStateToHeight\<close>\<close>

definition best_snapshot :: "'f filesys \<Rightarrow> snapshot_codecs \<Rightarrow> 'f \<Rightarrow> string list \<Rightarrow> u64 \<Rightarrow> string \<times> u64" where
  "best_snapshot F S f snaps target =
     foldl (\<lambda>(best, bestH) p.
       (case ReadSnapshotAuto F S f p of
          (ss, Some _) \<Rightarrow> (best, bestH)
        | (ss, None) \<Rightarrow> if ss_Height ss \<le> target \<and> ss_Height ss \<ge> bestH then (p, ss_Height ss) else (best, bestH)))
       ([], 0) snaps"

definition upto_step :: "'d leveldb \<Rightarrow> node_codecs \<Rightarrow> 'd node_ext \<Rightarrow> u64 \<Rightarrow> 'd \<Rightarrow> ((error \<times> 'd) + 'd) option" where
  "upto_step L J X h d =
     (case GetBlockByHeight L (nc_block J) d h of
        (b, ok, _, _) \<Rightarrow>
          if \<not> ok then Some (Inl (Err (''missing_block_'' @ dec_u64 h), d))
          else do { (e, d) \<leftarrow> nx_ApplyBlock X b d; Some (case e of Some e \<Rightarrow> Inl (e, d) | None \<Rightarrow> Inr d) })"

definition ApplyStateUpTo ::
  "'d leveldb \<Rightarrow> node_codecs \<Rightarrow> 'd node_ext \<Rightarrow> 'f filesys \<Rightarrow> ('p, 's) node_env \<Rightarrow> 'f \<Rightarrow> 'd \<Rightarrow> u64 \<Rightarrow> (err \<times> 'd) option" where
  "ApplyStateUpTo L J X F env f d target =
     (case best_snapshot F (nc_snap J) f (fst (ListSnapshots F f (st_SnapshotDir (cfg_State (ne_cfg env))))) target of
        (best, bestH) \<Rightarrow>
          do { r \<leftarrow> (if best \<noteq> []
                     then (case ReadSnapshotAuto F (nc_snap J) f best of
                             (ss, Some e) \<Rightarrow> Some (Inl (Some e, d))
                           | (ss, None) \<Rightarrow>
                               Some (Inr (snd (ImportStateMaps L (snd (WipeStatePrefixes L d))
                                 (nx_balOrder X (ss_Balances ss)) (nx_nonOrder X (ss_Nonces ss))))))
                     else Some (Inr (foldl (\<lambda>d a. snd (nx_SetBalance X d (al_Address a) (parseInt64 (al_Balance a))))
                            (snd (WipeStatePrefixes L d)) (g_Allocations (ne_genesis env)))));
               (case r of
                  Inl ed \<Rightarrow> Some ed
                | Inr d \<Rightarrow>
                    do { r \<leftarrow> for_u64 (upto_step L J X) (bestH + 1) target d;
                         Some (case r of Inl (e, d) \<Rightarrow> (Some e, d) | Inr d \<Rightarrow> (None, d)) }) })"

definition RebuildStateToHeight ::
  "'d leveldb \<Rightarrow> node_codecs \<Rightarrow> 'd node_ext \<Rightarrow> 'f filesys \<Rightarrow> ('p, 's) node_env \<Rightarrow> 'f \<Rightarrow> 'd \<Rightarrow> u64 \<Rightarrow> (err \<times> 'd) option" where
  "RebuildStateToHeight L J X F env f d target =
     (case GetFinalizedHeight L d of
        (finH, okF, _) \<Rightarrow>
          if okF \<and> finH > 0 \<and> target < finH then Some (Some (Err ''below_finalized''), d)
          else ApplyStateUpTo L J X F env f d target)"

section \<open>Validation on a parent of the main chain: \<^verbatim>\<open>ValidateBlockStateOnMainParent\<close>\<close>

text \<open>
  The maps of the simulation start from the snapshot, or from the genesis file. A loop that meets
  a missing block stops, so the iteration answers \<open>Inl (Inl _)\<close> for an error and
  \<open>Inl (Inr _)\<close> for the end.
\<close>

definition sim_of_snapshot :: "snapshot \<Rightarrow> sim" where
  "sim_of_snapshot ss = \<lparr>sim_bal = ss_Balances ss, sim_non = ss_Nonces ss\<rparr>"

definition sim_alloc :: "allocation list \<Rightarrow> sim \<Rightarrow> sim" where
  "sim_alloc allocs s =
     foldl (\<lambda>s a. s\<lparr>sim_bal := (sim_bal s)(al_Address a \<mapsto>
       i64 ((case sim_bal s (al_Address a) of None \<Rightarrow> 0 | Some v \<Rightarrow> v) + parseInt64 (al_Balance a)))\<rparr>) s allocs"

definition parent_step ::
  "'d leveldb \<Rightarrow> node_codecs \<Rightarrow> ('p, 's) node_env \<Rightarrow> 'd \<Rightarrow> u64 \<Rightarrow> sim \<Rightarrow> ((error + sim) + sim) option" where
  "parent_step L J env d h s =
     (case GetBlockByHeight L (nc_block J) d h of
        (blk, okb, _, _) \<Rightarrow>
          if \<not> okb then Some (Inl (Inr s))
          else do { r \<leftarrow> applyBlockToSim env plain_ops blk s;
                    Some (case r of Inl e \<Rightarrow> Inl (Inl (Wrap ''replay_invalid:'' e)) | Inr s \<Rightarrow> Inr s) })"

definition sim_verdict :: "(error + sim) option \<Rightarrow> err option" where
  "sim_verdict r = map_option (\<lambda>r. case r of Inl e \<Rightarrow> Some e | Inr _ \<Rightarrow> None) r"

definition parent_sim ::
  "node_codecs \<Rightarrow> 'f filesys \<Rightarrow> ('p, 's) node_env \<Rightarrow> 'f \<Rightarrow> u64 \<Rightarrow> u64 \<times> sim" where
  "parent_sim J F env f parentH =
     (let best = pickSnapshotForHeight (fst (ListSnapshots F f (st_SnapshotDir (cfg_State (ne_cfg env))))) parentH;
          (snapH, s) = (if best = [] then (0, empty_sim)
                        else (case ReadSnapshot F (nc_snap J) f best of
                                (ss, None) \<Rightarrow> (ss_Height ss, sim_of_snapshot ss)
                              | (ss, Some _) \<Rightarrow> (0, empty_sim)))
      in (snapH, if snapH = 0 then sim_alloc (g_Allocations (ne_genesis env)) s else s))"

definition ValidateBlockStateOnMainParent ::
  "'d leveldb \<Rightarrow> node_codecs \<Rightarrow> 'f filesys \<Rightarrow> ('p, 's) node_env \<Rightarrow> 'f \<Rightarrow> 'd \<Rightarrow> block \<Rightarrow> err option" where
  "ValidateBlockStateOnMainParent L J F env f d b =
     (if \<not> va_ValidateForkState (cfg_Validation (ne_cfg env)) then Some None
      else if bh_Height (b_Header b) = 0 then Some None
      else let parentH = bh_Height (b_Header b) - 1
           in (case GetBlockByHeight L (nc_block J) d parentH of
                 (parent, ok, _, _) \<Rightarrow>
                   if \<not> ok then Some None
                   else if Hash_String (ne_blockHash env parent) \<noteq> Hash_String (bh_PrevHash (b_Header b)) then Some None
                   else (case GetTip L (nc_u64 J) d of
                           (tipH, _, _, _) \<Rightarrow>
                             if tipH > parentH \<and> tipH - parentH > va_MaxReplayBlocks (cfg_Validation (ne_cfg env))
                             then Some None
                             else (case parent_sim J F env f parentH of
                                     (snapH, s) \<Rightarrow>
                                       do { r \<leftarrow> for_u64 (parent_step L J env d) (snapH + 1) parentH s;
                                            (case r of
                                               Inl (Inl e) \<Rightarrow> Some (Some e)
                                             | Inl (Inr s) \<Rightarrow> sim_verdict (applyBlockToSim env plain_ops b s)
                                             | Inr s \<Rightarrow> sim_verdict (applyBlockToSim env plain_ops b s)) }))))"

section \<open>Two runs in step\<close>

text \<open>
  \<open>in_step R\<close> relates the outcomes of an operation on two stores: both panic, both fail with the
  same error, or both go on, with stores related by \<open>R\<close> in either case.
\<close>

definition in_step :: "('a \<Rightarrow> 'b \<Rightarrow> bool) \<Rightarrow> (('e \<times> 'a) + 'a) option \<Rightarrow> (('e \<times> 'b) + 'b) option \<Rightarrow> bool" where
  "in_step R = rel_option (rel_sum (rel_prod (=) R) R)"

lemma in_step_intros [intro]:
  "in_step R None None" "R d d' \<Longrightarrow> in_step R (Some (Inr d)) (Some (Inr d'))"
  "R d d' \<Longrightarrow> in_step R (Some (Inl (e, d))) (Some (Inl (e, d')))"
  by (simp_all add: in_step_def)

lemma in_step_cases [consumes 1, case_names panic fail go]:
  assumes "in_step R r r'"
  obtains "r = None" "r' = None"
  | e d d' where "r = Some (Inl (e, d))" "r' = Some (Inl (e, d'))" "R d d'"
  | d d' where "r = Some (Inr d)" "r' = Some (Inr d')" "R d d'"
  using assms unfolding in_step_def by (cases r; cases r') (auto elim!: rel_sum.cases)

lemma in_step_foldE:
  assumes "\<And>x d d'. x \<in> set xs \<Longrightarrow> R d d' \<Longrightarrow> in_step R (f x d) (f x d')" "R d d'"
  shows "in_step R (foldE f xs d) (foldE f xs d')"
  using assms
proof (induction xs arbitrary: d d')
  case (Cons x xs)
  from Cons.prems(1) [OF _ Cons.prems(2), of x] have "in_step R (f x d) (f x d')" by simp
  moreover have "in_step R (foldE f xs s) (foldE f xs s')" if "R s s'" for s s'
    using that by (intro Cons.IH) (auto intro: Cons.prems(1))
  ultimately show ?case by (cases rule: in_step_cases) auto
qed auto

lemma in_step_bindE:
  assumes "in_step R r r'" "\<And>d d'. R d d' \<Longrightarrow> in_step R (f d) (f d')"
  shows "in_step R (bindE r f) (bindE r' f)"
  using assms(1) by (cases rule: in_step_cases) (auto intro: assms(2) simp: bindE_def)

text \<open>Of two loops in step, one returns when the other does; no bound on the counter is needed.\<close>

lemma for_u64_simulates:
  assumes body: "\<And>h d d'. R d d' \<Longrightarrow> in_step R (f h d) (f h d')"
    and "for_u64 f h hi d = Some r" "R d d'"
  shows "\<exists>r'. for_u64 f h hi d' = Some r' \<and> in_step R (Some r) (Some r')"
proof -
  let ?P = "\<lambda>g h hi d r. g = f \<longrightarrow>
    (\<forall>d'. R d d' \<longrightarrow> (\<exists>r'. for_u64 f h hi d' = Some r' \<and> in_step R (Some r) (Some r')))"
  have "?P f h hi d r"
  proof (rule for_u64.raw_induct [where P = ?P, OF _ assms(2)], goal_cases)
    case (1 loop g h hi d r)
    show ?case
    proof (intro impI allI)
      fix d' assume g: "g = f" and R: "R d d'"
      show "\<exists>r'. for_u64 f h hi d' = Some r' \<and> in_step R (Some r) (Some r')"
      proof (cases "h \<le> hi")
        case True
        from body [OF R, of h] show ?thesis
        proof (cases rule: in_step_cases)
          case (go d1 d1')
          with 1(2) True g have "loop f (h + 1) hi d1 = Some r" by simp
          from 1(1) [OF this] go(3) obtain r' where "for_u64 f (h + 1) hi d1' = Some r'" "in_step R (Some r) (Some r')"
            by blast
          then show ?thesis using True go(2) by (subst for_u64.simps) simp
        qed (use 1(2) True g in \<open>auto simp: for_u64.simps [of f h]\<close>)
      qed (use 1(2) g R in \<open>auto simp: for_u64.simps [of f h]\<close>)
    qed
  qed
  with assms(3) show ?thesis by blast
qed

lemma in_step_flip:
  assumes "in_step R r r'" shows "in_step (\<lambda>x y. R y x) r' r"
  using assms by (cases rule: in_step_cases) auto

lemma in_step_for_u64:
  assumes body: "\<And>h d d'. R d d' \<Longrightarrow> in_step R (f h d) (f h d')" and "R d d'"
  shows "in_step R (for_u64 f h hi d) (for_u64 f h hi d')"
proof (cases "for_u64 f h hi d")
  case (Some r)
  with for_u64_simulates [OF body Some assms(2)] show ?thesis by auto
next
  case None
  have "for_u64 f h hi d' = None"
  proof (rule ccontr)
    assume "for_u64 f h hi d' \<noteq> None"
    then obtain r where r: "for_u64 f h hi d' = Some r" by blast
    have flip: "in_step (\<lambda>x y. R y x) (f h s) (f h s')" if "R s' s" for h s s'
      using in_step_flip [OF body [OF that]] .
    from for_u64_simulates [of "\<lambda>x y. R y x", OF flip r assms(2)] None show False by simp
  qed
  with None show ?thesis by auto
qed

section \<open>The replay reads the chain and nothing else\<close>

definition agree :: "(bytes \<Rightarrow> bool) \<Rightarrow> ('d \<Rightarrow> bytes \<rightharpoonup> bytes) \<Rightarrow> 'd \<Rightarrow> 'd \<Rightarrow> bool" where
  "agree K V d d' \<longleftrightarrow> (\<forall>k. K k \<longrightarrow> V d k = V d' k)"

text \<open>The records of the main chain: blocks, the index by height, the tip.\<close>

definition chain_key :: "bytes \<Rightarrow> bool" where
  "chain_key k \<longleftrightarrow> k \<in> range keyBlockByHash \<union> range keyHashByHeight \<union> {keyTipHeight, keyTipBlockID}"

definition replay_key :: "bytes \<Rightarrow> bool" where
  "replay_key k \<longleftrightarrow> chain_key k \<or> acct_key k"

lemma replay_keys [simp]:
  "replay_key (keyBal a)" "replay_key (keyNonce a)" "replay_key (keyBlockByHash h)" "replay_key (keyHashByHeight n)"
  "replay_key keyTipHeight" "replay_key keyTipBlockID"
  by (auto simp: replay_key_def chain_key_def acct_key_def keyBal_def keyNonce_def)

lemma agreeD: "agree K V d d' \<Longrightarrow> K k \<Longrightarrow> V d k = V d' k"
  by (simp add: agree_def)

lemma agree_put:
  assumes "ldb_laws L V" "agree K V d d'"
  shows "agree K V (snd (ldb_Put L d k v)) (snd (ldb_Put L d' k v))"
  using assms(2) by (simp add: agree_def ldb_Put_view [OF assms(1)])

lemma agree_sets:
  assumes "ldb_laws L V" "agree K V d d'"
  shows "agree K V (snd (SetBalance L d a v)) (snd (SetBalance L d' a v))"
    "agree K V (snd (SetNonce L d a n)) (snd (SetNonce L d' a n))"
    "agree K V (snd (PutTx L J hf d tx)) (snd (PutTx L J hf d' tx))"
    "agree K V (PutBlockFeeSum L d h s) (PutBlockFeeSum L d' h s)"
  using agree_put [OF assms] assms(2)
  by (auto simp: SetBalance_def SetNonce_def PutTx_def put_json_def PutBlockFeeSum_def split: sum.split)

text \<open>What an operation on a balance does depends on that balance alone.\<close>

lemma AddBalance_agree:
  assumes "ldb_laws L V" "agree replay_key V d d'"
  shows "rel_option (rel_prod (=) (rel_prod (=) (agree replay_key V))) (AddBalance L d a x) (AddBalance L d' a x)"
proof -
  have g: "GetBalance L d a = GetBalance L d' a"
    using agreeD [OF assms(2), of "keyBal a"] by (simp add: GetBalance_def ldb_Get_eq [OF assms(1)])
  have s: "fst (SetBalance L e a y) = None" for e y by (simp add: SetBalance_def ldb_Put_ok [OF assms(1)])
  show ?thesis
  proof (cases "GetBalance L d' a")
    case (Some r)
    obtain cur ok e where r: "r = (cur, ok, e)" by (cases r)
    obtain d1 d1' where "SetBalance L d a (i64 (cur + x)) = (None, d1)" "SetBalance L d' a (i64 (cur + x)) = (None, d1')"
      "agree replay_key V d1 d1'"
      using agree_sets(1) [OF assms, of a "i64 (cur + x)"] s by (metis prod.collapse)
    then show ?thesis using Some r g assms(2) by (auto simp: AddBalance_def Let_def split: option.split)
  qed (simp add: AddBalance_def g)
qed

lemma apply_add_in_step:
  assumes "ldb_laws L V" "agree replay_key V d d'"
  shows "in_step (agree replay_key V) (apply_add L d a x) (apply_add L d' a x)"
  using AddBalance_agree [OF assms, of a x]
  by (auto simp: apply_add_def rel_prod_conv elim!: option.rel_cases split: option.split)

lemma apply_tx_in_step:
  assumes "ldb_laws L V" "agree replay_key V d d'"
  shows "in_step (agree replay_key V) (apply_tx L J env tx d) (apply_tx L J env tx d')"
proof -
  note laws = assms(1)
  note steps = apply_add_in_step [OF laws] agree_sets(2,3) [OF laws]
  have credit: "in_step (agree replay_key V) (apply_credit L out s) (apply_credit L out s')"
    if "agree replay_key V s s'" for out s s'
    using that steps(1) by (auto simp: apply_credit_def)
  show ?thesis
    unfolding apply_tx_def Let_def
    by (cases "claim_of (set_type tx)")
      (auto intro!: in_step_bindE in_step_foldE credit steps assms(2))
qed

lemma GetBlockByHeight_agree:
  assumes "ldb_laws L V" "agree replay_key V d d'"
  shows "GetBlockByHeight L J d h = GetBlockByHeight L J d' h"
proof -
  have "db_lookup L d k = db_lookup L d' k" if "replay_key k" for k
    using agreeD [OF assms(2) that] by (simp add: db_lookup_eq [OF assms(1)])
  then show ?thesis
    by (simp add: GetBlockByHeight_def GetHashByHeight_def GetBlockByHash_def get_string_def
        split: prod.split option.split)
qed


lemma GetTip_agree:
  assumes "ldb_laws L V" "agree replay_key V d d'"
  shows "GetTip L J d = GetTip L J d'"
proof -
  have "ldb_Get L d keyTipBlockID = ldb_Get L d' keyTipBlockID" "db_lookup L d keyTipHeight = db_lookup L d' keyTipHeight"
    using agreeD [OF assms(2), of keyTipHeight] agreeD [OF assms(2), of keyTipBlockID]
    by (simp_all add: db_lookup_eq [OF assms(1)] ldb_Get_eq [OF assms(1)])
  then show ?thesis unfolding GetTip_def by (simp only:)
qed

lemma replay_step_in_step:
  assumes "ldb_laws L V" "agree replay_key V d d'"
  shows "in_step (agree replay_key V) (replay_step L J env h d) (replay_step L J env h d')"
proof -
  obtain b okb hash e where g: "GetBlockByHeight L (nc_block J) d' h = (b, okb, hash, e)" by (metis prod_cases4)
  have "in_step (agree replay_key V) (foldE (apply_tx L (nc_tx J) env) (b_Txs b) d)
      (foldE (apply_tx L (nc_tx J) env) (b_Txs b) d')"
    by (intro in_step_foldE apply_tx_in_step assms)
  then show ?thesis
    by (cases rule: in_step_cases)
      (use assms g in \<open>auto simp: replay_step_def GetBlockByHeight_agree [OF assms] applyBlockTxs_def
        intro: agree_sets(4)\<close>)
qed

text \<open>Clearing the accounts makes stores with the same chain agree on the accounts too.\<close>

lemma ResetState_agree:
  assumes "ldb_laws L V" "agree chain_key V d d'"
  shows "agree replay_key V (snd (ResetState L d)) (snd (ResetState L d'))"
  using assms(2) by (auto simp: agree_def replay_key_def ResetState_view(2) [OF assms(1)] restrict_map_def)

lemma put_maps_agree:
  assumes "ldb_laws L V" "agree K V d d'"
  shows "agree K V (put_nonces L ns (put_balances L bs d)) (put_nonces L ns (put_balances L bs d'))"
proof -
  have "agree K V (put_balances L bs d) (put_balances L bs d')"
    using assms(2)
    by (induction bs arbitrary: d d') (auto simp: put_balances_def agree_sets(1) [OF assms(1)])
  moreover have "agree K V (put_nonces L ns s) (put_nonces L ns s')" if "agree K V s s'" for s s'
    using that by (induction ns arbitrary: s s') (auto simp: put_nonces_def agree_sets(2) [OF assms(1)])
  ultimately show ?thesis by simp
qed

lemma alloc_loop_agree:
  assumes "ldb_laws L V" "agree replay_key V d d'"
  shows "rel_option (agree replay_key V) (alloc_loop L allocs d) (alloc_loop L allocs d')"
  using assms(2)
proof (induction allocs arbitrary: d d')
  case (Cons a allocs)
  from AddBalance_agree [OF assms(1) Cons.prems, of "al_Address a" "parseInt64 (al_Balance a)"] show ?case
    by (cases rule: option.rel_cases) (auto simp: rel_prod_conv intro: Cons.IH)
qed simp


lemma replay_tail_agree:
  assumes "ldb_laws L V" "agree replay_key V d d'"
  shows "rel_option (rel_prod (=) (agree replay_key V)) (replay_tail L J X env h d) (replay_tail L J X env h d')"
proof -
  obtain tipH tip ok e where t: "GetTip L (nc_u64 J) d' = (tipH, tip, ok, e)" by (metis prod_cases4)
  have "in_step (agree replay_key V) (for_u64 (replay_step L J env) (h + 1) tipH d)
      (for_u64 (replay_step L J env) (h + 1) tipH d')"
    by (intro in_step_for_u64 replay_step_in_step assms)
  then show ?thesis
    by (cases rule: in_step_cases)
      (use assms t in \<open>auto simp: replay_tail_def GetTip_agree [OF assms] intro: agree_sets(4)\<close>)
qed

text \<open>
  After the choice of the snapshot: a height other than 0 comes with the accounts of the file, and
  0 leaves a store whose chain is the old one.
\<close>

lemma restore_last_agree:
  assumes "ldb_laws L V" "agree chain_key V d d'"
  obtains s e e' where "restore_last L X F S f dir d = (s, e)" "restore_last L X F S f dir d' = (s, e')"
    "agree chain_key V e e'" "s \<noteq> 0 \<Longrightarrow> agree replay_key V e e'"
proof -
  have sub: "agree chain_key V x y" if "agree replay_key V x y" for x y
    using that by (auto simp: agree_def replay_key_def)
  have r: "agree replay_key V (snd (RestoreSnapshot L d bs ns)) (snd (RestoreSnapshot L d' bs ns))" for bs ns
  proof -
    obtain c c' where "ResetState L d = (None, c)" "ResetState L d' = (None, c')"
      using ResetState_view(1) [OF assms(1)] by (metis prod.collapse)
    then show ?thesis
      using put_maps_agree [OF assms(1), of replay_key c c'] ResetState_agree [OF assms] by (simp add: RestoreSnapshot_def)
  qed
  obtain ss x where rd: "ReadSnapshotAuto F S f (last (fst (ListSnapshots F f dir))) = (ss, x)" by force
  show ?thesis
  proof (cases "fst (ListSnapshots F f dir) = [] \<or> x \<noteq> None")
    case True
    then show ?thesis using that [of 0 d d'] assms(2) rd by (auto simp: restore_last_def Let_def)
  next
    case False
    then show ?thesis using that [OF _ _ sub [OF r] r] rd by (auto simp: restore_last_def Let_def)
  qed
qed

text \<open>
  C7. Rebuilding the state forgets the state that was there. On two healthy stores that hold the
  same blocks, the same index by height and the same tip, whatever balances and nonces they hold,
  \<^verbatim>\<open>rebuildStateFromFinalized\<close> does the same: it panics or runs on in both, or returns the same
  error in both, and then all balances and nonces are equal. So no effect of a transaction of an
  abandoned branch survives a rebuild, except through the snapshot file that is read.
\<close>

theorem rebuild_forgets:
  assumes "ldb_laws L V" "\<And>k. chain_key k \<Longrightarrow> V d k = V d' k"
  shows "rel_option (rel_prod (=) (\<lambda>e e'. \<forall>k. acct_key k \<longrightarrow> V e k = V e' k))
    (rebuildStateFromFinalized L J X F env f d) (rebuildStateFromFinalized L J X F env f d')"
proof -
  have out: "rel_option (rel_prod (=) (agree replay_key V)) r r' \<Longrightarrow>
      rel_option (rel_prod (=) (\<lambda>e e'. \<forall>k. acct_key k \<longrightarrow> V e k = V e' k)) r r'" for r r' :: "(err \<times> 'a) option"
    by (rule option.rel_mono_strong, assumption) (auto simp: agree_def replay_key_def)
  have ch: "agree chain_key V d d'" using assms(2) by (simp add: agree_def)
  obtain s e e' where r: "restore_last L X F (nc_snap J) f (st_SnapshotDir (cfg_State (ne_cfg env))) d = (s, e)"
    "restore_last L X F (nc_snap J) f (st_SnapshotDir (cfg_State (ne_cfg env))) d' = (s, e')"
    "agree chain_key V e e'" "s \<noteq> 0 \<Longrightarrow> agree replay_key V e e'"
    using restore_last_agree [OF assms(1) ch] by metis
  show ?thesis
  proof (rule out, cases "s = 0")
    case True
    obtain c c' where c: "ResetState L e = (None, c)" "ResetState L e' = (None, c')"
      using ResetState_view(1) [OF assms(1)] by (metis prod.collapse)
    with ResetState_agree [OF assms(1) r(3)] have "agree replay_key V c c'" by simp
    from alloc_loop_agree [OF assms(1) this, of "g_Allocations (ne_genesis env)"] True c r(1,2)
    show "rel_option (rel_prod (=) (agree replay_key V))
        (rebuildStateFromFinalized L J X F env f d) (rebuildStateFromFinalized L J X F env f d')"
      by (cases rule: option.rel_cases) (auto simp: rebuildStateFromFinalized_def intro: replay_tail_agree [OF assms(1)])
  next
    case False
    with r show "rel_option (rel_prod (=) (agree replay_key V))
        (rebuildStateFromFinalized L J X F env f d) (rebuildStateFromFinalized L J X F env f d')"
      by (auto simp: rebuildStateFromFinalized_def intro: replay_tail_agree [OF assms(1)])
  qed
qed


text \<open>A machine without files, and a chain of one block after genesis with which the statement is evaluated.\<close>

definition no_files :: "unit filesys" where
  "no_files = \<lparr>fs_MkdirAll = (\<lambda>f _. (Some (Err ''io''), f)), fs_Create = (\<lambda>f _. (Some (Err ''io''), f)),
     fs_Write = (\<lambda>f _ _. (Some (Err ''io''), f)), fs_Read = (\<lambda>_ _. Inl (Err ''io'')), fs_ReadDir = (\<lambda>_ _. Inl (Err ''io''))\<rparr>"

definition no_codec :: "'a \<Rightarrow> 'a codec" where
  "no_codec z = \<lparr>jc_Marshal = (\<lambda>_. Inl (Err ''marshal'')), jc_Unmarshal = (\<lambda>_. (z, Some (Err ''unmarshal'')))\<rparr>"

definition sample_pay :: tx where
  "sample_pay = zero_tx\<lparr>tx_From := ''alice'', tx_Nonce := 1, tx_Fee := 10,
     tx_Outputs := [\<lparr>o_Amount = 50, o_Asset = ''USDR'', o_Address = ''bob'', o_P = [], o_R = [], o_Tag = [],
       o_EncMemo = [], o_PolicyBits = 0\<rparr>]\<rparr>"

definition sample_node_codecs :: node_codecs where
  "sample_node_codecs = \<lparr>nc_u64 = table_codec 0 [(''0'', 0), (''1'', 1), (''2'', 2)], nc_tx = no_codec zero_tx,
     nc_block = table_codec zero_block [(''B'', \<lparr>b_Header = zero_header\<lparr>bh_Height := 1\<rparr>, b_Txs = [sample_pay]\<rparr>)],
     nc_header = no_codec zero_header, nc_snap = \<lparr>sc_json = no_codec zero_snapshot, sc_gob = no_codec zero_snapshot\<rparr>\<rparr>"

definition sample_ext :: "(bytes \<times> bytes) list node_ext" where
  "sample_ext = \<lparr>nx_ApplyBlock = (\<lambda>_ d. Some (None, d)), nx_SetBalance = SetBalance alist_db, nx_b = zero_block,
     nx_feeSum = 0, nx_balOrder = (\<lambda>_. []), nx_nonOrder = (\<lambda>_. [])\<rparr>"

definition sample_replay_chain :: "(bytes \<times> bytes) list" where
  "sample_replay_chain = [(keyHashByHeight 1, ''h1''), (keyBlockByHash ''h1'', ''B''), (keyTipHeight, ''1''), (keyTipBlockID, ''h1'')]"

definition sample_dirty :: "(bytes \<times> bytes) list" where
  "sample_dirty = (keyBal ''mallory'', PutUint64 7) # (keyNonce ''alice'', PutUint64 9) # sample_replay_chain"

lemma sample_rebuild:
  "map_option (\<lambda>(e, d). (e, bal_of (map_of d) ''alice'', bal_of (map_of d) ''bob'', bal_of (map_of d) ''mallory'',
       non_of (map_of d) ''alice'')) (rebuildStateFromFinalized alist_db sample_node_codecs sample_ext no_files sample_env () sample_replay_chain)
     = Some (None, 40, 50, 0, 1)"
  by code_simp


lemma chain_key_not_acct: "chain_key k \<Longrightarrow> \<not> acct_key k"
  by (auto simp: chain_key_def acct_key_def keyBlockByHash_def keyHashByHeight_def keyTipHeight_def keyTipBlockID_def)

theorem rebuild_forgets_witness:
  "\<exists>d. rebuildStateFromFinalized alist_db sample_node_codecs sample_ext no_files sample_env () sample_dirty = Some (None, d) \<and>
    bal_of (map_of d) ''mallory'' = 0 \<and> bal_of (map_of d) ''alice'' = 40 \<and> non_of (map_of d) ''alice'' = 1"
proof -
  have "map_of sample_dirty k = map_of sample_replay_chain k" if "chain_key k" for k
    using chain_key_not_acct [OF that] by (auto simp: sample_dirty_def)
  from rebuild_forgets [OF alist_db_laws this]
  have "rel_option (rel_prod (=) (\<lambda>e e'. \<forall>k. acct_key k \<longrightarrow> map_of e k = map_of e' k))
    (rebuildStateFromFinalized alist_db sample_node_codecs sample_ext no_files sample_env () sample_dirty)
    (rebuildStateFromFinalized alist_db sample_node_codecs sample_ext no_files sample_env () sample_replay_chain)" .
  then show ?thesis
    using sample_rebuild by (auto simp: bal_of_def non_of_def rel_prod_conv elim!: option.rel_cases)
qed


section \<open>The replay returns\<close>

text \<open>\<open>safe I r\<close>: the operation does not panic, and \<open>I\<close> holds of the store it leaves, error or not.\<close>

definition safe :: "('a \<Rightarrow> bool) \<Rightarrow> (('e \<times> 'a) + 'a) option \<Rightarrow> bool" where
  "safe I r \<longleftrightarrow> (\<exists>e d. r = Some (Inl (e, d)) \<and> I d) \<or> (\<exists>d. r = Some (Inr d) \<and> I d)"

lemma safe_simps [simp]:
  "safe I (Some (Inr d)) \<longleftrightarrow> I d" "safe I (Some (Inl (e, d))) \<longleftrightarrow> I d" "\<not> safe I None"
  by (auto simp: safe_def)

lemma safe_foldE:
  assumes "\<And>x d. x \<in> set xs \<Longrightarrow> I d \<Longrightarrow> safe I (f x d)" "I d"
  shows "safe I (foldE f xs d)"
  using assms
proof (induction xs arbitrary: d)
  case (Cons x xs)
  then have "safe I (f x d)" "\<And>s. I s \<Longrightarrow> safe I (foldE f xs s)" by auto
  then show ?case by (auto simp: safe_def [of I "f x d"])
qed simp

lemma safe_bindE: "safe I r \<Longrightarrow> (\<And>d. I d \<Longrightarrow> safe I (f d)) \<Longrightarrow> safe I (bindE r f)"
  by (auto simp: safe_def [of I r] bindE_def)

lemma safe_for_u64: "hi \<noteq> - 1 \<Longrightarrow> (\<And>h d. I d \<Longrightarrow> safe I (f h d)) \<Longrightarrow> I d \<Longrightarrow> safe I (for_u64 f h hi d)"
  by (simp add: for_u64_eq_foldE safe_foldE)

text \<open>The accounts stay well formed, and the records of the chain stay those of \<open>d0\<close>.\<close>

definition kept_key :: "bytes \<Rightarrow> bool" where
  "kept_key k \<longleftrightarrow> \<not> acct_key k \<and> \<not> prefix ''tx:'' k \<and> \<not> prefix ''fees:block:'' k"

definition replay_inv :: "('d \<Rightarrow> bytes \<rightharpoonup> bytes) \<Rightarrow> 'd \<Rightarrow> 'd \<Rightarrow> bool" where
  "replay_inv V d0 d \<longleftrightarrow> acct_wf (V d) \<and> (\<forall>k. kept_key k \<longrightarrow> V d k = V d0 k)"

lemma not_kept [simp]:
  "\<not> kept_key (keyBal a)" "\<not> kept_key (keyNonce a)" "\<not> kept_key (keyTx i)" "\<not> kept_key (keyBlockFees h)"
  by (simp_all add: kept_key_def keyTx_def keyBlockFees_def)

lemma not_acct [simp]: "\<not> acct_key (keyTx i)" "\<not> acct_key (keyBlockFees h)"
  by (simp_all add: acct_key_def keyTx_def keyBlockFees_def)

lemma replay_inv_put:
  assumes "replay_inv V d0 d" "V d' = (V d)(k \<mapsto> v)" "\<not> kept_key k" "acct_key k \<Longrightarrow> length v = 8"
  shows "replay_inv V d0 d'"
proof -
  have "acct_wf (V d')" using assms(1,2,4) by (auto simp: replay_inv_def acct_wf_def)
  moreover have "V d' j = V d0 j" if "kept_key j" for j
    using that assms(1-3) by (cases "j = k") (auto simp: replay_inv_def)
  ultimately show ?thesis by (simp add: replay_inv_def)
qed

lemma replay_inv_sets:
  assumes "ldb_laws L V" "replay_inv V d0 d"
  shows "replay_inv V d0 (snd (SetBalance L d a v))" "replay_inv V d0 (snd (SetNonce L d a n))"
    "replay_inv V d0 (snd (PutTx L J hf d tx))" "replay_inv V d0 (PutBlockFeeSum L d h s)"
  using assms(2)
  by (auto intro!: replay_inv_put [OF assms(2)] simp: SetBalance_view(2) [OF assms(1)] SetNonce_view(2) [OF assms(1)]
      PutTx_def put_json_def PutBlockFeeSum_def ldb_Put_view [OF assms(1)] split: sum.split)

lemma AddBalance_safe:
  assumes "ldb_laws L V" "replay_inv V d0 d"
  shows "\<exists>x e d'. AddBalance L d a delta = Some (x, e, d') \<and> replay_inv V d0 d'"
proof -
  have wf: "acct_wf (V d)" using assms(2) by (simp add: replay_inv_def)
  show ?thesis
  proof (cases "i64 (bal_of (V d) a + delta) < 0")
    case True
    then show ?thesis using AddBalance_cases(1) [OF assms(1) wf] assms(2) by blast
  next
    case False
    then obtain d' where d': "AddBalance L d a delta = Some (i64 (bal_of (V d) a + delta), None, d')"
      "V d' = (V d)(keyBal a \<mapsto> PutUint64 (u64_of_int (i64 (bal_of (V d) a + delta))))"
      using AddBalance_cases(2) [OF assms(1) wf, of a delta] by auto
    have "replay_inv V d0 d'" by (rule replay_inv_put [OF assms(2) d'(2)]) simp_all
    with d'(1) show ?thesis by blast
  qed
qed

lemma apply_add_safe:
  assumes "ldb_laws L V" "replay_inv V d0 d"
  shows "safe (replay_inv V d0) (apply_add L d a x)"
  using AddBalance_safe [OF assms, of a x] by (auto simp: apply_add_def split: option.split)

lemma apply_tx_safe:
  assumes "ldb_laws L V" "replay_inv V d0 d"
  shows "safe (replay_inv V d0) (apply_tx L J env tx d)"
proof -
  note steps = apply_add_safe [OF assms(1)] replay_inv_sets(2,3) [OF assms(1)]
  have credit: "safe (replay_inv V d0) (apply_credit L out s)" if "replay_inv V d0 s" for out s
    using that steps(1) by (simp add: apply_credit_def)
  show ?thesis
    unfolding apply_tx_def Let_def
    by (cases "claim_of (set_type tx)") (auto intro!: safe_bindE safe_foldE credit steps assms(2))
qed

lemma replay_step_safe:
  assumes "ldb_laws L V" "replay_inv V d0 d"
  shows "safe (replay_inv V d0) (replay_step L J env h d)"
proof -
  obtain b okb hash e where g: "GetBlockByHeight L (nc_block J) d h = (b, okb, hash, e)" by (metis prod_cases4)
  have "safe (replay_inv V d0) (foldE (apply_tx L (nc_tx J) env) (b_Txs b) d)"
    by (intro safe_foldE apply_tx_safe assms)
  with assms g replay_inv_sets(4) [OF assms(1)] show ?thesis
    by (auto simp: replay_step_def applyBlockTxs_def safe_def [of _ "foldE _ _ _"])
qed

lemma alloc_loop_safe:
  assumes "ldb_laws L V" "replay_inv V d0 d"
  shows "\<exists>d'. alloc_loop L allocs d = Some d' \<and> replay_inv V d0 d'"
  using assms(2)
proof (induction allocs arbitrary: d)
  case (Cons a allocs)
  from AddBalance_safe [OF assms(1) Cons.prems, of "al_Address a" "parseInt64 (al_Balance a)"] Cons.IH show ?case by auto
qed simp

lemma ResetState_inv:
  assumes "ldb_laws L V" "\<And>k. kept_key k \<Longrightarrow> V d k = V d0 k"
  shows "\<exists>d'. ResetState L d = (None, d') \<and> replay_inv V d0 d'"
proof -
  obtain d' where d': "ResetState L d = (None, d')" "V d' = V d |` {k. \<not> acct_key k}"
    using ResetState_view [OF assms(1), of d] by (cases "ResetState L d") auto
  then have "replay_inv V d0 d'"
    using assms(2) by (auto simp: replay_inv_def acct_wf_def restrict_map_def kept_key_def)
  with d'(1) show ?thesis by blast
qed

lemma put_maps_inv:
  assumes "ldb_laws L V" "replay_inv V d0 d"
  shows "replay_inv V d0 (put_nonces L ns (put_balances L bs d))"
proof -
  have "replay_inv V d0 (put_balances L bs d)"
    using assms(2) by (induction bs arbitrary: d) (auto simp: put_balances_def replay_inv_sets(1) [OF assms(1)])
  moreover have "replay_inv V d0 (put_nonces L ns s)" if "replay_inv V d0 s" for s
    using that by (induction ns arbitrary: s) (auto simp: put_nonces_def replay_inv_sets(2) [OF assms(1)])
  ultimately show ?thesis by simp
qed

text \<open>
  The rebuild returns unless the tip has the largest height: the accounts are cleared before any
  of them is read, so no malformed entry is left to panic on.
\<close>

lemma rebuild_returns:
  assumes "ldb_laws L V" "fst (GetTip L (nc_u64 J) d) \<noteq> - 1"
  shows "\<exists>e d'. rebuildStateFromFinalized L J X F env f d = Some (e, d') \<and> replay_inv V d d'"
proof -
  let ?dir = "st_SnapshotDir (cfg_State (ne_cfg env))"
  let ?rd = "ReadSnapshotAuto F (nc_snap J) f (last (fst (ListSnapshots F f ?dir)))"
  have tail: "\<exists>e d'. replay_tail L J X env h c = Some (e, d') \<and> replay_inv V d d'" if c: "replay_inv V d c" for h c
  proof -
    have k: "kept_key keyTipHeight" "kept_key keyTipBlockID"
      by (simp_all add: kept_key_def acct_key_def keyTipHeight_def keyTipBlockID_def)
    have "GetTip L (nc_u64 J) c = GetTip L (nc_u64 J) d"
    proof -
      have "ldb_Get L c keyTipBlockID = ldb_Get L d keyTipBlockID" "db_lookup L c keyTipHeight = db_lookup L d keyTipHeight"
        using k c by (simp_all add: db_lookup_eq [OF assms(1)] ldb_Get_eq [OF assms(1)] replay_inv_def)
      then show ?thesis unfolding GetTip_def by (simp only:)
    qed
    then obtain tipH tip ok e where t: "GetTip L (nc_u64 J) c = (tipH, tip, ok, e)" "tipH \<noteq> - 1"
      using assms(2) by (metis prod_cases4 fst_conv)
    have "safe (replay_inv V d) (for_u64 (replay_step L J env) (h + 1) tipH c)"
      using t(2) by (intro safe_for_u64 replay_step_safe assms(1) c)
    with t(1) c replay_inv_sets(4) [OF assms(1)] show ?thesis
      by (auto simp: replay_tail_def safe_def)
  qed
  obtain c where c: "ResetState L d = (None, c)" "replay_inv V d c"
    using ResetState_inv [OF assms(1), of d d] by blast
  have r: "restore_last L X F (nc_snap J) f ?dir d = (0, d) \<or>
      (\<exists>s e. restore_last L X F (nc_snap J) f ?dir d = (s, e) \<and> replay_inv V d e)"
    using c put_maps_inv [OF assms(1) c(2)]
    by (auto simp: restore_last_def Let_def RestoreSnapshot_def split: prod.split option.split)
  then consider "restore_last L X F (nc_snap J) f ?dir d = (0, d)"
    | s e where "restore_last L X F (nc_snap J) f ?dir d = (s, e)" "replay_inv V d e" by blast
  then show ?thesis
  proof cases
    case 1
    obtain a where "alloc_loop L (g_Allocations (ne_genesis env)) c = Some a" "replay_inv V d a"
      using alloc_loop_safe [OF assms(1) c(2)] by blast
    with 1 c(1) tail [of a 0] show ?thesis by (simp add: rebuildStateFromFinalized_def)
  next
    case 2
    obtain c2 where c2: "ResetState L e = (None, c2)" "replay_inv V d c2"
      using ResetState_inv [OF assms(1), of e d] 2(2) by (auto simp: replay_inv_def)
    obtain a where a: "alloc_loop L (g_Allocations (ne_genesis env)) c2 = Some a" "replay_inv V d a"
      using alloc_loop_safe [OF assms(1) c2(2)] by blast
    show ?thesis
      using 2 c2(1) a tail [of a s] tail [of e s] by (cases "s = 0") (simp_all add: rebuildStateFromFinalized_def)
  qed
qed

end
