(* ===== verification/Finality.thy ===== *)
theory Finality
  imports Ledger
begin

text \<open>
  Proof-of-stake finality: votes and their signatures (\<^verbatim>\<open>core/consensus/finality/pos.go\<close>), the
  node's validator set, its checkpoint votes and the two tallies (\<^verbatim>\<open>core/node/node.go\<close>,
  \<^verbatim>\<open>finality_weighted.go\<close>), and the exchange of votes with peers (\<^verbatim>\<open>finality_gossip.go\<close>).
\<close>

section \<open>Votes: \<^verbatim>\<open>pos.go\<close>\<close>

record validator =
  v_Name :: string
  v_PubkeyHex :: string
  v_Weight :: int

definition VoteMessage :: "string \<Rightarrow> u64 \<Rightarrow> string \<Rightarrow> bytes" where
  "VoteMessage chainID height blockHash =
     (let h = ''ReserveOS:PoSFinality:v1|'';
          h = h @ chainID;
          h = h @ ''|'';
          h = h @ dec_u64 height;
          h = h @ ''|'';
          h = h @ blockHash
      in Sum256 h)"

text \<open>
  \<^verbatim>\<open>crypto/ed25519\<close>: a private key is the seed followed by the public key. The scalar of a
  seed is made by the group package's \<^verbatim>\<open>SetBytesWithClamping\<close>, the argument \<open>clamp\<close>. Signing
  panics (\<open>None\<close>) on a key of the wrong size.
\<close>

definition NewKeyFromSeed :: "('p, 's) edwards \<Rightarrow> (bytes \<Rightarrow> 's option) \<Rightarrow> bytes \<Rightarrow> bytes option" where
  "NewKeyFromSeed E clamp seed =
     (if length seed \<noteq> 32 then None
      else do { s \<leftarrow> clamp (take 32 (Sum512 seed)); Some (seed @ pt_Bytes E (ScalarBaseMult E s)) })"

definition ed25519_Sign :: "('p, 's) edwards \<Rightarrow> (bytes \<Rightarrow> 's option) \<Rightarrow> bytes \<Rightarrow> bytes \<Rightarrow> bytes option" where
  "ed25519_Sign E clamp privateKey message =
     (if length privateKey \<noteq> 64 then None
      else let seed = take 32 privateKey; publicKey = drop 32 privateKey;
               h = Sum512 seed
           in do { s \<leftarrow> clamp (take 32 h);
                   r \<leftarrow> sc_SetUniformBytes E (Sum512 (drop 32 h @ message));
                   let R = pt_Bytes E (ScalarBaseMult E r)
                   in do { k \<leftarrow> sc_SetUniformBytes E (Sum512 (R @ publicKey @ message));
                           Some (R @ sc_Bytes E (sc_Add E (sc_Multiply E k s) r)) } })"

definition SignVote :: "('p, 's) edwards \<Rightarrow> (bytes \<Rightarrow> 's option) \<Rightarrow> bytes \<Rightarrow> string \<Rightarrow> u64 \<Rightarrow> string \<Rightarrow> string option" where
  "SignVote E clamp priv chainID height blockHash =
     (let msg = VoteMessage chainID height blockHash
      in do { sig \<leftarrow> ed25519_Sign E clamp priv msg; Some (hex_EncodeToString sig) })"

definition VerifyVote :: "('p, 's) edwards \<Rightarrow> bytes \<Rightarrow> string \<Rightarrow> string \<Rightarrow> u64 \<Rightarrow> string \<Rightarrow> bool" where
  "VerifyVote E pub sigHex chainID height blockHash =
     (case hex_DecodeString sigHex of
        Inl _ \<Rightarrow> False
      | Inr sig \<Rightarrow>
          if length sig \<noteq> 64 then False
          else ed25519_Verify E pub (VoteMessage chainID height blockHash) sig)"

text \<open>
  The key store is the pair of functions the caller passes, over a state \<open>v\<close>; \<open>seed\<close> is what the
  random source yields to \<^verbatim>\<open>ed25519.GenerateKey\<close>.
\<close>

definition EnsureLocalValidatorKey ::
  "('p, 's) edwards \<Rightarrow> (bytes \<Rightarrow> 's option) \<Rightarrow> ('v \<Rightarrow> string \<Rightarrow> string option) \<Rightarrow> ('v \<Rightarrow> string \<Rightarrow> string \<Rightarrow> err \<times> 'v)
     \<Rightarrow> error + bytes \<Rightarrow> 'v \<Rightarrow> (string \<times> string \<times> err \<times> 'v) option" where
  "EnsureLocalValidatorKey E clamp getk setk seed v =
     (case (getk v ''pos.ed25519_pub'', getk v ''pos.ed25519_priv'') of
        (Some p, Some s) \<Rightarrow> Some (p, s, None, v)
      | _ \<Rightarrow>
        (case seed of
           Inl e \<Rightarrow> Some ([], [], Some e, v)
         | Inr seed \<Rightarrow>
           do { priv \<leftarrow> NewKeyFromSeed E clamp seed;
                let pubHex = hex_EncodeToString (drop 32 priv); privHex = hex_EncodeToString priv
                in case setk v ''pos.ed25519_pub'' pubHex of
                     (Some e, v) \<Rightarrow> Some ([], [], Some e, v)
                   | (None, v) \<Rightarrow>
                     (case setk v ''pos.ed25519_priv'' privHex of
                        (Some e, v) \<Rightarrow> Some ([], [], Some e, v)
                      | (None, v) \<Rightarrow> Some (pubHex, privHex, None, v)) }))"

definition ParsePriv :: "string \<Rightarrow> error + bytes" where
  "ParsePriv privHex =
     (case hex_DecodeString privHex of
        Inl e \<Rightarrow> Inl e
      | Inr b \<Rightarrow> if length b \<noteq> 64 then Inl (Err ''bad ed25519 priv size'') else Inr b)"

definition ParsePub :: "string \<Rightarrow> error + bytes" where
  "ParsePub pubHex =
     (case hex_DecodeString pubHex of
        Inl e \<Rightarrow> Inl e
      | Inr b \<Rightarrow> if length b \<noteq> 32 then Inl (Err ''bad ed25519 pub size'') else Inr b)"

definition TotalWeight :: "validator list \<Rightarrow> int" where
  "TotalWeight vs = foldl (\<lambda>t v. i64 (t + v_Weight v)) 0 vs"

definition ReachedThreshold :: "int \<Rightarrow> int \<Rightarrow> int \<Rightarrow> int \<Rightarrow> bool" where
  "ReachedThreshold sm tot num den = (if tot \<le> 0 then False else i64 (sm * den) \<ge> i64 (tot * num))"

section \<open>The validator set of a node: \<^verbatim>\<open>Start\<close> in \<^verbatim>\<open>node.go\<close>\<close>

record ('p, 's) finality_node =
  fn_env :: "('p, 's) node_env"
  fn_clamp :: "bytes \<Rightarrow> 's option"
  fn_finalityEnabled :: bool
  fn_checkpointInterval :: u64
  fn_thresholdNum :: int
  fn_thresholdDen :: int
  fn_validators :: "validator list"
  fn_localPubHex :: string
  fn_localPrivHex :: string

abbreviation (input) fn_ChainID :: "('p, 's) finality_node \<Rightarrow> string" where
  "fn_ChainID n \<equiv> g_ChainID (ne_genesis (fn_env n))"

abbreviation (input) fn_edwards :: "('p, 's) finality_node \<Rightarrow> ('p, 's) edwards" where
  "fn_edwards n \<equiv> ne_edwards (fn_env n)"

definition inherit_finality :: "finality_config \<Rightarrow> genesis \<Rightarrow> finality_config" where
  "inherit_finality fc g =
     (let fc = (if fin_Validators fc = [] \<and> g_Validators g \<noteq> []
                then fc\<lparr>fin_Validators := fin_Validators fc @
                        map (\<lambda>gv. \<lparr>fv_Name = gv_Name gv, fv_PubkeyHex = gv_PubkeyHex gv, fv_Weight = gv_Weight gv\<rparr>)
                          (g_Validators g)\<rparr>
                else fc)
      in case g_Finality g of
           None \<Rightarrow> fc
         | Some f \<Rightarrow>
             if fin_CheckpointInterval fc = 0 \<or> fin_ThresholdNum fc = 0 \<or> fin_ThresholdDen fc = 0
             then let fc = (if fin_CheckpointInterval fc = 0 then fc\<lparr>fin_CheckpointInterval := gf_CheckpointInterval f\<rparr> else fc);
                      fc = (if fin_ThresholdNum fc = 0 then fc\<lparr>fin_ThresholdNum := gf_ThresholdNum f\<rparr> else fc)
                  in if fin_ThresholdDen fc = 0 then fc\<lparr>fin_ThresholdDen := gf_ThresholdDen f\<rparr> else fc
             else fc)"

definition node_validator :: "string \<Rightarrow> finality_validator \<Rightarrow> validator" where
  "node_validator localPubHex vcfg =
     (let pk = fv_PubkeyHex vcfg;
          pk = (if pk = ''AUTO_FROM_KEYVAULT'' \<or> pk = [] then localPubHex else pk);
          w = fv_Weight vcfg;
          w = (if w = 0 then 1 else w)
      in \<lparr>v_Name = fv_Name vcfg, v_PubkeyHex = pk, v_Weight = w\<rparr>)"

definition start_finality ::
  "('p, 's) node_env \<Rightarrow> (bytes \<Rightarrow> 's option) \<Rightarrow> ('v \<Rightarrow> string \<Rightarrow> string option) \<Rightarrow> ('v \<Rightarrow> string \<Rightarrow> string \<Rightarrow> err \<times> 'v)
     \<Rightarrow> error + bytes \<Rightarrow> 'v \<Rightarrow> ((error + ('p, 's) finality_node) \<times> 'v) option" where
  "start_finality env clamp getk setk seed v =
     (let fc = inherit_finality (cfg_Finality (ne_cfg env)) (ne_genesis env);
          n = \<lparr>fn_env = env, fn_clamp = clamp, fn_finalityEnabled = fin_Enabled fc,
               fn_checkpointInterval = fin_CheckpointInterval fc, fn_thresholdNum = fin_ThresholdNum fc,
               fn_thresholdDen = fin_ThresholdDen fc, fn_validators = [], fn_localPubHex = [], fn_localPrivHex = []\<rparr>
      in if \<not> fin_Enabled fc then Some (Inr n, v)
         else do { (pubHex, privHex, e, v) \<leftarrow> EnsureLocalValidatorKey (ne_edwards env) clamp getk setk seed v;
                   case e of
                     Some e \<Rightarrow> Some (Inl (Wrap ''finality key: '' e), v)
                   | None \<Rightarrow> Some (Inr (n\<lparr>fn_localPubHex := pubHex, fn_localPrivHex := privHex,
                                         fn_validators := map (node_validator pubHex) (fin_Validators fc)\<rparr>), v) })"

section \<open>Voting and tallying: \<^verbatim>\<open>node.go\<close>\<close>

text \<open>The JSON codecs of the values these operations store.\<close>

record codecs =
  co_u64 :: "u64 codec"
  co_vote :: "vote_record codec"
  co_validator :: "validator_rec codec"
  co_checkpoint :: "checkpoint codec"

definition isReadOnly :: "config \<Rightarrow> bool" where
  "isReadOnly cfg = (if nr_ReadOnly (cfg_NodeRole cfg) then True
     else if nr_Role (cfg_NodeRole cfg) = ''observer'' then True else False)"

definition isLocalValidator :: "('p, 's) finality_node \<Rightarrow> bool" where
  "isLocalValidator n = list_ex (\<lambda>v. v_PubkeyHex v = fn_localPubHex n) (fn_validators n)"

text \<open>A vote counts for a validator when its key parses and the signature verifies.\<close>

definition vote_verifies :: "('p, 's) finality_node \<Rightarrow> u64 \<Rightarrow> string \<Rightarrow> vote_record \<Rightarrow> string \<Rightarrow> bool" where
  "vote_verifies n height hashHex vr pubkeyHex =
     (case ParsePub pubkeyHex of
        Inl _ \<Rightarrow> False
      | Inr pub \<Rightarrow> VerifyVote (fn_edwards n) pub (vr_SigHex vr) (fn_ChainID n) height hashHex)"

definition tally_reg :: "('p, 's) finality_node \<Rightarrow> u64 \<Rightarrow> string \<Rightarrow> validator_rec list \<Rightarrow> vote_record \<Rightarrow> int \<times> int \<Rightarrow> int \<times> int" where
  "tally_reg n height hashHex valsReg vr ts =
     foldl (\<lambda>(tot, sgned) v.
       if va_Slashed v then (tot, sgned)
       else let tot = i64 (tot + va_Weight v)
            in if va_PubkeyHex v \<noteq> vr_PubkeyHex vr then (tot, sgned)
               else if vote_verifies n height hashHex vr (va_PubkeyHex v) then (tot, i64 (sgned + va_Weight v))
               else (tot, sgned)) ts valsReg"

definition tally_cfg :: "('p, 's) finality_node \<Rightarrow> u64 \<Rightarrow> string \<Rightarrow> vote_record \<Rightarrow> int \<times> int \<Rightarrow> int \<times> int" where
  "tally_cfg n height hashHex vr ts =
     foldl (\<lambda>(tot, sgned) v.
       if v_PubkeyHex v \<noteq> vr_PubkeyHex vr then (tot, sgned)
       else if vote_verifies n height hashHex vr (v_PubkeyHex v) then (tot, i64 (sgned + v_Weight v))
       else (tot, sgned)) (TotalWeight (fn_validators n), snd ts) (fn_validators n)"

definition tally_votes :: "('p, 's) finality_node \<Rightarrow> u64 \<Rightarrow> string \<Rightarrow> validator_rec list \<times> err \<Rightarrow> vote_record list \<Rightarrow> int \<times> int" where
  "tally_votes n height hashHex vals votes =
     (let (valsReg, err2) = vals; useReg = (err2 = None \<and> valsReg \<noteq> [])
      in foldl (\<lambda>ts vr.
           if vr_BlockHash vr \<noteq> hashHex \<or> vr_ChainID vr \<noteq> fn_ChainID n then ts
           else if useReg then tally_reg n height hashHex valsReg vr ts
           else tally_cfg n height hashHex vr ts) (0, 0) votes)"

definition tryFinalizeHeight ::
  "'d leveldb \<Rightarrow> codecs \<Rightarrow> int \<Rightarrow> ('p, 's) finality_node \<Rightarrow> 'd \<Rightarrow> u64 \<Rightarrow> string \<Rightarrow> err \<times> 'd" where
  "tryFinalizeHeight L J now n d height hashHex =
     (case ListVotesForHeight L (co_vote J) d height of
        (_, Some e) \<Rightarrow> (Some e, d)
      | (votes, None) \<Rightarrow>
          (case tally_votes n height hashHex (ListValidators L (co_validator J) d 5000) votes of
             (tot, sgned) \<Rightarrow>
               if tot = 0 then (None, d)
               else if ReachedThreshold sgned tot (fn_thresholdNum n) (fn_thresholdDen n)
               then let d = snd (PutFinalized L (co_u64 J) d height hashHex);
                        d = snd (PutCheckpoint L (co_checkpoint J) d height
                              \<lparr>cp_Height = height, cp_HashHex = hashHex, cp_TimeUnix = now\<rparr>)
                    in (None, d)
               else (None, d)))"

definition local_vote :: "('p, 's) finality_node \<Rightarrow> int \<Rightarrow> u64 \<Rightarrow> string \<Rightarrow> string \<Rightarrow> vote_record" where
  "local_vote n now height hashHex sigHex =
     \<lparr>vr_Height = height, vr_BlockHash = hashHex, vr_ChainID = fn_ChainID n, vr_PubkeyHex = fn_localPubHex n,
      vr_SigHex = sigHex, vr_TimeUnix = now\<rparr>"

definition processCheckpointVotes ::
  "'d leveldb \<Rightarrow> codecs \<Rightarrow> int \<Rightarrow> ('p, 's) finality_node \<Rightarrow> 'd \<Rightarrow> checkpoint \<Rightarrow> (err \<times> 'd) option" where
  "processCheckpointVotes L J now n d cp =
     (if nr_Role (cfg_NodeRole (ne_cfg (fn_env n))) = ''observer'' \<or> isReadOnly (ne_cfg (fn_env n)) then Some (None, d)
      else if \<not> isLocalValidator n then Some (None, d)
      else case ParsePriv (fn_localPrivHex n) of
             Inl e \<Rightarrow> Some (Some e, d)
           | Inr priv \<Rightarrow>
               (case HasVote L d (cp_Height cp) (fn_localPubHex n) of
                  (_, Some e) \<Rightarrow> Some (Some e, d)
                | (has, None) \<Rightarrow>
                    do { d \<leftarrow> (if has then Some d
                              else do { sigHex \<leftarrow> SignVote (fn_edwards n) (fn_clamp n) priv (fn_ChainID n) (cp_Height cp) (cp_HashHex cp);
                                        Some (snd (PutVote L (co_vote J) d (local_vote n now (cp_Height cp) (cp_HashHex cp) sigHex))) });
                         Some (tryFinalizeHeight L J now n d (cp_Height cp) (cp_HashHex cp)) }))"

section \<open>The weighted tally: \<^verbatim>\<open>finality_weighted.go\<close>\<close>

text \<open>
  \<^verbatim>\<open>reservestorage.ListVotes\<close> is not defined in the sources: it is the argument \<open>listVotes\<close>. The
  order in which Go ranges over the map of tallies is the argument \<open>ord\<close>. The checkpoint literal
  names a field \<^verbatim>\<open>BlockHash\<close> that the struct does not declare; it is the hash of the struct here.
\<close>

definition weightByPub :: "validator_rec list \<Rightarrow> (string \<rightharpoonup> int) \<times> int" where
  "weightByPub vals =
     foldl (\<lambda>(m, totalW) v.
       if va_Slashed v \<or> va_Weight v \<le> 0 then (m, totalW)
       else (m(va_PubkeyHex v \<mapsto> va_Weight v), i64 (totalW + va_Weight v))) (Map.empty, 0) vals"

definition tally_by_hash :: "(string \<rightharpoonup> int) \<Rightarrow> vote_record list \<Rightarrow> (string \<times> int) list" where
  "tally_by_hash m votes =
     foldl (\<lambda>tally vr.
       let w = (case m (vr_PubkeyHex vr) of None \<Rightarrow> 0 | Some w \<Rightarrow> w)
       in if w \<le> 0 then tally
          else let cur = (case map_of tally (vr_BlockHash vr) of None \<Rightarrow> 0 | Some c \<Rightarrow> c)
               in AList.update (vr_BlockHash vr) (i64 (cur + w)) tally) [] votes"

definition best_tally :: "(string \<times> int) list \<Rightarrow> string \<times> int" where
  "best_tally tally = foldl (\<lambda>(bestHash, bestW) (h, wv). if wv > bestW then (h, wv) else (bestHash, bestW)) ([], 0) tally"

definition TryFinalizeHeight ::
  "'d leveldb \<Rightarrow> codecs \<Rightarrow> ('d \<Rightarrow> u64 \<Rightarrow> int \<Rightarrow> vote_record list \<times> err) \<Rightarrow> ((string \<times> int) list \<Rightarrow> (string \<times> int) list)
     \<Rightarrow> 'd \<Rightarrow> u64 \<Rightarrow> 'd" where
  "TryFinalizeHeight L J listVotes ord d height =
     (case listVotes d height 5000 of
        (_, Some _) \<Rightarrow> d
      | (votes, None) \<Rightarrow>
          (case ListValidators L (co_validator J) d 5000 of
             (vals, e) \<Rightarrow>
               if e \<noteq> None \<or> vals = [] then d
               else case weightByPub vals of
                      (m, totalW) \<Rightarrow>
                        if totalW \<le> 0 then d
                        else case best_tally (ord (tally_by_hash m votes)) of
                               (bestHash, bestW) \<Rightarrow>
                                 if i64 (bestW * 3) < i64 (totalW * 2) then d
                                 else if height > fst (GetFinalizedHeight L d)
                                 then let d = snd (SetFinalizedHeight L d height);
                                          d = snd (SetFinalizedHash L d bestHash)
                                      in snd (PutCheckpoint L (co_checkpoint J) d height
                                           \<lparr>cp_Height = height, cp_HashHex = bestHash, cp_TimeUnix = 0\<rparr>)
                                 else d))"

section \<open>Votes from and to peers: \<^verbatim>\<open>finality_gossip.go\<close>\<close>

text \<open>
  The peers are reached over HTTP: \<open>hget url\<close> is the body of the answer to a GET request or its
  error. What is posted is collected in \<open>out\<close>, in order; the answers to posts are not used.
\<close>

type_synonym outbox = "(string \<times> bytes) list"

definition postJSON :: "'a codec \<Rightarrow> string \<Rightarrow> 'a \<Rightarrow> outbox \<Rightarrow> outbox" where
  "postJSON J url obj out = out @ [(url, marshal_or_nil J obj)]"

text \<open>The digits of \<open>v\<close>, least significant first, and the loop that reverses them in place.\<close>

function itoaU_digits :: "u64 \<Rightarrow> bytes \<Rightarrow> bytes" where
  "itoaU_digits v buf =
     (if v > 0 then itoaU_digits (v div 10) (buf @ [char_of (48 + unat (v mod 10))]) else buf)"
  by pat_completeness auto
termination
proof (relation "measure (\<lambda>(v, buf). unat v)")
  fix v :: u64
  assume "v > 0"
  then have "unat v > 0" by (simp add: word_less_nat_alt)
  then show "((v div 10, buf @ [char_of (48 + unat (v mod 10))]), v, buf) \<in> measure (\<lambda>(v, buf). unat v)" for buf
    by (simp add: unat_div)
qed simp

function rev_swap :: "bytes \<Rightarrow> nat \<Rightarrow> nat \<Rightarrow> bytes" where
  "rev_swap buf i j = (if i < j then rev_swap (buf[i := buf ! j, j := buf ! i]) (i + 1) (j - 1) else buf)"
  by pat_completeness auto
termination by (relation "measure (\<lambda>(buf, i, j). j - i)") auto

declare itoaU_digits.simps [simp del] rev_swap.simps [simp del]

definition itoaU :: "u64 \<Rightarrow> string" where
  "itoaU v = (if v = 0 then ''0'' else let buf = itoaU_digits v [] in rev_swap buf 0 (length buf - 1))"

definition getVotes :: "(string \<Rightarrow> error + bytes) \<Rightarrow> vote_record list codec \<Rightarrow> string \<Rightarrow> u64 \<Rightarrow> error + vote_record list" where
  "getVotes hget J peer height =
     (case hget (peer @ ''/finality/votes?height='' @ itoaU height) of
        Inl e \<Rightarrow> Inl e
      | Inr body \<Rightarrow> (case jc_Unmarshal J body of (_, Some e) \<Rightarrow> Inl e | (votes, None) \<Rightarrow> Inr votes))"

definition storeAndBroadcastVote ::
  "'d leveldb \<Rightarrow> codecs \<Rightarrow> int \<Rightarrow> ('p, 's) finality_node \<Rightarrow> u64 \<Rightarrow> string \<Rightarrow> 'd \<times> outbox \<Rightarrow> (err \<times> 'd \<times> outbox) option" where
  "storeAndBroadcastVote L J now n height hashHex s =
     (case s of (d, out) \<Rightarrow>
        (case ParsePriv (fn_localPrivHex n) of
           Inl e \<Rightarrow> Some (Some e, d, out)
         | Inr priv \<Rightarrow>
             do { sigHex \<leftarrow> SignVote (fn_edwards n) (fn_clamp n) priv (fn_ChainID n) height hashHex;
                  let vr = local_vote n now height hashHex sigHex;
                      d = snd (PutVote L (co_vote J) d vr);
                      out = foldl (\<lambda>out peer. postJSON (co_vote J) (peer @ ''/finality/submit_vote'') vr out) out
                              (fin_Peers (cfg_Finality (ne_cfg (fn_env n))))
                  in Some (None, d, out) }))"

text \<open>The block is decoded into a value of any type, by the codec \<open>JB\<close>, and not used.\<close>

definition ensureVoteForHeight ::
  "'d leveldb \<Rightarrow> codecs \<Rightarrow> block codec \<Rightarrow> int \<Rightarrow> ('p, 's) finality_node \<Rightarrow> u64 \<Rightarrow> 'd \<times> outbox \<Rightarrow> (err \<times> 'd \<times> outbox) option" where
  "ensureVoteForHeight L J JB now n h s =
     (case s of (d, out) \<Rightarrow>
        (case HasVote L d h (fn_localPubHex n) of
           (_, Some e) \<Rightarrow> Some (Some e, d, out)
         | (has, None) \<Rightarrow>
             if has then Some (None, d, out)
             else case GetBlockByHeight L JB d h of
                    (_, ok, hashHex, e) \<Rightarrow>
                      if e \<noteq> None \<or> \<not> ok then Some (e, d, out)
                      else do { (_, d, out) \<leftarrow> storeAndBroadcastVote L J now n h hashHex (d, out);
                                Some (None, snd (tryFinalizeHeight L J now n d h hashHex), out) }))"

text \<open>
  \<open>for_step body h hi step s\<close> is \<^verbatim>\<open>for ; h <= hi; h += step { ... }\<close> on \<^verbatim>\<open>uint64\<close>, which does
  not end when the sum wraps below \<open>hi\<close> (\<open>None\<close>).
\<close>

partial_function (option) for_step :: "(u64 \<Rightarrow> 's \<Rightarrow> 's option) \<Rightarrow> u64 \<Rightarrow> u64 \<Rightarrow> u64 \<Rightarrow> 's \<Rightarrow> 's option" where
  [code]: "for_step body h hi step s =
     (if h \<le> hi then Option.bind (body h s) (for_step body (h + step) hi step) else Some s)"

definition go_div_u64 :: "u64 \<Rightarrow> u64 \<Rightarrow> u64 option" where
  "go_div_u64 a b = (if b = 0 then None else Some (a div b))"

definition ensureVotesUpToTip ::
  "'d leveldb \<Rightarrow> codecs \<Rightarrow> block codec \<Rightarrow> int \<Rightarrow> ('p, 's) finality_node \<Rightarrow> 'd \<times> outbox \<Rightarrow> (err \<times> 'd \<times> outbox) option" where
  "ensureVotesUpToTip L J JB now n s =
     (case s of (d, out) \<Rightarrow>
        (case GetTip L (co_u64 J) d of
           (tipH, _, ok, e) \<Rightarrow>
             if e \<noteq> None \<or> \<not> ok then Some (e, d, out)
             else case GetFinalized L (co_u64 J) d of
                    (finH, _, finOK, _) \<Rightarrow>
                      (let start = (if finOK then finH else 0); ci = fn_checkpointInterval n
                       in do { q \<leftarrow> go_div_u64 tipH ci;
                               let lastCp = q * ci
                               in do { (d, out) \<leftarrow> for_step (\<lambda>h s. do { (_, s) \<leftarrow> ensureVoteForHeight L J JB now n h s; Some s })
                                                    (start + ci) lastCp ci (d, out);
                                       Some (None, d, out) } })))"

definition known_validator :: "('p, 's) finality_node \<Rightarrow> string \<Rightarrow> bool" where
  "known_validator n pubkeyHex = list_ex (\<lambda>v. v_PubkeyHex v = pubkeyHex) (fn_validators n)"

text \<open>
  After the check against the registry or the configured validators the code looks the key up
  among the configured validators again, through a variable it does not declare, and verifies the
  signature a second time.
\<close>

definition ingestVote ::
  "'d leveldb \<Rightarrow> codecs \<Rightarrow> int \<Rightarrow> ('p, 's) finality_node \<Rightarrow> 'd \<Rightarrow> vote_record \<Rightarrow> err \<times> 'd" where
  "ingestVote L J now n d vr =
     (if \<not> fn_finalityEnabled n then (None, d)
      else if vr_ChainID vr \<noteq> fn_ChainID n then (None, d)
      else let valsReg = fst (ListValidators L (co_validator J) d 5000);
               useReg = (valsReg \<noteq> []);
               valPub = (if useReg
                         then (case find (\<lambda>v. va_PubkeyHex v = vr_PubkeyHex vr \<and> \<not> va_Slashed v) valsReg of
                                 Some v \<Rightarrow> va_PubkeyHex v | None \<Rightarrow> [])
                         else (case find (\<lambda>v. v_PubkeyHex v = vr_PubkeyHex vr) (fn_validators n) of
                                 Some v \<Rightarrow> v_PubkeyHex v | None \<Rightarrow> []))
           in if valPub = [] then (None, d)
              else case ParsePub (vr_PubkeyHex vr) of
                     Inl _ \<Rightarrow> (None, d)
                   | Inr pub \<Rightarrow>
                       if \<not> VerifyVote (fn_edwards n) pub (vr_SigHex vr) (vr_ChainID vr) (vr_Height vr) (vr_BlockHash vr)
                       then (None, d)
                       else if \<not> known_validator n (vr_PubkeyHex vr) then (None, d)
                       else case HasVote L d (vr_Height vr) (vr_PubkeyHex vr) of
                              (_, Some e) \<Rightarrow> (Some e, d)
                            | (has, None) \<Rightarrow>
                                (let d = (if \<not> has then snd (PutVote L (co_vote J) d vr) else d)
                                 in (None, snd (tryFinalizeHeight L J now n d (vr_Height vr) (vr_BlockHash vr)))))"

definition pullVotesFromPeers ::
  "'d leveldb \<Rightarrow> codecs \<Rightarrow> vote_record list codec \<Rightarrow> (string \<Rightarrow> error + bytes) \<Rightarrow> int \<Rightarrow> ('p, 's) finality_node
     \<Rightarrow> 'd \<Rightarrow> (err \<times> 'd) option" where
  "pullVotesFromPeers L J JL hget now n d =
     (let peers = fin_Peers (cfg_Finality (ne_cfg (fn_env n)))
      in if peers = [] then Some (None, d)
         else case GetTip L (co_u64 J) d of
                (tipH, _, ok, e) \<Rightarrow>
                  if e \<noteq> None \<or> \<not> ok then Some (e, d)
                  else let ci = fn_checkpointInterval n
                       in do { q \<leftarrow> go_div_u64 tipH ci;
                               let lastCp = q * ci;
                                   start = (if lastCp \<ge> ci * 3 then lastCp - ci * 3 else 0)
                               in do { d \<leftarrow> for_step (\<lambda>h d. Some (foldl (\<lambda>d peer.
                                                case getVotes hget JL peer h of
                                                  Inl _ \<Rightarrow> d
                                                | Inr votes \<Rightarrow> foldl (\<lambda>d vr. snd (ingestVote L J now n d vr)) d votes)
                                                d peers)) start lastCp ci d;
                                       Some (None, d) } })"

text \<open>One tick of the gossip loop.\<close>

definition finality_tick ::
  "'d leveldb \<Rightarrow> codecs \<Rightarrow> block codec \<Rightarrow> vote_record list codec \<Rightarrow> (string \<Rightarrow> error + bytes) \<Rightarrow> int \<Rightarrow> ('p, 's) finality_node
     \<Rightarrow> 'd \<times> outbox \<Rightarrow> ('d \<times> outbox) option" where
  "finality_tick L J JB JL hget now n s =
     (if \<not> fn_finalityEnabled n then Some s
      else do { (_, d, out) \<leftarrow> ensureVotesUpToTip L J JB now n s;
                (_, d) \<leftarrow> pullVotesFromPeers L J JL hget now n d;
                Some (d, out) })"

section \<open>Heights in URLs\<close>

lemma rev_swap_parts: "rev_swap (a @ m @ c) (length a) (length a + length m - 1) = a @ rev m @ c"
proof (induction m arbitrary: a c rule: length_induct)
  case (1 m)
  show ?case
  proof (cases m)
    case (Cons x m1)
    show ?thesis
    proof (cases m1 rule: rev_cases)
      case (snoc m2 y)
      have "rev_swap (a @ m @ c) (length a) (length a + length m - 1)
          = rev_swap ((a @ [y]) @ m2 @ (x # c)) (length (a @ [y])) (length (a @ [y]) + length m2 - 1)"
        using Cons snoc by (subst rev_swap.simps) (simp add: nth_append list_update_append)
      also have "\<dots> = (a @ [y]) @ rev m2 @ x # c"
        using 1 Cons snoc by (metis length_append_singleton length_Cons less_SucI lessI)
      finally show ?thesis using Cons snoc by simp
    qed (simp add: Cons rev_swap.simps [of _ "length a" "length a"])
  next
    case Nil
    have "\<not> length a < length a + length m - 1" using Nil by simp
    then show ?thesis using Nil by (subst rev_swap.simps) simp
  qed
qed

lemma rev_swap_rev: "rev_swap buf 0 (length buf - 1) = rev buf"
  using rev_swap_parts [of "[]" buf "[]"] by simp

lemma itoaU_digits_eq: "0 < v \<Longrightarrow> itoaU_digits v buf = buf @ rev (dec_u64 v)"
proof (induction "unat v" arbitrary: v buf rule: less_induct)
  case less
  have d: "char_of (48 + unat (v mod 10)) = digit (unat v mod 10)" by (simp add: digit_def unat_mod)
  have lt: "unat (v div 10) < unat v" using less.prems by (simp add: unat_div word_less_nat_alt)
  show ?case
  proof (cases "v div 10 > 0")
    case True
    then have "\<not> unat v < 10" by (simp add: word_less_nat_alt unat_div)
    then have dec: "dec_u64 v = dec_u64 (v div 10) @ [digit (unat v mod 10)]"
      unfolding dec_u64_def by (subst dec_nat.simps) (simp add: unat_div)
    have "itoaU_digits v buf = itoaU_digits (v div 10) (buf @ [digit (unat v mod 10)])"
      using less.prems by (subst itoaU_digits.simps) (simp add: d)
    then show ?thesis using less.hyps [OF lt True] by (simp add: dec)
  next
    case False
    then have z: "v div 10 = 0" by (simp add: word_gt_0)
    then have "unat v div 10 = 0" by (simp flip: unat_div add: unat_div [of v 10, simplified, symmetric])
    then have "unat v < 10" by simp
    with z show ?thesis
      using less.prems
      by (subst itoaU_digits.simps, subst itoaU_digits.simps) (simp add: d dec_u64_def dec_nat.simps [of "unat v"])
  qed
qed

lemma itoaU_eq: "itoaU v = dec_u64 v"
proof (cases "v = 0")
  case True
  have "char_of (48 :: nat) = CHR ''0''" by code_simp
  with True show ?thesis by (simp add: itoaU_def dec_u64_def dec_nat.simps [of 0] digit_def)
next
  case False
  then show ?thesis
    using itoaU_digits_eq [of v "[]"] rev_swap_rev [of "rev (dec_u64 v)"] by (simp add: itoaU_def Let_def word_gt_0)
qed

section \<open>Votes that verify\<close>

text \<open>The group law that verification relies on, at every point: what is added and negated cancels.\<close>

definition edwards_cancel :: "('p, 's) edwards \<Rightarrow> bool" where
  "edwards_cancel E \<longleftrightarrow>
     (\<forall>k A R. pt_Add E (pt_ScalarMult E k (pt_Negate E A)) (pt_Add E (pt_ScalarMult E k A) R) = R)"

lemma edwards_lawsD:
  assumes "edwards_laws E"
  shows "pt_SetBytes E (pt_Bytes E P) = Some P" "length (pt_Bytes E P) = 32"
    "sc_SetCanonicalBytes E (sc_Bytes E s) = Some s" "length (sc_Bytes E s) = 32"
    "length b = 64 \<Longrightarrow> \<exists>x. sc_SetUniformBytes E b = Some x"
    "ScalarBaseMult E (sc_Add E a c) = pt_Add E (ScalarBaseMult E a) (ScalarBaseMult E c)"
    "ScalarBaseMult E (sc_Multiply E a c) = pt_ScalarMult E a (ScalarBaseMult E c)"
  using assms unfolding edwards_laws_def by auto

lemma ed25519_Sign_Verify:
  assumes E: "edwards_laws E" "edwards_cancel E" and key: "NewKeyFromSeed E clamp seed = Some priv"
  obtains sig where "ed25519_Sign E clamp priv msg = Some sig" "length sig = 64"
    "ed25519_Verify E (drop 32 priv) msg sig"
proof -
  note laws = edwards_lawsD [OF E(1)]
  from key obtain s where s: "length seed = 32" "clamp (take 32 (Sum512 seed)) = Some s"
    "priv = seed @ pt_Bytes E (ScalarBaseMult E s)"
    by (auto simp: NewKeyFromSeed_def bind_eq_Some_conv split: if_splits)
  let ?A = "ScalarBaseMult E s"
  obtain r where r: "sc_SetUniformBytes E (Sum512 (drop 32 (Sum512 seed) @ msg)) = Some r"
    using laws(5) [OF length_Sum512] by blast
  let ?R = "ScalarBaseMult E r"
  obtain k where k: "sc_SetUniformBytes E (Sum512 (pt_Bytes E ?R @ pt_Bytes E ?A @ msg)) = Some k"
    using laws(5) [OF length_Sum512] by blast
  let ?S = "sc_Add E (sc_Multiply E k s) r" and ?sig = "pt_Bytes E ?R @ sc_Bytes E (sc_Add E (sc_Multiply E k s) r)"
  have "ScalarBaseMult E ?S = pt_Add E (pt_ScalarMult E k ?A) ?R" by (simp add: laws(6,7))
  then have eq: "pt_Add E (pt_ScalarMult E k (pt_Negate E ?A)) (ScalarBaseMult E ?S) = ?R"
    using E(2) by (simp add: edwards_cancel_def)
  show thesis
  proof (rule that)
    show "ed25519_Sign E clamp priv msg = Some ?sig" using s r k by (simp add: ed25519_Sign_def Let_def laws(2))
    show "length ?sig = 64" by (simp add: laws(2,4))
    show "ed25519_Verify E (drop 32 priv) msg ?sig"
      using s k by (simp add: ed25519_Verify_def laws(1-4) eq)
  qed
qed

text \<open>
  C31. A validator's votes verify: on a node with an empty key store the key pair that is
  generated and stored parses back, and every vote signed with its private half verifies against
  its public half, for the chain, height and block hash it was signed for. The group is that of
  the curve package: encodings decode, a multiple of a point cancels with that of its negation, and
  scalars act on the multiples of the generator, the subgroup of prime order, as integers modulo its
  order do. The key store keeps what is put in it.
\<close>

theorem local_votes_verify:
  assumes "edwards_laws E" "edwards_cancel E" "\<forall>b. length b = 32 \<longrightarrow> clamp b \<noteq> None"
    and "\<forall>v k. getk v k = v k" "\<forall>v k x. setk v k x = (None, v(k \<mapsto> x))"
    and "length seed = 32"
  shows "\<exists>pubHex privHex v pub priv.
    EnsureLocalValidatorKey E clamp getk setk (Inr seed) Map.empty = Some (pubHex, privHex, None, v) \<and>
    EnsureLocalValidatorKey E clamp getk setk (Inr seed') v = Some (pubHex, privHex, None, v) \<and>
    ParsePub pubHex = Inr pub \<and> ParsePriv privHex = Inr priv \<and>
    (\<forall>chainID height blockHash. \<exists>sigHex. SignVote E clamp priv chainID height blockHash = Some sigHex \<and>
       VerifyVote E pub sigHex chainID height blockHash)"
proof -
  have "clamp (take 32 (Sum512 seed)) \<noteq> None" using assms(3) length_Sum512 [of seed] by simp
  then obtain s where s: "clamp (take 32 (Sum512 seed)) = Some s" by blast
  let ?pub = "pt_Bytes E (ScalarBaseMult E s)"
  let ?priv = "seed @ ?pub"
  let ?v = "[''pos.ed25519_pub'' \<mapsto> hex_EncodeToString ?pub, ''pos.ed25519_priv'' \<mapsto> hex_EncodeToString ?priv]"
  have key: "NewKeyFromSeed E clamp seed = Some ?priv" using assms(6) s by (simp add: NewKeyFromSeed_def)
  have drop: "drop 32 ?priv = ?pub" using assms(6) by simp
  note len = edwards_lawsD(2) [OF assms(1)]
  have "EnsureLocalValidatorKey E clamp getk setk (Inr seed) Map.empty
      = Some (hex_EncodeToString ?pub, hex_EncodeToString ?priv, None, ?v)"
    using assms(4,5) key drop by (simp add: EnsureLocalValidatorKey_def Let_def)
  moreover have "EnsureLocalValidatorKey E clamp getk setk (Inr seed') ?v
      = Some (hex_EncodeToString ?pub, hex_EncodeToString ?priv, None, ?v)"
    using assms(4) by (simp add: EnsureLocalValidatorKey_def)
  moreover have "ParsePub (hex_EncodeToString ?pub) = Inr ?pub" "ParsePriv (hex_EncodeToString ?priv) = Inr ?priv"
    using assms(6) by (simp_all add: ParsePub_def ParsePriv_def len)
  moreover have "\<exists>sigHex. SignVote E clamp ?priv c h b = Some sigHex \<and> VerifyVote E ?pub sigHex c h b" for c h b
  proof -
    obtain sig where "ed25519_Sign E clamp ?priv (VoteMessage c h b) = Some sig" "length sig = 64"
      "ed25519_Verify E ?pub (VoteMessage c h b) sig"
      using ed25519_Sign_Verify [OF assms(1,2) key] drop by metis
    then show ?thesis by (simp add: SignVote_def VerifyVote_def)
  qed
  ultimately show ?thesis by blast
qed

text \<open>A small group to evaluate with: the integers modulo 256.\<close>

definition byte_edwards :: "(8 word, 8 word) edwards" where
  "byte_edwards = \<lparr>pt_SetBytes = (\<lambda>b. Some (of_nat (of_char (hd b)))),
     pt_Bytes = (\<lambda>w. char_of (unat w) # replicate 31 (CHR 0x00)), pt_Generator = 1,
     pt_Add = (+), pt_Negate = uminus, pt_ScalarMult = (*), pt_Equal = (=),
     sc_SetCanonicalBytes = (\<lambda>b. Some (of_nat (of_char (hd b)))),
     sc_SetUniformBytes = (\<lambda>b. Some (of_nat (of_char (hd b)))),
     sc_Bytes = (\<lambda>w. char_of (unat w) # replicate 31 (CHR 0x00)), sc_Multiply = (*), sc_Add = (+)\<rparr>"

lemma byte_edwards_laws: "edwards_laws byte_edwards" "edwards_cancel byte_edwards"
proof -
  have "of_nat (of_char (char_of (unat w))) = w" for w :: "8 word"
    using unsigned_less [of w, where ?'a = nat] by simp
  then show "edwards_laws byte_edwards"
    by (simp add: edwards_laws_def ScalarBaseMult_def byte_edwards_def)
  show "edwards_cancel byte_edwards" by (simp add: edwards_cancel_def byte_edwards_def)
qed

theorem local_votes_verify_witness:
  "\<exists>pubHex privHex v pub priv sigHex.
     EnsureLocalValidatorKey byte_edwards (\<lambda>b. Some (of_nat (of_char (hd b)))) (\<lambda>v. v) (\<lambda>v k x. (None, v(k \<mapsto> x)))
       (Inr (replicate 32 (CHR ''s''))) Map.empty = Some (pubHex, privHex, None, v) \<and>
     ParsePub pubHex = Inr pub \<and> ParsePriv privHex = Inr priv \<and>
     SignVote byte_edwards (\<lambda>b. Some (of_nat (of_char (hd b)))) priv ''reserve-1'' 20 ''ab'' = Some sigHex \<and>
     VerifyVote byte_edwards pub sigHex ''reserve-1'' 20 ''ab''"
proof -
  let ?get = "\<lambda>v :: string \<rightharpoonup> string. v" and ?set = "\<lambda>(v :: string \<rightharpoonup> string) k x. (None :: err, v(k \<mapsto> x))"
  have h: "\<forall>b :: bytes. length b = 32 \<longrightarrow> Some (of_nat (of_char (hd b)) :: 8 word) \<noteq> None"
    "\<forall>v k. ?get v k = v k" "\<forall>v k x. ?set v k x = (None, v(k \<mapsto> x))" "length (replicate 32 (CHR ''s'')) = 32" by simp_all
  from local_votes_verify [OF byte_edwards_laws h(1-4)] show ?thesis by blast
qed

end
