(* ===== verification/Quorum.thy ===== *)
theory Quorum
  imports Finality
begin

text \<open>
  What a finalized height means: the weight behind it, what two conflicting finalizations imply,
  the tally over the validator registry, and the local votes a node owes.
\<close>

section \<open>Sums over votes and validators\<close>

text \<open>When every key votes at most once, summing vote by vote counts each validator at most once.\<close>

lemma sum_votes_validators:
  fixes w :: "'v \<Rightarrow> int"
  assumes "distinct (map key votes)"
  shows "(\<Sum>vr \<leftarrow> votes. \<Sum>v \<leftarrow> vs. if g v = key vr \<and> P vr v then w v else 0)
    = (\<Sum>v \<leftarrow> vs. if \<exists>vr \<in> set votes. g v = key vr \<and> P vr v then w v else 0)"
  using assms
proof (induction votes)
  case (Cons vr votes)
  have "(\<Sum>v \<leftarrow> vs. if g v = key vr \<and> P vr v then w v else 0)
      + (\<Sum>v \<leftarrow> vs. if \<exists>vr \<in> set votes. g v = key vr \<and> P vr v then w v else 0)
    = (\<Sum>v \<leftarrow> vs. if \<exists>vr \<in> set (vr # votes). g v = key vr \<and> P vr v then w v else 0)"
    unfolding sum_list_addf [symmetric]
    by (rule arg_cong [where f = sum_list], rule map_cong) (use Cons.prems in auto)
  with Cons show ?case by simp
qed simp

lemma sum_list_mono_int:
  fixes f g :: "'v \<Rightarrow> int"
  shows "(\<And>x. x \<in> set xs \<Longrightarrow> f x \<le> g x) \<Longrightarrow> (\<Sum>x \<leftarrow> xs. f x) \<le> (\<Sum>x \<leftarrow> xs. g x)"
  by (rule sum_list_mono)

section \<open>The tally over the configured validators\<close>

definition weight_of :: "validator list \<Rightarrow> (validator \<Rightarrow> bool) \<Rightarrow> int" where
  "weight_of vs P = (\<Sum>v \<leftarrow> vs. if P v then v_Weight v else 0)"

lemma weight_of_bounds:
  assumes "\<forall>v \<in> set vs. 0 \<le> v_Weight v"
  shows "0 \<le> weight_of vs P" "weight_of vs P \<le> weight_of vs (\<lambda>_. True)"
  unfolding weight_of_def using assms by (auto intro!: sum_list_nonneg sum_list_mono_int)

text \<open>Two groups of validators overlap by at least what they have in excess of the whole.\<close>

lemma weight_of_overlap:
  assumes "\<forall>v \<in> set vs. 0 \<le> v_Weight v"
  shows "weight_of vs P + weight_of vs Q \<le> weight_of vs (\<lambda>_. True) + weight_of vs (\<lambda>v. P v \<and> Q v)"
  unfolding weight_of_def sum_list_addf [symmetric] using assms by (intro sum_list_mono_int) auto

lemma TotalWeight_exact:
  assumes "\<forall>v \<in> set vs. 0 \<le> v_Weight v" "weight_of vs (\<lambda>_. True) < 2 ^ 63"
  shows "TotalWeight vs = weight_of vs (\<lambda>_. True)"
proof -
  have "foldl (\<lambda>t v. i64 (t + v_Weight v)) t vs = t + weight_of vs (\<lambda>_. True)"
    if "0 \<le> t" "t + weight_of vs (\<lambda>_. True) < 2 ^ 63" for t
    using assms(1) that
  proof (induction vs arbitrary: t)
    case (Cons v vs)
    have "0 \<le> weight_of vs (\<lambda>_. True)" using Cons.prems(1) by (intro weight_of_bounds) auto
    with Cons.prems have "i64 (t + v_Weight v) = t + v_Weight v" by (intro i64_small) (auto simp: weight_of_def)
    with Cons show ?case by (simp add: weight_of_def add.assoc)
  qed (simp add: weight_of_def)
  from this [of 0] assms(2) show ?thesis by (simp add: TotalWeight_def)
qed

lemma tally_cfg_exact:
  assumes "\<forall>v \<in> set (fn_validators n). 0 \<le> v_Weight v" "0 \<le> s"
    "s + weight_of (fn_validators n) (\<lambda>v. v_PubkeyHex v = vr_PubkeyHex vr \<and> vote_verifies n h b vr (v_PubkeyHex v)) < 2 ^ 63"
  shows "tally_cfg n h b vr (t, s) = (TotalWeight (fn_validators n),
    s + weight_of (fn_validators n) (\<lambda>v. v_PubkeyHex v = vr_PubkeyHex vr \<and> vote_verifies n h b vr (v_PubkeyHex v)))"
proof -
  let ?P = "\<lambda>v. v_PubkeyHex v = vr_PubkeyHex vr \<and> vote_verifies n h b vr (v_PubkeyHex v)"
  have "foldl (\<lambda>(tot, sgned) v.
      if v_PubkeyHex v \<noteq> vr_PubkeyHex vr then (tot, sgned)
      else if vote_verifies n h b vr (v_PubkeyHex v) then (tot, i64 (sgned + v_Weight v))
      else (tot, sgned)) (T, s) vs = (T, s + weight_of vs ?P)"
    if "\<forall>v \<in> set vs. 0 \<le> v_Weight v" "0 \<le> s" "s + weight_of vs ?P < 2 ^ 63" for T vs
    using that
  proof (induction vs arbitrary: s)
    case (Cons v vs)
    have "0 \<le> weight_of vs ?P" using Cons.prems(1) by (intro weight_of_bounds) auto
    with Cons.prems have "?P v \<Longrightarrow> i64 (s + v_Weight v) = s + v_Weight v" by (intro i64_small) (auto simp: weight_of_def)
    with Cons show ?case by (auto simp: weight_of_def add.assoc)
  qed (simp add: weight_of_def)
  with assms show ?thesis by (simp add: tally_cfg_def)
qed

text \<open>The validators that signed a hash, among a list of votes.\<close>

definition signed_by :: "('p, 's) finality_node \<Rightarrow> u64 \<Rightarrow> string \<Rightarrow> vote_record list \<Rightarrow> validator \<Rightarrow> bool" where
  "signed_by n height hashHex votes v \<longleftrightarrow>
     (\<exists>vr \<in> set votes. v_PubkeyHex v = vr_PubkeyHex vr \<and> vr_BlockHash vr = hashHex \<and> vr_ChainID vr = fn_ChainID n \<and>
        vote_verifies n height hashHex vr (v_PubkeyHex v))"

lemma tally_votes_cfg:
  assumes "\<forall>v \<in> set (fn_validators n). 0 \<le> v_Weight v" "weight_of (fn_validators n) (\<lambda>_. True) < 2 ^ 63"
    "distinct (map vr_PubkeyHex votes)"
  shows "tally_votes n h b ([], e) votes =
    (if \<exists>vr \<in> set votes. vr_BlockHash vr = b \<and> vr_ChainID vr = fn_ChainID n then TotalWeight (fn_validators n) else 0,
     weight_of (fn_validators n) (signed_by n h b votes))"
proof -
  let ?vs = "fn_validators n"
  let ?ok = "\<lambda>vr. vr_BlockHash vr = b \<and> vr_ChainID vr = fn_ChainID n"
  let ?P = "\<lambda>vr v. ?ok vr \<and> vote_verifies n h b vr (v_PubkeyHex v)"
  let ?sum = "\<lambda>votes. \<Sum>vr \<leftarrow> votes. \<Sum>v \<leftarrow> ?vs. if v_PubkeyHex v = vr_PubkeyHex vr \<and> ?P vr v then v_Weight v else 0"
  have nn: "0 \<le> ?sum votes" for votes using assms(1) by (intro sum_list_nonneg) (auto intro!: sum_list_nonneg)
  have fold: "foldl (\<lambda>ts vr. if vr_BlockHash vr \<noteq> b \<or> vr_ChainID vr \<noteq> fn_ChainID n then ts else tally_cfg n h b vr ts) (t, s) votes
      = (if \<exists>vr \<in> set votes. ?ok vr then TotalWeight ?vs else t, s + ?sum votes)"
    if "0 \<le> s" "s + ?sum votes < 2 ^ 63" for t s votes
    using that
  proof (induction votes arbitrary: t s)
    case (Cons vr votes)
    show ?case
    proof (cases "?ok vr")
      case True
      let ?w = "weight_of ?vs (\<lambda>v. v_PubkeyHex v = vr_PubkeyHex vr \<and> vote_verifies n h b vr (v_PubkeyHex v))"
      have w: "?w = (\<Sum>v \<leftarrow> ?vs. if v_PubkeyHex v = vr_PubkeyHex vr \<and> ?P vr v then v_Weight v else 0)"
        using True by (simp add: weight_of_def)
      have "0 \<le> ?w" using assms(1) by (rule weight_of_bounds)
      with Cons.prems nn [of votes] w tally_cfg_exact [OF assms(1) Cons.prems(1), of vr h b t] True
        Cons.IH [of "s + ?w" "TotalWeight ?vs"] show ?thesis by simp
    next
      case False
      then show ?thesis using Cons by auto
    qed
  qed simp
  have sum: "?sum votes = weight_of ?vs (signed_by n h b votes)"
    unfolding sum_votes_validators [OF assms(3)] weight_of_def signed_by_def by (simp add: conj_commute conj_left_commute)
  have "?sum votes < 2 ^ 63" unfolding sum using weight_of_bounds(2) [OF assms(1)] assms(2) by (rule le_less_trans)
  from fold [of 0 votes 0] this sum show ?thesis by (simp add: tally_votes_def Let_def cong: if_cong)
qed

section \<open>Conflicting finalizations\<close>

lemma ReachedThreshold_exact:
  assumes "0 \<le> s" "s \<le> tot" "0 \<le> num" "0 \<le> den" "tot * num < 2 ^ 63" "tot * den < 2 ^ 63"
    "ReachedThreshold s tot num den"
  shows "tot * num \<le> s * den"
proof -
  have "0 < tot" using assms(7) by (auto simp: ReachedThreshold_def split: if_splits)
  moreover have "s * den \<le> tot * den" using assms(2,4) by (rule mult_right_mono)
  ultimately have "i64 (s * den) = s * den" "i64 (tot * num) = tot * num"
    using assms by (auto intro!: i64_small)
  with assms(7) \<open>0 < tot\<close> show ?thesis by (simp add: ReachedThreshold_def)
qed

text \<open>A finalization has the weight of the threshold behind it.\<close>

lemma finalized_weight:
  assumes "\<forall>v \<in> set (fn_validators n). 0 \<le> v_Weight v"
    "weight_of (fn_validators n) (\<lambda>_. True) * fn_thresholdNum n < 2 ^ 63"
    "weight_of (fn_validators n) (\<lambda>_. True) * fn_thresholdDen n < 2 ^ 63" "0 < fn_thresholdNum n" "0 < fn_thresholdDen n"
    "ListValidators L (co_validator J) d 5000 = ([], e)"
    "ListVotesForHeight L (co_vote J) d height = (votes, None)" "distinct (map vr_PubkeyHex votes)"
    "snd (tryFinalizeHeight L J now n d height a) \<noteq> d"
  shows "weight_of (fn_validators n) (\<lambda>_. True) * fn_thresholdNum n
    \<le> weight_of (fn_validators n) (signed_by n height a votes) * fn_thresholdDen n"
proof -
  let ?T = "weight_of (fn_validators n) (\<lambda>_. True)" and ?s = "weight_of (fn_validators n) (signed_by n height a votes)"
  note b = weight_of_bounds [OF assms(1)]
  have "?T * 1 \<le> ?T * fn_thresholdNum n" using b(1) assms(4) by (intro mult_left_mono) auto
  then have T: "?T < 2 ^ 63" using assms(2) by linarith
  obtain tot where tot: "tally_votes n height a ([], e) votes = (tot, ?s)" "tot = TotalWeight (fn_validators n) \<or> tot = 0"
    using tally_votes_cfg [OF assms(1) T assms(8), of height a e] by simp
  have "tot \<noteq> 0 \<and> ReachedThreshold ?s tot (fn_thresholdNum n) (fn_thresholdDen n)"
    using assms(9) by (auto simp: tryFinalizeHeight_def assms(6,7) tot(1) split: if_splits)
  moreover from this tot(2) TotalWeight_exact [OF assms(1) T] have "tot = ?T" by auto
  ultimately show ?thesis
    using ReachedThreshold_exact [of ?s ?T "fn_thresholdNum n" "fn_thresholdDen n"] b assms(2-5) by simp
qed

text \<open>
  C3. Two conflicting finalizations expose double votes: when two nodes with the same configured
  validators and threshold finalize different blocks at the same height, on whatever votes each
  of them holds (at most one per key), the validators with a valid signature on both blocks weigh
  at least twice the threshold minus one: a third of the total for the threshold of two thirds.
\<close>

theorem conflicting_finalizations:
  assumes "\<forall>v \<in> set (fn_validators n). 0 \<le> v_Weight v"
    "weight_of (fn_validators n) (\<lambda>_. True) * fn_thresholdNum n < 2 ^ 63"
    "weight_of (fn_validators n) (\<lambda>_. True) * fn_thresholdDen n < 2 ^ 63" "0 < fn_thresholdNum n" "0 < fn_thresholdDen n"
    and "n' = n\<lparr>fn_localPubHex := pub', fn_localPrivHex := priv'\<rparr>"
    and "ListValidators L (co_validator J) d 5000 = ([], e)" "ListVotesForHeight L (co_vote J) d height = (votes, None)"
    "distinct (map vr_PubkeyHex votes)" "snd (tryFinalizeHeight L J now n d height a) \<noteq> d"
    and "ListValidators L' (co_validator J') d' 5000 = ([], e')" "ListVotesForHeight L' (co_vote J') d' height = (votes', None)"
    "distinct (map vr_PubkeyHex votes')" "snd (tryFinalizeHeight L' J' now' n' d' height a') \<noteq> d'"
  shows "weight_of (fn_validators n) (\<lambda>_. True) * (2 * fn_thresholdNum n - fn_thresholdDen n)
    \<le> weight_of (fn_validators n) (\<lambda>v. signed_by n height a votes v \<and> signed_by n height a' votes' v) * fn_thresholdDen n"
proof -
  let ?T = "weight_of (fn_validators n) (\<lambda>_. True)" and ?num = "fn_thresholdNum n" and ?den = "fn_thresholdDen n"
  let ?S = "weight_of (fn_validators n) (signed_by n height a votes)"
  let ?S' = "weight_of (fn_validators n) (signed_by n height a' votes')"
  let ?B = "weight_of (fn_validators n) (\<lambda>v. signed_by n height a votes v \<and> signed_by n height a' votes' v)"
  have same: "fn_validators n' = fn_validators n" "fn_thresholdNum n' = ?num" "fn_thresholdDen n' = ?den"
    "signed_by n' height a' votes' = signed_by n height a' votes'"
    using assms(6) by (auto simp: signed_by_def vote_verifies_def fun_eq_iff split: sum.splits)
  have "?T * ?num \<le> ?S * ?den" by (rule finalized_weight [OF assms(1-5,7-10)])
  moreover have "?T * ?num \<le> ?S' * ?den"
    using finalized_weight [of n' L' J' d' e' height votes' now' a'] assms(1-5,11-14) by (simp add: same)
  moreover have "(?S + ?S') * ?den \<le> (?T + ?B) * ?den"
    using weight_of_overlap [OF assms(1)] assms(5) by (intro mult_right_mono) auto
  ultimately show ?thesis by (simp add: algebra_simps)
qed

definition sample_vote :: "string \<Rightarrow> vote_record" where
  "sample_vote b = \<lparr>vr_Height = 20, vr_BlockHash = b, vr_ChainID = g_ChainID sample_genesis, vr_PubkeyHex = sample_key,
     vr_SigHex = replicate 128 (CHR ''0''), vr_TimeUnix = 0\<rparr>"

definition sample_codecs :: codecs where
  "sample_codecs = \<lparr>co_u64 = table_codec 0 [(''20'', 20)],
     co_vote = table_codec (sample_vote []) [(''va'', sample_vote ''aa''), (''vb'', sample_vote ''bb'')],
     co_validator = table_codec zero_validator [], co_checkpoint = table_codec zero_checkpoint []\<rparr>"

definition sample_fin_node :: "(unit, unit) finality_node" where
  "sample_fin_node = \<lparr>fn_env = sample_env, fn_clamp = (\<lambda>_. Some ()), fn_finalityEnabled = True, fn_checkpointInterval = 20,
     fn_thresholdNum = 2, fn_thresholdDen = 3, fn_validators = [\<lparr>v_Name = ''v'', v_PubkeyHex = sample_key, v_Weight = 3\<rparr>],
     fn_localPubHex = sample_key, fn_localPrivHex = []\<rparr>"

lemma sample_vote_verifies: "vote_verifies sample_fin_node h b (sample_vote b') sample_key"
  by (simp add: vote_verifies_def ParsePub_def VerifyVote_def sample_vote_def sample_hex sample_fin_node_def sample_env_def
      ed25519_Verify_def unit_edwards_def take_replicate)

lemma sample_votes:
  "ListVotesForHeight alist_db (co_vote sample_codecs) [(keyVote 20 sample_key, ''va'')] 20 = ([sample_vote ''aa''], None)"
  "ListVotesForHeight alist_db (co_vote sample_codecs) [(keyVote 20 sample_key, ''vb'')] 20 = ([sample_vote ''bb''], None)"
  "ListValidators alist_db (co_validator sample_codecs) [(keyVote 20 sample_key, v)] 5000 = ([], None)"
  by code_simp+

lemma PutFinalized_view:
  assumes "ldb_laws L V"
  shows "V (snd (PutFinalized L J d h b))
    = (V d)(keyFinalizedHeight \<mapsto> marshal_or_nil J h, keyFinalizedHash_meta \<mapsto> b)"
proof -
  obtain d1 where "ldb_Put L d keyFinalizedHeight (marshal_or_nil J h) = (None, d1)"
    "V d1 = (V d)(keyFinalizedHeight \<mapsto> marshal_or_nil J h)"
    using ldb_Put_ok [OF assms] ldb_Put_view [OF assms] by (metis prod.collapse)
  then show ?thesis by (simp add: PutFinalized_def ldb_Put_view [OF assms])
qed

lemma sample_finalizes:
  assumes "ListVotesForHeight alist_db (co_vote sample_codecs) [(keyVote 20 sample_key, v)] 20 = ([sample_vote b], None)"
  shows "snd (tryFinalizeHeight alist_db sample_codecs 0 sample_fin_node [(keyVote 20 sample_key, v)] 20 b)
    \<noteq> [(keyVote 20 sample_key, v)]" (is "?r \<noteq> ?d")
proof -
  have "tally_votes sample_fin_node 20 b ([], None) [sample_vote b] = (3, 3)"
    using sample_vote_verifies [of 20 b b]
    by (simp add: tally_votes_def tally_cfg_def sample_vote_def sample_fin_node_def sample_env_def TotalWeight_def i64_small)
  moreover have "ReachedThreshold 3 3 (fn_thresholdNum sample_fin_node) (fn_thresholdDen sample_fin_node)"
    by (simp add: ReachedThreshold_def sample_fin_node_def i64_small)
  ultimately have r: "?r = snd (PutCheckpoint alist_db (co_checkpoint sample_codecs)
      (snd (PutFinalized alist_db (co_u64 sample_codecs) ?d 20 b)) 20 \<lparr>cp_Height = 20, cp_HashHex = b, cp_TimeUnix = 0\<rparr>)"
    by (simp add: tryFinalizeHeight_def assms sample_votes(3))
  have "keyFinalizedHash_meta \<noteq> keyCheckpoint 20" by (simp add: keyFinalizedHash_meta_def keyCheckpoint_def)
  then have "map_of ?r keyFinalizedHash_meta = Some b"
    unfolding r PutCheckpoint_def put_json_def
    by (simp add: PutFinalized_view [OF alist_db_laws] ldb_Put_view [OF alist_db_laws] split: sum.split)
  moreover have "map_of ?d keyFinalizedHash_meta = None" by (simp add: keyFinalizedHash_meta_def keyVote_def)
  ultimately show ?thesis by auto
qed

theorem conflicting_finalizations_witness:
  "weight_of (fn_validators sample_fin_node) (\<lambda>_. True)
     \<le> weight_of (fn_validators sample_fin_node)
         (\<lambda>v. signed_by sample_fin_node 20 ''aa'' [sample_vote ''aa''] v \<and> signed_by sample_fin_node 20 ''bb'' [sample_vote ''bb''] v) * 3"
proof -
  have n: "sample_fin_node = sample_fin_node\<lparr>fn_localPubHex := sample_key, fn_localPrivHex := []\<rparr>"
    by (simp add: sample_fin_node_def)
  have num: "fn_thresholdNum sample_fin_node = 2" "fn_thresholdDen sample_fin_node = 3" by (simp_all add: sample_fin_node_def)
  have w: "weight_of (fn_validators sample_fin_node) (\<lambda>_. True) = 3" by (simp add: weight_of_def sample_fin_node_def)
  have nn: "\<forall>v \<in> set (fn_validators sample_fin_node). 0 \<le> v_Weight v" by (simp add: sample_fin_node_def)
  show ?thesis
    using conflicting_finalizations [OF nn _ _ _ _ n sample_votes(3,1) _ sample_finalizes [OF sample_votes(1)]
        sample_votes(3,2) _ sample_finalizes [OF sample_votes(2)]]
    by (simp add: w num)
qed

section \<open>The tally over the registry\<close>

definition reg_weight :: "validator_rec list \<Rightarrow> (validator_rec \<Rightarrow> bool) \<Rightarrow> int" where
  "reg_weight vs P = (\<Sum>v \<leftarrow> vs. if \<not> va_Slashed v \<and> P v then va_Weight v else 0)"

lemma reg_weight_bounds:
  assumes "\<forall>v \<in> set vs. 0 \<le> va_Weight v"
  shows "0 \<le> reg_weight vs P" "reg_weight vs P \<le> reg_weight vs (\<lambda>_. True)"
  unfolding reg_weight_def using assms by (auto intro!: sum_list_nonneg sum_list_mono_int)

lemma tally_reg_exact:
  fixes n :: "('p, 's) finality_node"
  defines "P \<equiv> \<lambda>h b vr v. va_PubkeyHex v = vr_PubkeyHex vr \<and> vote_verifies n h b vr (va_PubkeyHex v)"
  assumes "\<forall>v \<in> set vs. 0 \<le> va_Weight v" "0 \<le> t" "t + reg_weight vs (\<lambda>_. True) < 2 ^ 63"
    "0 \<le> s" "s + reg_weight vs (P h b vr) < 2 ^ 63"
  shows "tally_reg n h b vs vr (t, s) = (t + reg_weight vs (\<lambda>_. True), s + reg_weight vs (P h b vr))"
  using assms(2-)
proof (induction vs arbitrary: t s)
  case (Cons v vs)
  let ?w = "va_Weight v" and ?c = "\<not> va_Slashed v \<and> P h b vr v"
  have step: "tally_reg n h b (v # vs) vr (t, s)
      = tally_reg n h b vs vr (if va_Slashed v then t else i64 (t + ?w), if ?c then i64 (s + ?w) else s)"
    by (simp add: tally_reg_def P_def Let_def)
  have rw: "reg_weight (v # vs) Q = (if \<not> va_Slashed v \<and> Q v then ?w else 0) + reg_weight vs Q" for Q
    by (simp add: reg_weight_def)
  have nn: "0 \<le> reg_weight vs (\<lambda>_. True)" "0 \<le> reg_weight vs (P h b vr)" "0 \<le> ?w"
    using Cons.prems(1) by (auto intro!: reg_weight_bounds)
  with Cons.prems have "\<not> va_Slashed v \<Longrightarrow> i64 (t + ?w) = t + ?w" "?c \<Longrightarrow> i64 (s + ?w) = s + ?w"
    by (auto simp: rw intro!: i64_small)
  with Cons.IH [of "if va_Slashed v then t else t + ?w" "if ?c then s + ?w else s"] Cons.prems nn show ?case
    unfolding step rw by (simp split: if_splits)
qed (simp add: tally_reg_def reg_weight_def)

definition matching :: "('p, 's) finality_node \<Rightarrow> string \<Rightarrow> vote_record list \<Rightarrow> vote_record list" where
  "matching n hashHex votes = filter (\<lambda>vr. vr_BlockHash vr = hashHex \<and> vr_ChainID vr = fn_ChainID n) votes"

lemma tally_votes_reg:
  assumes "\<forall>v \<in> set vs. 0 \<le> va_Weight v" "vs \<noteq> []" "distinct (map vr_PubkeyHex votes)"
    "int (length (matching n b votes)) * reg_weight vs (\<lambda>_. True) < 2 ^ 63" "reg_weight vs (\<lambda>_. True) < 2 ^ 63"
  shows "\<exists>s. tally_votes n h b (vs, None) votes = (int (length (matching n b votes)) * reg_weight vs (\<lambda>_. True), s) \<and>
    0 \<le> s \<and> s \<le> reg_weight vs (\<lambda>_. True)"
proof -
  let ?R = "reg_weight vs (\<lambda>_. True)"
  let ?P = "\<lambda>vr v. va_PubkeyHex v = vr_PubkeyHex vr \<and> vote_verifies n h b vr (va_PubkeyHex v)"
  let ?sum = "\<lambda>votes. \<Sum>vr \<leftarrow> votes. reg_weight vs (?P vr)"
  have nn: "0 \<le> ?sum votes" for votes
    using reg_weight_bounds(1) [OF assms(1)] by (intro sum_list_nonneg) auto
  have fold: "foldl (\<lambda>ts vr. if vr_BlockHash vr \<noteq> b \<or> vr_ChainID vr \<noteq> fn_ChainID n then ts else tally_reg n h b vs vr ts) (t, s) votes
      = (t + int (length (matching n b votes)) * ?R, s + ?sum (matching n b votes))"
    if "0 \<le> t" "0 \<le> s" "t + int (length (matching n b votes)) * ?R < 2 ^ 63" "s + ?sum (matching n b votes) < 2 ^ 63" for t s votes
    using that
  proof (induction votes arbitrary: t s)
    case (Cons vr votes)
    show ?case
    proof (cases "vr_BlockHash vr = b \<and> vr_ChainID vr = fn_ChainID n")
      case True
      then have m: "matching n b (vr # votes) = vr # matching n b votes" by (simp add: matching_def)
      have pos: "0 \<le> int (length (matching n b votes)) * ?R" "0 \<le> reg_weight vs (?P vr)" "0 \<le> ?R"
        using reg_weight_bounds(1) [OF assms(1)] by auto
      have e: "int (length (matching n b (vr # votes))) * ?R = ?R + int (length (matching n b votes)) * ?R"
        "?sum (matching n b (vr # votes)) = reg_weight vs (?P vr) + ?sum (matching n b votes)"
        by (simp_all add: m algebra_simps)
      note pr = Cons.prems(3) [unfolded e] Cons.prems(4) [unfolded e]
      have lt: "t + ?R < 2 ^ 63" "s + reg_weight vs (?P vr) < 2 ^ 63"
        using pr pos nn [of "matching n b votes"] by linarith+
      have "t + ?R + int (length (matching n b votes)) * ?R < 2 ^ 63"
        "s + reg_weight vs (?P vr) + ?sum (matching n b votes) < 2 ^ 63"
        using pr by linarith+
      with Cons.IH [of "t + ?R" "s + reg_weight vs (?P vr)"] Cons.prems(1,2) pos
        tally_reg_exact [OF assms(1) Cons.prems(1) lt(1) Cons.prems(2) lt(2)] True
      show ?thesis by (simp add: m algebra_simps)
    next
      case False
      then have "matching n b (vr # votes) = matching n b votes" by (simp add: matching_def)
      with False Cons show ?thesis by auto
    qed
  qed (simp add: matching_def)
  let ?m = "matching n b votes"
  have "distinct (map vr_PubkeyHex ?m)" using assms(3) by (simp add: matching_def distinct_map_filter)
  then have "?sum ?m = reg_weight vs (\<lambda>v. \<exists>vr \<in> set ?m. ?P vr v)"
    using sum_votes_validators [of vr_PubkeyHex ?m va_PubkeyHex
        "\<lambda>vr v. \<not> va_Slashed v \<and> vote_verifies n h b vr (va_PubkeyHex v)" va_Weight vs]
    by (simp add: reg_weight_def conj_commute conj_left_commute)
  then have le: "?sum ?m \<le> ?R" using reg_weight_bounds(2) [OF assms(1)] by simp
  with fold [of 0 0 votes] assms(2,4,5) nn [of ?m] show ?thesis by (simp add: tally_votes_def Let_def cong: if_cong)
qed

text \<open>
  C29. With a validator registry no second vote helps: the total of the tally is counted once per
  matching vote, so that with two or more votes for a block, whatever their weight, a threshold
  above one half is out of reach and the height is not finalized.
\<close>

theorem registry_quorum_unreachable:
  assumes "ListValidators L (co_validator J) d 5000 = (vs, None)" "vs \<noteq> []" "\<forall>v \<in> set vs. 0 \<le> va_Weight v"
    "ListVotesForHeight L (co_vote J) d height = (votes, None)" "distinct (map vr_PubkeyHex votes)"
    "2 \<le> length (matching n hashHex votes)" "0 < fn_thresholdDen n" "fn_thresholdDen n < 2 * fn_thresholdNum n"
    "int (length (matching n hashHex votes)) * reg_weight vs (\<lambda>_. True) * fn_thresholdNum n < 2 ^ 63"
    "reg_weight vs (\<lambda>_. True) * fn_thresholdDen n < 2 ^ 63"
  shows "tryFinalizeHeight L J now n d height hashHex = (None, d)"
proof -
  let ?R = "reg_weight vs (\<lambda>_. True)" and ?m = "int (length (matching n hashHex votes))"
  let ?num = "fn_thresholdNum n" and ?den = "fn_thresholdDen n"
  have R: "0 \<le> ?R" by (rule reg_weight_bounds [OF assms(3)])
  have num: "1 \<le> ?num" "1 \<le> ?den" using assms(7,8) by auto
  have "?R * 1 \<le> ?R * ?den" by (rule mult_left_mono) (use R num in auto)
  moreover have "?m * ?R * 1 \<le> ?m * ?R * ?num" by (rule mult_left_mono) (use R num in auto)
  ultimately have lt: "?R < 2 ^ 63" "?m * ?R < 2 ^ 63" using assms(9,10) by linarith+
  from tally_votes_reg [OF assms(3,2,5) lt(2,1), of height] obtain s where
    s: "tally_votes n height hashHex (vs, None) votes = (?m * ?R, s)" "0 \<le> s" "s \<le> ?R" by blast
  have "\<not> ReachedThreshold s (?m * ?R) ?num ?den" if "?m * ?R \<noteq> 0"
  proof
    assume reached: "ReachedThreshold s (?m * ?R) ?num ?den"
    have "0 < ?R" using that R by auto
    have sd: "s * ?den \<le> ?R * ?den" using s(3) num by (intro mult_right_mono) auto
    have "s * ?den < 2 ^ 63" using sd assms(10) by (rule le_less_trans)
    then have "i64 (s * ?den) = s * ?den" "i64 (?m * ?R * ?num) = ?m * ?R * ?num"
      using s(2) R num assms(9) by (auto intro!: i64_small)
    with reached have "?m * ?R * ?num \<le> ?R * ?den" using sd by (simp add: ReachedThreshold_def split: if_splits)
    moreover have "2 * (?R * ?num) \<le> ?m * (?R * ?num)" using assms(6) R num by (intro mult_right_mono) auto
    moreover have "?R * ?den < ?R * (2 * ?num)" using \<open>0 < ?R\<close> assms(8) by simp
    ultimately show False by (simp add: algebra_simps)
  qed
  then show ?thesis by (simp add: tryFinalizeHeight_def assms(1,4) s(1))
qed

definition sample_registry_codecs :: codecs where
  "sample_registry_codecs = sample_codecs\<lparr>
     co_vote := table_codec (sample_vote []) [(''1'', (sample_vote ''aa'')\<lparr>vr_PubkeyHex := ''k1''\<rparr>), (''2'', (sample_vote ''aa'')\<lparr>vr_PubkeyHex := ''k2''\<rparr>)],
     co_validator := table_codec zero_validator
       [(''1'', zero_validator\<lparr>va_PubkeyHex := ''k1'', va_Weight := 1\<rparr>), (''2'', zero_validator\<lparr>va_PubkeyHex := ''k2'', va_Weight := 1\<rparr>)]\<rparr>"

definition sample_registry :: "(bytes \<times> bytes) list" where
  "sample_registry = [(keyVote 20 ''k1'', ''1''), (keyVote 20 ''k2'', ''2''), (keyValidator ''k1'', ''1''), (keyValidator ''k2'', ''2'')]"

theorem registry_quorum_unreachable_witness:
  "tryFinalizeHeight alist_db sample_registry_codecs 0 sample_fin_node sample_registry 20 ''aa'' = (None, sample_registry)"
proof -
  let ?vs = "[zero_validator\<lparr>va_PubkeyHex := ''k1'', va_Weight := 1\<rparr>, zero_validator\<lparr>va_PubkeyHex := ''k2'', va_Weight := 1\<rparr>]"
  let ?votes = "[(sample_vote ''aa'')\<lparr>vr_PubkeyHex := ''k1''\<rparr>, (sample_vote ''aa'')\<lparr>vr_PubkeyHex := ''k2''\<rparr>]"
  have lists: "ListValidators alist_db (co_validator sample_registry_codecs) sample_registry 5000 = (?vs, None)"
    "ListVotesForHeight alist_db (co_vote sample_registry_codecs) sample_registry 20 = (?votes, None)"
    by code_simp+
  have m: "matching sample_fin_node ''aa'' ?votes = ?votes"
    by (simp add: matching_def sample_vote_def sample_fin_node_def sample_env_def)
  have num: "fn_thresholdNum sample_fin_node = 2" "fn_thresholdDen sample_fin_node = 3" by (simp_all add: sample_fin_node_def)
  show ?thesis
    by (rule registry_quorum_unreachable [OF lists(1) _ _ lists(2)])
      (simp_all add: m reg_weight_def zero_validator_def num)
qed

section \<open>The votes a node owes\<close>

text \<open>A loop with a step that keeps below the top of \<^verbatim>\<open>uint64\<close> ends, with what its body maintains.\<close>

lemma for_step_rule:
  assumes "step \<noteq> 0" "unat hi + unat step < 2 ^ 64" "I h s"
    and body: "\<And>h s. I h s \<Longrightarrow> h \<le> hi \<Longrightarrow> \<exists>s'. body h s = Some s' \<and> I (h + step) s'"
  shows "\<exists>h' s'. for_step body h hi step s = Some s' \<and> I h' s' \<and> hi < h'"
  using assms(3)
proof (induction "2 ^ 64 - unat h" arbitrary: h s rule: less_induct)
  case less
  show ?case
  proof (cases "h \<le> hi")
    case True
    with body less.prems obtain s' where s': "body h s = Some s'" "I (h + step) s'" by blast
    have "unat h + unat step < 2 ^ 64" using True assms(2) by (simp add: word_le_nat_alt)
    then have "unat (h + step) = unat h + unat step" by (simp add: unat_word_ariths)
    moreover have "0 < unat step" using assms(1) by (simp add: unat_gt_0)
    moreover have "unat h < 2 ^ 64" using unsigned_less [of h, where ?'a = nat] by simp
    ultimately have "2 ^ 64 - unat (h + step) < 2 ^ 64 - unat h" by linarith
    from less.hyps [OF this s'(2)] show ?thesis using True s'(1) by (subst for_step.simps) simp
  next
    case False
    then show ?thesis using less.prems by (subst for_step.simps) auto
  qed
qed

definition finality_key :: "bytes \<Rightarrow> bool" where
  "finality_key k \<longleftrightarrow> prefix ''finality:'' k \<or> k = keyFinalizedHeight \<or> k = keyFinalizedHash_meta"

text \<open>A store that grew in finality records only.\<close>

definition grew :: "(bytes \<rightharpoonup> bytes) \<Rightarrow> (bytes \<rightharpoonup> bytes) \<Rightarrow> bool" where
  "grew m m' \<longleftrightarrow> dom m \<subseteq> dom m' \<and> (\<forall>k. \<not> finality_key k \<longrightarrow> m' k = m k)"

lemma grew_refl [simp]: "grew m m" by (simp add: grew_def)

lemma grew_trans: "grew m m' \<Longrightarrow> grew m' m'' \<Longrightarrow> grew m m''" unfolding grew_def by (metis order_trans)

lemma grew_upd: "grew m m' \<Longrightarrow> finality_key k \<Longrightarrow> grew m (m'(k \<mapsto> x))" by (auto simp: grew_def)

lemma finality_keys [simp]:
  "finality_key (keyVote h p)" "finality_key (keyCheckpoint h)" "finality_key keyFinalizedHeight"
  "finality_key keyFinalizedHash_meta" "\<not> finality_key (keyHashByHeight h)" "\<not> finality_key (keyBlockByHash b)"
  by (simp_all add: finality_key_def keyVote_def keyCheckpoint_def keyHashByHeight_def keyBlockByHash_def
      keyFinalizedHeight_def keyFinalizedHash_meta_def)

lemma put_json_grew:
  assumes "ldb_laws L V" "grew m (V d)" "finality_key k"
  shows "grew m (V (snd (put_json L J d k x)))"
  using assms by (auto simp: put_json_def ldb_Put_view [OF assms(1)] intro!: grew_upd split: sum.split)

lemma tryFinalizeHeight_grew:
  assumes "ldb_laws L V"
  shows "grew (V d) (V (snd (tryFinalizeHeight L J now n d h b)))"
  by (auto simp: tryFinalizeHeight_def PutCheckpoint_def PutFinalized_view [OF assms] Let_def
      intro!: put_json_grew [OF assms] grew_upd split: prod.split option.split)

lemma GetBlockByHeight_grew:
  assumes "ldb_laws L V" "grew (V d) (V d')"
  shows "GetBlockByHeight L J d' h = GetBlockByHeight L J d h"
proof -
  have "db_lookup L d' k = db_lookup L d k" if "\<not> finality_key k" for k
    using assms that by (simp add: db_lookup_eq grew_def)
  then have "GetHashByHeight L d' h = GetHashByHeight L d h" "GetBlockByHash L J d' b = GetBlockByHash L J d b" for b
    by (simp_all add: GetHashByHeight_def GetBlockByHash_def get_string_def get_json_def)
  then show ?thesis by (simp add: GetBlockByHeight_def split: prod.split)
qed

lemma HasVote_eq:
  assumes "ldb_laws L V"
  shows "HasVote L d h p = (V d (keyVote h p) \<noteq> None, None)"
  by (auto simp: HasVote_def has_key_def db_lookup_eq [OF assms] split: option.split)

text \<open>Signing works for a key that parses: the scalars of the group package are total on their sizes.\<close>

definition can_sign :: "('p, 's) finality_node \<Rightarrow> bool" where
  "can_sign n \<longleftrightarrow> (\<exists>priv. ParsePriv (fn_localPrivHex n) = Inr priv) \<and>
     (\<forall>b. length b = 64 \<longrightarrow> sc_SetUniformBytes (fn_edwards n) b \<noteq> None) \<and>
     (\<forall>b. length b = 32 \<longrightarrow> fn_clamp n b \<noteq> None)"

lemma SignVote_total:
  assumes "can_sign n" "ParsePriv (fn_localPrivHex n) = Inr priv"
  shows "\<exists>sigHex. SignVote (fn_edwards n) (fn_clamp n) priv c h b = Some sigHex"
proof -
  have "length priv = 64" using assms(2) by (auto simp: ParsePriv_def split: sum.splits if_splits)
  moreover obtain s where "fn_clamp n (take 32 (Sum512 (take 32 priv))) = Some s"
    using assms(1) length_Sum512 [of "take 32 priv"] unfolding can_sign_def by fastforce
  moreover have "\<forall>m. \<exists>x. sc_SetUniformBytes (fn_edwards n) (Sum512 m) = Some x"
    using assms(1) length_Sum512 unfolding can_sign_def by blast
  then obtain f where "\<And>m. sc_SetUniformBytes (fn_edwards n) (Sum512 m) = Some (f m)" by metis
  ultimately show ?thesis by (simp add: SignVote_def ed25519_Sign_def Let_def)
qed

lemma ensureVoteForHeight_ok:
  assumes "ldb_laws L V" "can_sign n" "\<forall>v. \<exists>b. jc_Marshal (co_vote J) v = Inr b"
  shows "\<exists>e d' out'. ensureVoteForHeight L J JB now n h (d, out) = Some (e, d', out') \<and> grew (V d) (V d') \<and>
    (\<forall>b hash. GetBlockByHeight L JB d h = (b, True, hash, None) \<longrightarrow> V d' (keyVote h (fn_localPubHex n)) \<noteq> None)"
proof (cases "V d (keyVote h (fn_localPubHex n)) \<noteq> None")
  case True
  then show ?thesis by (simp add: ensureVoteForHeight_def HasVote_eq [OF assms(1)])
next
  case no: False
  obtain b ok hash e where blk: "GetBlockByHeight L JB d h = (b, ok, hash, e)" by (metis prod_cases4)
  show ?thesis
  proof (cases "e = None \<and> ok")
    case True
    obtain priv where priv: "ParsePriv (fn_localPrivHex n) = Inr priv" using assms(2) by (auto simp: can_sign_def)
    obtain sg where sg: "SignVote (fn_edwards n) (fn_clamp n) priv (fn_ChainID n) h hash = Some sg"
      using SignVote_total [OF assms(2) priv] by blast
    let ?vr = "local_vote n now h hash sg"
    let ?d1 = "snd (PutVote L (co_vote J) d ?vr)"
    obtain mb where "jc_Marshal (co_vote J) ?vr = Inr mb" using assms(3) by blast
    then have v1: "V ?d1 = (V d)(keyVote h (fn_localPubHex n) \<mapsto> mb)"
      by (simp add: PutVote_def put_json_def local_vote_def ldb_Put_view [OF assms(1)])
    obtain out' where st: "storeAndBroadcastVote L J now n h hash (d, out) = Some (None, ?d1, out')"
      by (simp add: storeAndBroadcastVote_def priv sg Let_def)
    let ?d2 = "snd (tryFinalizeHeight L J now n ?d1 h hash)"
    have g: "grew (V ?d1) (V ?d2)" by (rule tryFinalizeHeight_grew [OF assms(1)])
    have "V ?d2 (keyVote h (fn_localPubHex n)) \<noteq> None" using g v1 unfolding grew_def by (force simp: dom_def)
    moreover have "grew (V d) (V ?d2)" by (rule grew_trans [OF _ g]) (simp add: v1 grew_upd)
    moreover have "ensureVoteForHeight L J JB now n h (d, out) = Some (None, ?d2, out')"
      using no True by (simp add: ensureVoteForHeight_def HasVote_eq [OF assms(1)] blk st)
    ultimately show ?thesis by blast
  next
    case False
    then show ?thesis using no by (auto simp: ensureVoteForHeight_def HasVote_eq [OF assms(1)] blk)
  qed
qed

text \<open>
  The pass over the checkpoints ends, and afterwards the node has a vote of its own for every
  checkpoint above the finalized one at which it has a block.
\<close>

lemma ensureVotesUpToTip_votes:
  assumes "ldb_laws L V" "can_sign n" "\<forall>v. \<exists>b. jc_Marshal (co_vote J) v = Inr b"
    "GetTip L (co_u64 J) d = (tipH, tip, True, None)" "GetFinalized L (co_u64 J) d = (finH, fin, finOK, e)"
    "ci = fn_checkpointInterval n" "ci \<noteq> 0" "unat tipH + unat ci < 2 ^ 64" "start = (if finOK then finH else 0)" "start \<le> tipH"
  shows "\<exists>d' out'. ensureVotesUpToTip L J JB now n (d, out) = Some (None, d', out') \<and>
    (\<forall>k > 0. \<forall>b hash. unat start + k * unat ci \<le> unat (tipH div ci * ci) \<longrightarrow>
       GetBlockByHeight L JB d (start + of_nat k * ci) = (b, True, hash, None) \<longrightarrow>
       HasVote L d' (start + of_nat k * ci) (fn_localPubHex n) = (True, None))"
proof -
  let ?hi = "tipH div ci * ci" and ?pub = "fn_localPubHex n"
  let ?body = "\<lambda>h s. do { (_, s) \<leftarrow> ensureVoteForHeight L J JB now n h s; Some s }"
  let ?has = "\<lambda>k d'. \<forall>b hash. GetBlockByHeight L JB d (start + of_nat k * ci) = (b, True, hash, None) \<longrightarrow>
      V d' (keyVote (start + of_nat k * ci) ?pub) \<noteq> None"
  define I where "I h s \<longleftrightarrow> grew (V d) (V (fst s)) \<and>
      (\<exists>K > 0. h = start + of_nat K * ci \<and> (\<forall>k. 0 < k \<and> k < K \<longrightarrow> ?has k (fst s)))" for h and s :: "'a \<times> outbox"
  have hi: "unat ?hi \<le> unat tipH"
    by (metis div_times_less_eq_dividend word_le_nat_alt word_div_mult_le unat_div)
  have "\<exists>h' s'. for_step ?body (start + ci) ?hi ci (d, out) = Some s' \<and> I h' s' \<and> ?hi < h'"
  proof (rule for_step_rule [OF assms(7)])
    show "unat ?hi + unat ci < 2 ^ 64" using hi assms(8) by linarith
    show "I (start + ci) (d, out)" unfolding I_def by (auto intro!: exI [of _ "1 :: nat"])
    fix h and s :: "'a \<times> outbox"
    assume I: "I h s"
    obtain d1 out1 where s: "s = (d1, out1)" by fastforce
    from I obtain K where g: "grew (V d) (V d1)" and K: "0 < K" "h = start + of_nat K * ci"
      "\<forall>k. 0 < k \<and> k < K \<longrightarrow> ?has k d1" by (auto simp: I_def s)
    obtain e d2 out2 where d2: "ensureVoteForHeight L J JB now n h (d1, out1) = Some (e, d2, out2)" "grew (V d1) (V d2)"
      "\<forall>b hash. GetBlockByHeight L JB d1 h = (b, True, hash, None) \<longrightarrow> V d2 (keyVote h ?pub) \<noteq> None"
      using ensureVoteForHeight_ok [OF assms(1-3)] by blast
    have more: "V d1 k \<noteq> None \<Longrightarrow> V d2 k \<noteq> None" for k using d2(2) by (auto simp: grew_def)
    have "?has k d2" if "0 < k" "k < Suc K" for k
      using that K d2(3) more GetBlockByHeight_grew [OF assms(1) g] by (cases "k = K") auto
    then have "I (h + ci) (d2, out2)"
      unfolding I_def using grew_trans [OF g d2(2)] K(1,2) by (auto intro!: exI [of _ "Suc K"] simp: algebra_simps)
    then show "\<exists>s'. ?body h s = Some s' \<and> I (h + ci) s'" using d2(1) s by simp
  qed
  then obtain h' d' out' where r: "for_step ?body (start + ci) ?hi ci (d, out) = Some (d', out')" "I h' (d', out')" "?hi < h'"
    by fastforce
  from r(2) obtain K where K: "0 < K" "h' = start + of_nat K * ci" "\<forall>k. 0 < k \<and> k < K \<longrightarrow> ?has k d'" by (auto simp: I_def)
  have lt: "k < K" if "unat start + k * unat ci \<le> unat ?hi" for k
  proof (rule ccontr)
    assume "\<not> k < K"
    then have "K * unat ci \<le> k * unat ci" by simp
    then have le: "unat start + K * unat ci \<le> unat ?hi" using that by linarith
    moreover have "h' = of_nat (unat start + K * unat ci)" using K(2) by simp
    then have "unat h' \<le> unat start + K * unat ci"
      by (simp only: unsigned_of_nat of_nat_id take_bit_nat_less_eq_self)
    ultimately have "unat h' \<le> unat ?hi" by linarith
    with r(3) show False by (simp add: word_less_nat_alt)
  qed
  have "ensureVotesUpToTip L J JB now n (d, out) = Some (None, d', out')"
    using assms(4-7,9) r(1) by (simp add: ensureVotesUpToTip_def go_div_u64_def Let_def)
  with K(3) lt show ?thesis by (auto simp: HasVote_eq [OF assms(1)])
qed

text \<open>
  C30. Nodes that are not validators sign checkpoints. \<^verbatim>\<open>README.md\<close> says that a node signs
  checkpoints on its own only if its key is in the validator set (1.0.7), and not as an observer
  (1.0.36); \<^verbatim>\<open>processCheckpointVotes\<close> does nothing on such nodes. The pass \<^verbatim>\<open>ensureVotesUpToTip\<close> has
  no such condition: also on an observer, a read-only node and one whose key is not in the set, with a tip, a key that parses and a checkpoint interval that keeps below the top of
  \<^verbatim>\<open>uint64\<close>, the pass ends and leaves a vote of the node for every checkpoint height above the
  finalized one, up to the last one at or below the tip, at which it has a block.
\<close>

theorem every_node_votes:
  assumes "ldb_laws L V" "can_sign n" "\<forall>v. \<exists>b. jc_Marshal (co_vote J) v = Inr b"
    "nr_Role (cfg_NodeRole (ne_cfg (fn_env n))) = ''observer'' \<or> isReadOnly (ne_cfg (fn_env n)) \<or> \<not> isLocalValidator n"
    "GetTip L (co_u64 J) d = (tipH, tip, True, None)" "GetFinalized L (co_u64 J) d = (finH, fin, finOK, e)"
    "ci = fn_checkpointInterval n" "ci \<noteq> 0" "unat tipH + unat ci < 2 ^ 64" "start = (if finOK then finH else 0)" "start \<le> tipH"
  shows "(\<forall>cp. processCheckpointVotes L J now n d cp = Some (None, d)) \<and>
    (\<exists>d' out'. ensureVotesUpToTip L J JB now n (d, out) = Some (None, d', out') \<and>
      (\<forall>k > 0. \<forall>b hash. unat start + k * unat ci \<le> unat (tipH div ci * ci) \<longrightarrow>
         GetBlockByHeight L JB d (start + of_nat k * ci) = (b, True, hash, None) \<longrightarrow>
         HasVote L d' (start + of_nat k * ci) (fn_localPubHex n) = (True, None)))"
  using ensureVotesUpToTip_votes [OF assms(1-3,5-11), of JB now out] assms(4) by (auto simp: processCheckpointVotes_def)

definition sample_chain :: "(bytes \<times> bytes) list" where
  "sample_chain = [(keyTipHeight, ''tip''), (keyTipBlockID, ''bb''), (keyHashByHeight 20, ''aa''), (keyBlockByHash ''aa'', ''blk'')]"

definition sample_vote_codecs :: codecs where
  "sample_vote_codecs = \<lparr>co_u64 = table_codec 0 [(''tip'', 25)], co_vote = \<lparr>jc_Marshal = (\<lambda>_. Inr ''v''), jc_Unmarshal = (\<lambda>_. (sample_vote [], None))\<rparr>,
     co_validator = table_codec zero_validator [], co_checkpoint = table_codec zero_checkpoint []\<rparr>"

theorem every_node_votes_witness:
  "\<exists>d' out'. ensureVotesUpToTip alist_db sample_vote_codecs (table_codec zero_block [(''blk'', zero_block)]) 0
       (sample_fin_node\<lparr>fn_localPrivHex := replicate 128 (CHR ''0''), fn_validators := []\<rparr>) (sample_chain, []) = Some (None, d', out') \<and>
     HasVote alist_db d' 20 sample_key = (True, None) \<and>
     processCheckpointVotes alist_db sample_vote_codecs 0 (sample_fin_node\<lparr>fn_localPrivHex := replicate 128 (CHR ''0''), fn_validators := []\<rparr>)
       sample_chain \<lparr>cp_Height = 20, cp_HashHex = ''aa'', cp_TimeUnix = 0\<rparr> = Some (None, sample_chain)"
proof -
  let ?n = "sample_fin_node\<lparr>fn_localPrivHex := replicate 128 (CHR ''0''), fn_validators := []\<rparr>"
  let ?JB = "table_codec zero_block [(''blk'', zero_block)]"
  have tip: "GetTip alist_db (co_u64 sample_vote_codecs) sample_chain = (25, ''bb'', True, None)"
    "GetFinalized alist_db (co_u64 sample_vote_codecs) sample_chain = (0, [], False, None)"
    "GetBlockByHeight alist_db ?JB sample_chain 20 = (zero_block, True, ''aa'', None)"
    by code_simp+
  have sign: "can_sign ?n"
    by (simp add: can_sign_def ParsePriv_def sample_hex sample_fin_node_def sample_env_def unit_edwards_def)
  have m: "\<forall>v. \<exists>b. jc_Marshal (co_vote sample_vote_codecs) v = Inr b" by (simp add: sample_vote_codecs_def)
  have ci: "fn_checkpointInterval ?n = 20" "fn_localPubHex ?n = sample_key" by (simp_all add: sample_fin_node_def)
  have start: "(0 :: u64) = (if False then 0 else 0)" by simp
  have none: "nr_Role (cfg_NodeRole (ne_cfg (fn_env ?n))) = ''observer'' \<or> isReadOnly (ne_cfg (fn_env ?n)) \<or> \<not> isLocalValidator ?n"
    by (simp add: isLocalValidator_def)
  obtain d' out' where "ensureVotesUpToTip alist_db sample_vote_codecs ?JB 0 ?n (sample_chain, []) = Some (None, d', out')"
    and all: "\<forall>k > 0. \<forall>b hash. unat (0 :: u64) + k * unat (20 :: u64) \<le> unat ((25 :: u64) div 20 * 20) \<longrightarrow>
       GetBlockByHeight alist_db ?JB sample_chain (0 + of_nat k * 20) = (b, True, hash, None) \<longrightarrow>
       HasVote alist_db d' (0 + of_nat k * 20) (fn_localPubHex ?n) = (True, None)"
    and "\<forall>cp. processCheckpointVotes alist_db sample_vote_codecs 0 ?n sample_chain cp = Some (None, sample_chain)"
    using every_node_votes [OF alist_db_laws sign m none tip(1,2) ci(1) [symmetric] _ _ start, of 0 ?JB "[]"] by auto
  with spec [OF all, of 1] tip(3) ci(2) show ?thesis by simp
qed

end
