(* ===== verification/ForkChoice.thy ===== *)
theory ForkChoice
  imports Replay Quorum
begin

text \<open>
  The choice of the main chain: \<^verbatim>\<open>trySwitchMainChain\<close> (\<^verbatim>\<open>core/node/forkchoice.go\<close>)
  and the block locator (\<^verbatim>\<open>locator.go\<close>). A switch is shown to return, to succeed exactly on a
  branch that leads to the finalized block, and to change the index along that branch only.
\<close>

section \<open>\<^verbatim>\<open>trySwitchMainChain\<close>\<close>

text \<open>The walk from the new tip down to the finalized height; the height falls, so it ends.\<close>

function candidate_walk ::
  "'d leveldb \<Rightarrow> block codec \<Rightarrow> 'd \<Rightarrow> u64 \<Rightarrow> string \<Rightarrow> u64 \<Rightarrow> string list \<Rightarrow> error + string list" where
  "candidate_walk L J d finH h curHeight path =
     (let path = path @ [h]
      in if curHeight = finH then Inr path
         else (case GetBlockByHash L J d h of
                 (b, okb, e) \<Rightarrow>
                   if e \<noteq> None \<or> \<not> okb then Inl (Err ''missing block in candidate chain'')
                   else if curHeight = 0 then Inr path
                   else if curHeight - 1 < finH then Inl (Err ''candidate does not reach finalized height'')
                   else candidate_walk L J d finH (Hash_String (bh_PrevHash (b_Header b))) (curHeight - 1) path))"
  by pat_completeness auto

termination
  by (relation "measure (\<lambda>(L, J, d, finH, h, curHeight, path). unat curHeight)") (auto simp: unat_minus_one unat_gt_0)

declare candidate_walk.simps [simp del]

fun index_loop :: "'d leveldb \<Rightarrow> u64 \<Rightarrow> string list \<Rightarrow> 'd \<Rightarrow> 'd" where
  "index_loop L height [] d = d"
| "index_loop L height (h # hs) d = index_loop L (height + 1) hs (snd (PutHashByHeightOverwrite L d height h))"

text \<open>The finalized block, or the genesis block when none is recorded.\<close>

definition anchor :: "'d leveldb \<Rightarrow> node_codecs \<Rightarrow> 'd \<Rightarrow> error + (u64 \<times> string)" where
  "anchor L J d =
     (case GetFinalized L (nc_u64 J) d of
        (finH, finHash, ok, e) \<Rightarrow>
          (case e of
             Some e \<Rightarrow> Inl e
           | None \<Rightarrow>
               if ok then Inr (finH, finHash)
               else (case GetBlockByHeight L (nc_block J) d 0 of
                       (gb, okb, ghash, _) \<Rightarrow> if \<not> okb then Inl (Err ''missing genesis'') else Inr (0, ghash))))"

text \<open>
  The capacity of \<^verbatim>\<open>make([]string, 0, int(newTipHeight-finH)+1)\<close> is negative for a tip two or
  more below the finalized height, and too large for one \<open>2 ^ 44\<close> above it: a panic, \<open>None\<close>. A string
  takes 16 bytes.
\<close>

definition trySwitchMainChain ::
  "'d leveldb \<Rightarrow> node_codecs \<Rightarrow> 'd node_ext \<Rightarrow> 'f filesys \<Rightarrow> ('p, 's) node_env \<Rightarrow> 'f \<Rightarrow> 'd \<Rightarrow> string \<Rightarrow> u64 \<Rightarrow> (err \<times> 'd) option" where
  "trySwitchMainChain L J X F env f d newTipHash newTipHeight =
     (case anchor L J d of
        Inl e \<Rightarrow> Some (Some e, d)
      | Inr (finH, finHash) \<Rightarrow>
          if make_panics 16 (i64 (int_of_u64 (newTipHeight - finH) + 1)) then None
          else (case candidate_walk L (nc_block J) d finH newTipHash newTipHeight [] of
                  Inl e \<Rightarrow> Some (Some e, d)
                | Inr path \<Rightarrow>
                    if last path \<noteq> finHash then Some (Some (Err ''candidate chain anchor mismatch''), d)
                    else let d = index_loop L finH (rev path) d;
                             d = snd (SetTip L (nc_u64 J) d newTipHeight newTipHash)
                         in do { (_, d) \<leftarrow> rebuildStateFromFinalized L J X F env f d; Some (None, d) }))"

section \<open>The block locator: \<^verbatim>\<open>locator.go\<close>\<close>

function locator_loop ::
  "'d leveldb \<Rightarrow> block codec \<Rightarrow> 'd \<Rightarrow> nat \<Rightarrow> u64 \<Rightarrow> u64 \<Rightarrow> string list \<Rightarrow> string list" where
  "locator_loop L J d m step h loc =
     (if length loc < m
      then (case GetBlockByHeight L J d h of
              (_, okb, hashHex, e) \<Rightarrow>
                if e \<noteq> None \<or> \<not> okb then loc
                else let loc = loc @ [hashHex]
                     in if h = 0 then loc
                        else let step = (if length loc > 10 then step * 2 else step)
                             in locator_loop L J d m step (if step > h then 0 else h - step) loc)
      else loc)"
  by pat_completeness auto

termination
  by (relation "measure (\<lambda>(L, J, d, m, step, h, loc). m - length loc)") auto

declare locator_loop.simps [simp del]

definition BuildBlockLocator :: "'d leveldb \<Rightarrow> node_codecs \<Rightarrow> 'd \<Rightarrow> int \<Rightarrow> string list \<times> err" where
  "BuildBlockLocator L J d limit =
     (let limit = (if limit \<le> 0 then 32 else limit)
      in case GetTip L (nc_u64 J) d of
           (tipH, tipHash, ok, e) \<Rightarrow>
             if e \<noteq> None \<or> \<not> ok then ([], e)
             else let loc = locator_loop L (nc_block J) d (nat limit) 1 tipH []
                  in (if loc = [] \<and> tipHash \<noteq> [] then [tipHash] else loc, None))"

fun FindFirstKnown :: "'d leveldb \<Rightarrow> block codec \<Rightarrow> 'd \<Rightarrow> string list \<Rightarrow> string \<times> u64 \<times> bool \<times> err" where
  "FindFirstKnown L J d [] = ([], 0, False, None)"
| "FindFirstKnown L J d (hh # locator) =
     (case GetBlockByHash L J d hh of
        (b, okb, e) \<Rightarrow>
          if e \<noteq> None then ([], 0, False, e)
          else if okb then (hh, bh_Height (b_Header b), True, None)
          else FindFirstKnown L J d locator)"


section \<open>A switch of the main chain\<close>

text \<open>
  A branch from the anchor up to a tip, lowest block first: every block but the first is stored and
  names the one before as its parent.
\<close>

definition parent_of :: "'d leveldb \<Rightarrow> block codec \<Rightarrow> 'd \<Rightarrow> string \<Rightarrow> string option" where
  "parent_of L J d h =
     (case GetBlockByHash L J d h of
        (b, okb, e) \<Rightarrow> if e \<noteq> None \<or> \<not> okb then None else Some (Hash_String (bh_PrevHash (b_Header b))))"

definition branch :: "'d leveldb \<Rightarrow> block codec \<Rightarrow> 'd \<Rightarrow> string \<Rightarrow> string \<Rightarrow> nat \<Rightarrow> string list \<Rightarrow> bool" where
  "branch L J d low tip n hs \<longleftrightarrow>
     length hs = Suc n \<and> hd hs = low \<and> last hs = tip \<and> successively (\<lambda>a b. parent_of L J d b = Some a) hs"

text \<open>The walk follows the only line of parents there is.\<close>

lemma candidate_walk_step:
  assumes "finH < cur"
  shows "candidate_walk L J d finH h cur path =
    (case parent_of L J d h of
       None \<Rightarrow> Inl (Err ''missing block in candidate chain'')
     | Some p \<Rightarrow> candidate_walk L J d finH p (cur - 1) (path @ [h]))"
proof -
  have "cur \<noteq> 0" using assms by auto
  then have "cur \<noteq> 0" "cur \<noteq> finH" "\<not> cur - 1 < finH"
    using assms unat_minus_one [of cur] by (auto simp: word_less_nat_alt)
  then show ?thesis
    by (simp add: candidate_walk.simps [of L J d finH h cur] parent_of_def Let_def split: prod.split)
qed

lemma candidate_walk_spec:
  assumes "finH \<le> cur"
  shows "case candidate_walk L J d finH h cur path of
      Inl e \<Rightarrow> \<not> (\<exists>low hs. branch L J d low h (unat cur - unat finH) hs)
    | Inr p \<Rightarrow> \<exists>hs. p = path @ rev hs \<and> branch L J d (hd hs) h (unat cur - unat finH) hs"
  using assms
proof (induction "unat cur - unat finH" arbitrary: cur h path)
  case 0
  then have "cur = finH" by (simp add: word_le_nat_alt word_unat_eq_iff)
  then have "candidate_walk L J d finH h cur path = Inr (path @ rev [h])"
    by (subst candidate_walk.simps) simp
  moreover have "branch L J d (hd [h]) h (unat cur - unat finH) [h]" using \<open>cur = finH\<close> by (simp add: branch_def)
  ultimately show ?case by (simp only: sum.case) blast
next
  case (Suc n)
  then have lt: "finH < cur" by (simp add: word_less_nat_alt)
  then have "cur \<noteq> 0" by auto
  with lt have c: "unat (cur - 1) = unat cur - 1" "finH \<le> cur - 1" "unat cur - unat finH = Suc n" "unat (cur - 1) - unat finH = n"
    using Suc.hyps(2) unat_minus_one [of cur] by (auto simp: word_less_nat_alt word_le_nat_alt)
  show ?case
  proof (cases "parent_of L J d h")
    case None
    have "\<not> branch L J d low h (Suc n) hs" for low hs
    proof
      assume b: "branch L J d low h (Suc n) hs"
      then obtain hs' where hs: "hs = hs' @ [h]" "length hs' = Suc n"
        by (cases hs rule: rev_cases) (auto simp: branch_def)
      then have "hs' \<noteq> []" by auto
      with b hs have "parent_of L J d h = Some (last hs')" by (auto simp: branch_def successively_append_iff)
      with None show False by simp
    qed
    with None lt c(3) show ?thesis by (simp add: candidate_walk_step)
  next
    case (Some p)
    have up: "branch L J d low h (Suc n) (hs @ [h]) \<longleftrightarrow> branch L J d low p n hs" for low hs
      using Some by (cases "hs = []") (auto simp: branch_def successively_append_iff)
    have snoc: "\<exists>hs'. hs = hs' @ [h]" if "branch L J d low h (Suc n) hs" for low hs
      using that by (cases hs rule: rev_cases) (auto simp: branch_def)
    from Suc.hyps(1) [OF c(4) [symmetric] c(2), of p "path @ [h]"] show ?thesis
    proof (cases "candidate_walk L J d finH p (cur - 1) (path @ [h])")
      case (Inl e)
      with Suc.hyps(1) [OF c(4) [symmetric] c(2), of p "path @ [h]"] snoc up Some lt c show ?thesis
        by (simp add: candidate_walk_step) blast
    next
      case (Inr q)
      with Suc.hyps(1) [OF c(4) [symmetric] c(2), of p "path @ [h]"] c obtain hs where
        hs: "q = path @ h # rev hs" "branch L J d (hd hs) p n hs" by auto
      then have "hs \<noteq> []" by (auto simp: branch_def)
      then have "branch L J d (hd (hs @ [h])) h (Suc n) (hs @ [h])" using up hs(2) by simp
      with hs(1) Inr Some lt c(3) show ?thesis
        by (simp add: candidate_walk_step) (rule exI [of _ "hs @ [h]"], simp)
    qed
  qed
qed

lemma branch_unique:
  assumes "branch L J d low tip n hs" "branch L J d low' tip n hs'"
  shows "hs = hs'"
  using assms
proof (induction n arbitrary: low low' tip hs hs')
  case 0
  then show ?case by (cases hs; cases hs') (auto simp: branch_def)
next
  case (Suc n)
  then obtain xs ys where xs: "hs = xs @ [tip]" "hs' = ys @ [tip]" "length xs = Suc n" "length ys = Suc n"
    by (cases hs rule: rev_cases; cases hs' rule: rev_cases) (auto simp: branch_def)
  then have "xs \<noteq> []" "ys \<noteq> []" by auto
  with Suc.prems xs have "branch L J d (hd xs) (last xs) n xs" "branch L J d (hd ys) (last ys) n ys" "last xs = last ys"
    by (auto simp: branch_def successively_append_iff)
  with Suc.IH have "xs = ys" by metis
  with xs show ?case by simp
qed


lemma unat_plus_one_le:
  fixes h :: u64
  assumes "unat h + Suc n \<le> 2 ^ 64" "0 < n"
  shows "unat (h + 1) = Suc (unat h)" "unat (h + 1) + n \<le> 2 ^ 64"
proof -
  have "unat (- 1 :: u64) = 2 ^ 64 - 1" by (simp add: unsigned_minus_1_eq_mask mask_eq_exp_minus_1)
  with assms have "h \<noteq> - 1" by auto
  then show "unat (h + 1) = Suc (unat h)" using unat_inc [of h h] by simp
  with assms show "unat (h + 1) + n \<le> 2 ^ 64" by simp
qed

lemma index_loop_view:
  assumes "ldb_laws L V" "unat height + length hs \<le> 2 ^ 64"
  shows "V (index_loop L height hs d) (keyHashByHeight h) =
      (if unat height \<le> unat h \<and> unat h < unat height + length hs then Some (hs ! (unat h - unat height))
       else V d (keyHashByHeight h))"
  using assms(2)
proof (induction hs arbitrary: height d)
  case (Cons x hs)
  let ?d = "snd (PutHashByHeightOverwrite L d height x)"
  have v: "V ?d = (V d)(keyHashByHeight height \<mapsto> x)"
    by (simp add: PutHashByHeightOverwrite_def ldb_Put_view [OF assms(1)])
  show ?case
  proof (cases "hs = []")
    case True
    then show ?thesis using v by (auto simp: word_unat_eq_iff)
  next
    case False
    with Cons.prems have u: "unat (height + 1) = Suc (unat height)" "unat (height + 1) + length hs \<le> 2 ^ 64"
      using unat_plus_one_le [of height "length hs"] by auto
    show ?thesis using Cons.IH [OF u(2), of ?d] u(1) v
      by (auto simp: word_unat_eq_iff nth_Cons' Suc_le_eq)
  qed
qed auto

lemma index_loop_other:
  assumes "ldb_laws L V" "k \<notin> range keyHashByHeight"
  shows "V (index_loop L height hs d) k = V d k"
proof (induction hs arbitrary: height d)
  case (Cons x hs)
  have "k \<noteq> keyHashByHeight height" using assms(2) by blast
  with Cons show ?case by (simp add: PutHashByHeightOverwrite_def ldb_Put_view [OF assms(1)])
qed simp

text \<open>What the switch leaves alone: everything but the accounts, the index and the tip.\<close>

lemma GetTip_SetTip:
  assumes "ldb_laws L V" "codec_ok J h"
  shows "GetTip L J (snd (SetTip L J d h tip)) = (h, tip, True, None)"
    "V (snd (SetTip L J d h tip)) = (V d)(keyTipHeight \<mapsto> marshal_or_nil J h, keyTipBlockID \<mapsto> tip)"
proof -
  have ne: "keyTipHeight \<noteq> keyTipBlockID" by (simp add: keyTipHeight_def keyTipBlockID_def)
  obtain d1 where d1: "ldb_Put L d keyTipHeight (marshal_or_nil J h) = (None, d1)"
    "V d1 = (V d)(keyTipHeight \<mapsto> marshal_or_nil J h)"
    using ldb_Put_ok [OF assms(1)] ldb_Put_view [OF assms(1)] by (metis prod.collapse)
  then show v: "V (snd (SetTip L J d h tip)) = (V d)(keyTipHeight \<mapsto> marshal_or_nil J h, keyTipBlockID \<mapsto> tip)"
    by (simp add: SetTip_def PutTip_def ldb_Put_view [OF assms(1)])
  obtain b where "jc_Marshal J h = Inr b" "jc_Unmarshal J b = (h, None)" using assms(2) by (auto simp: codec_ok_def)
  then show "GetTip L J (snd (SetTip L J d h tip)) = (h, tip, True, None)"
    using v ne by (simp add: GetTip_def db_lookup_eq [OF assms(1)] ldb_Get_eq [OF assms(1)] marshal_or_nil_def)
qed

lemma GetHashByHeight_view:
  "ldb_laws L V \<Longrightarrow> GetHashByHeight L d h = (case V d (keyHashByHeight h) of Some b \<Rightarrow> (b, True, None) | None \<Rightarrow> ([], False, None))"
  by (simp add: GetHashByHeight_def get_string_def db_lookup_eq split: option.split)

lemma GetBlockByHash_cong:
  "ldb_laws L V \<Longrightarrow> V d (keyBlockByHash h) = V d' (keyBlockByHash h) \<Longrightarrow> GetBlockByHash L J d h = GetBlockByHash L J d' h"
  by (simp add: GetBlockByHash_def db_lookup_eq)

lemma GetTip_cong:
  assumes "ldb_laws L V" "V d keyTipHeight = V d' keyTipHeight" "V d keyTipBlockID = V d' keyTipBlockID"
  shows "GetTip L J d = GetTip L J d'"
proof -
  have "ldb_Get L d keyTipBlockID = ldb_Get L d' keyTipBlockID" "db_lookup L d keyTipHeight = db_lookup L d' keyTipHeight"
    using assms(2,3) by (simp_all add: db_lookup_eq [OF assms(1)] ldb_Get_eq [OF assms(1)])
  then show ?thesis unfolding GetTip_def by (simp only:)
qed

lemma kept_keys [simp]:
  "kept_key (keyHashByHeight h)" "kept_key (keyBlockByHash x)" "kept_key keyTipHeight" "kept_key keyTipBlockID"
  by (simp_all add: kept_key_def acct_key_def keyHashByHeight_def keyBlockByHash_def keyTipHeight_def keyTipBlockID_def)

text \<open>
  The effect of a switch that succeeds: the index names the branch from the anchor up to the new
  tip and is unchanged elsewhere, the tip is the new one, the blocks are the old ones.
\<close>

definition switched ::
  "'d leveldb \<Rightarrow> node_codecs \<Rightarrow> 'd \<Rightarrow> u64 \<Rightarrow> string list \<Rightarrow> string \<Rightarrow> u64 \<Rightarrow> 'd \<Rightarrow> bool" where
  "switched L J d finH hs tip H d' \<longleftrightarrow>
     (\<forall>h. GetHashByHeight L d' h =
        (if finH \<le> h \<and> h \<le> H then (hs ! unat (h - finH), True, None) else GetHashByHeight L d h)) \<and>
     (\<forall>h. GetBlockByHash L (nc_block J) d' h = GetBlockByHash L (nc_block J) d h) \<and>
     GetTip L (nc_u64 J) d' = (H, tip, True, None)"

lemma switch_effect:
  assumes laws: "ldb_laws L V" and ok: "codec_ok (nc_u64 J) H" and le: "finH \<le> H"
    and len: "length hs = Suc (unat H - unat finH)"
    and inv: "replay_inv V (snd (SetTip L (nc_u64 J) (index_loop L finH hs d) H tip)) d'"
  shows "switched L J d finH hs tip H d'"
proof -
  let ?d1 = "index_loop L finH hs d"
  let ?d2 = "snd (SetTip L (nc_u64 J) ?d1 H tip)"
  have u: "unat finH \<le> unat H" "unat H < 2 ^ 64" using le unsigned_less [of H] by (simp_all add: word_le_nat_alt)
  have fit: "unat finH + length hs \<le> 2 ^ 64" using len u by simp
  have ne: "keyHashByHeight h \<noteq> keyTipHeight" "keyHashByHeight h \<noteq> keyTipBlockID"
    "keyBlockByHash x \<noteq> keyTipHeight" "keyBlockByHash x \<noteq> keyTipBlockID" for h x
    by (simp_all add: keyHashByHeight_def keyTipHeight_def keyTipBlockID_def keyBlockByHash_def)
  have nr: "keyBlockByHash x \<notin> range keyHashByHeight" for x by (auto simp: keyHashByHeight_def keyBlockByHash_def)
  have v: "V d' k = V ?d2 k" if "kept_key k" for k using inv that by (simp add: replay_inv_def)
  note v2 = GetTip_SetTip(2) [OF laws ok, of ?d1 tip]
  have "V d' (keyHashByHeight h) = (if finH \<le> h \<and> h \<le> H then Some (hs ! unat (h - finH)) else V d (keyHashByHeight h))" for h
  proof -
    have "unat (h - finH) = unat h - unat finH" if "finH \<le> h" using that by (rule unat_sub)
    then show ?thesis
      using v [of "keyHashByHeight h"] v2 ne index_loop_view [OF laws fit, of d h] len u
      by (auto simp: word_le_nat_alt)
  qed
  then have "GetHashByHeight L d' h =
      (if finH \<le> h \<and> h \<le> H then (hs ! unat (h - finH), True, None) else GetHashByHeight L d h)" for h
    by (simp add: GetHashByHeight_view [OF laws])
  moreover have "GetBlockByHash L (nc_block J) d' h = GetBlockByHash L (nc_block J) d h" for h
    by (rule GetBlockByHash_cong [OF laws]) (simp add: v v2 ne index_loop_other [OF laws nr])
  moreover have "GetTip L (nc_u64 J) d' = (H, tip, True, None)"
    using GetTip_cong [OF laws v v] GetTip_SetTip(1) [OF laws ok] by simp
  ultimately show ?thesis by (simp add: switched_def)
qed

lemma trySwitch_above:
  assumes "ldb_laws L V" "codec_ok (nc_u64 J) H" "anchor L J d = Inr (finH, finHash)" "finH \<le> H" "unat H < 2 ^ 44 - 1"
  shows "\<exists>e d'. trySwitchMainChain L J X F env f d tip H = Some (e, d') \<and>
    (e = None \<longleftrightarrow> (\<exists>hs. branch L (nc_block J) d finHash tip (unat H - unat finH) hs)) \<and>
    (e \<noteq> None \<longrightarrow> d' = d) \<and>
    (\<forall>hs. branch L (nc_block J) d finHash tip (unat H - unat finH) hs \<longrightarrow>
       switched L J d finH hs tip H d' \<and> GetHashByHeight L d' finH = (finHash, True, None))"
proof -
  have small: "\<not> make_panics 16 (i64 (int_of_u64 (H - finH) + 1))"
  proof -
    have "unat (H - finH) = unat H - unat finH" using assms(4) by (rule unat_sub)
    then have s: "uint (H - finH) < 2 ^ 44 - 1" using assms(5) by (simp add: uint_nat)
    moreover have "int_of_u64 (H - finH) = i64 (uint (H - finH))" by (simp add: int_of_u64_def i64_def)
    ultimately have "int_of_u64 (H - finH) = uint (H - finH)" by (simp add: i64_small)
    with s show ?thesis by (simp add: i64_small make_panics_def not_less)
  qed
  let ?w = "candidate_walk L (nc_block J) d finH tip H []"
  let ?B = "branch L (nc_block J) d finHash tip (unat H - unat finH)"
  note walk = candidate_walk_spec [OF assms(4), of L "nc_block J" d tip "[]"]
  show ?thesis
  proof (cases "\<exists>hs. ?B hs")
    case False
    have "\<exists>e. trySwitchMainChain L J X F env f d tip H = Some (Some e, d)"
    proof (cases ?w)
      case (Inr p)
      with walk obtain hs where hs: "p = rev hs" "branch L (nc_block J) d (hd hs) tip (unat H - unat finH) hs" by auto
      with False have "hd hs \<noteq> finHash" by auto
      moreover have "hs \<noteq> []" using hs(2) by (auto simp: branch_def)
      ultimately show ?thesis using Inr hs(1) assms(3) small by (simp add: trySwitchMainChain_def last_rev)
    qed (simp add: trySwitchMainChain_def assms(3) small)
    with False show ?thesis by auto
  next
    case True
    then obtain hs where hs: "?B hs" by blast
    have len: "length hs = Suc (unat H - unat finH)" "hd hs = finHash" "hs \<noteq> []" using hs by (auto simp: branch_def)
    have w: "?w = Inr (rev hs)"
    proof (cases ?w)
      case (Inl e)
      with walk hs show ?thesis by auto
    next
      case (Inr p)
      with walk branch_unique [OF hs] show ?thesis by auto
    qed
    let ?d = "snd (SetTip L (nc_u64 J) (index_loop L finH hs d) H tip)"
    have "H \<noteq> - 1" using assms(5) by (auto simp: unsigned_minus_1_eq_mask mask_eq_exp_minus_1)
    then obtain e d' where r: "rebuildStateFromFinalized L J X F env f ?d = Some (e, d')" "replay_inv V ?d d'"
      using rebuild_returns [OF assms(1), of J ?d X F env f] GetTip_SetTip(1) [OF assms(1,2)] by auto
    then have "trySwitchMainChain L J X F env f d tip H = Some (None, d')"
      using w assms(3) small len by (simp add: trySwitchMainChain_def last_rev Let_def)
    moreover have sw: "switched L J d finH hs tip H d'" by (rule switch_effect [OF assms(1,2,4) len(1) r(2)])
    moreover have "GetHashByHeight L d' finH = (finHash, True, None)"
      using sw assms(4) len by (simp add: switched_def hd_conv_nth)
    moreover have "hs' = hs" if "?B hs'" for hs' using branch_unique [OF that hs] .
    ultimately show ?thesis using hs by blast
  qed
qed

text \<open>A tip that is two or more below the finalized height makes the switch panic.\<close>

lemma trySwitch_low_tip_panics:
  assumes "anchor L J d = Inr (finH, finHash)" "uint H + 1 < uint finH" "uint finH < 2 ^ 62"
  shows "trySwitchMainChain L J X F env f d tip H = None"
proof -
  have "0 \<le> uint H" by simp
  with assms(2,3) have nn: "- (2 ^ 62) \<le> uint H - uint finH" "uint H - uint finH + 1 < 0" by linarith+
  have "uint (H - finH) = (uint H - uint finH) mod 2 ^ 64" by (simp add: uint_word_arith_bintrs(2) take_bit_eq_mod)
  then have "int_of_u64 (H - finH) = i64 (uint H - uint finH)"
    unfolding int_of_u64_def i64_def by (simp add: word_of_int_minus)
  also have "\<dots> = uint H - uint finH" using nn by (intro i64_id) (simp add: in_i64_def)
  finally have "i64 (int_of_u64 (H - finH) + 1) = uint H - uint finH + 1"
    using nn by (simp only:) (rule i64_id, simp add: in_i64_def)
  then show ?thesis using assms(1,2) by (simp add: trySwitchMainChain_def make_panics_def)
qed

text \<open>
  C5. A switch of the main chain keeps the finalized block. With a finalized (or genesis) block at
  height \<open>finH\<close> and a new tip not below it and below \<open>2 ^ 44 - 1\<close>: \<^verbatim>\<open>trySwitchMainChain\<close> returns; it succeeds exactly
  when the parents of the new tip lead through stored blocks to the finalized block in as many
  steps as the heights say; then the index names that branch, whose lowest block is the finalized
  one, and nothing outside it, the tip is the new one and no block is touched; otherwise the store
  is unchanged. For a tip two or more below the finalized height (itself below \<open>2 ^ 62\<close>) the call panics.
\<close>

theorem trySwitch_anchored:
  assumes "ldb_laws L V" "codec_ok (nc_u64 J) H" "anchor L J d = Inr (finH, finHash)" "unat H < 2 ^ 44 - 1" "unat finH < 2 ^ 62"
  shows "(finH \<le> H \<longrightarrow> (\<exists>e d'. trySwitchMainChain L J X F env f d tip H = Some (e, d') \<and>
    (e = None \<longleftrightarrow> (\<exists>hs. branch L (nc_block J) d finHash tip (unat H - unat finH) hs)) \<and>
    (e \<noteq> None \<longrightarrow> d' = d) \<and>
    (\<forall>hs. branch L (nc_block J) d finHash tip (unat H - unat finH) hs \<longrightarrow>
       switched L J d finH hs tip H d' \<and> GetHashByHeight L d' finH = (finHash, True, None)))) \<and>
    (unat H + 1 < unat finH \<longrightarrow> trySwitchMainChain L J X F env f d tip H = None)"
proof (intro conjI impI)
  assume "finH \<le> H"
  then show "\<exists>e d'. trySwitchMainChain L J X F env f d tip H = Some (e, d') \<and>
    (e = None \<longleftrightarrow> (\<exists>hs. branch L (nc_block J) d finHash tip (unat H - unat finH) hs)) \<and>
    (e \<noteq> None \<longrightarrow> d' = d) \<and>
    (\<forall>hs. branch L (nc_block J) d finHash tip (unat H - unat finH) hs \<longrightarrow>
       switched L J d finH hs tip H d' \<and> GetHashByHeight L d' finH = (finHash, True, None))"
    by (rule trySwitch_above [OF assms(1-3) _ assms(4)])
next
  assume "unat H + 1 < unat finH"
  then have "uint H + 1 < uint finH" unfolding uint_nat by linarith
  moreover have "int (unat finH) < int (2 ^ 62)" using assms(5) by (simp only: of_nat_less_iff)
  then have "uint finH < 2 ^ 62" by simp
  ultimately show "trySwitchMainChain L J X F env f d tip H = None" by (rule trySwitch_low_tip_panics [OF assms(3)])
qed

definition sample_fork :: "(bytes \<times> bytes) list" where
  "sample_fork = [(keyFinalizedHeight, ''0''), (keyFinalizedHash_meta, Hash_String zero_hash), (keyBlockByHash ''h1'', ''B'')]"

lemma sample_fork_anchor:
  "anchor alist_db sample_node_codecs sample_fork = Inr (0, Hash_String zero_hash)"
  "parent_of alist_db (nc_block sample_node_codecs) sample_fork ''h1'' = Some (Hash_String zero_hash)"
  "codec_ok (nc_u64 sample_node_codecs) 1"
  by (simp_all add: anchor_def GetFinalized_def parent_of_def GetBlockByHash_def db_lookup_eq [OF alist_db_laws]
      ldb_Get_eq [OF alist_db_laws] sample_fork_def keyFinalizedHeight_def keyFinalizedHash_meta_def keyBlockByHash_def
      sample_node_codecs_def table_codec_def codec_ok_def zero_header_def)

theorem trySwitch_anchored_witness:
  "\<exists>d'. trySwitchMainChain alist_db sample_node_codecs sample_ext no_files sample_env () sample_fork ''h1'' 1 = Some (None, d') \<and>
    GetHashByHeight alist_db d' 1 = (''h1'', True, None) \<and>
    GetHashByHeight alist_db d' 0 = (Hash_String zero_hash, True, None)"
proof -
  let ?hs = "[Hash_String zero_hash, ''h1'']"
  have b: "branch alist_db (nc_block sample_node_codecs) sample_fork (Hash_String zero_hash) ''h1'' (unat (1 :: u64) - unat (0 :: u64)) ?hs"
    by (simp add: branch_def sample_fork_anchor)
  from trySwitch_anchored [OF alist_db_laws sample_fork_anchor(3,1), of sample_ext no_files sample_env "()" "''h1''"]
  obtain e d' where "trySwitchMainChain alist_db sample_node_codecs sample_ext no_files sample_env () sample_fork ''h1'' 1 = Some (e, d')"
    "e = None" "switched alist_db sample_node_codecs sample_fork 0 ?hs ''h1'' 1 d'"
    "GetHashByHeight alist_db d' 0 = (Hash_String zero_hash, True, None)"
    using b by fastforce
  then show ?thesis by (auto simp: switched_def)
qed


section \<open>Locators name the main chain\<close>

lemma locator_loop_spec:
  "\<exists>hs. locator_loop L J d m step h loc = loc @ hs \<and> length hs \<le> m - length loc \<and>
     (\<forall>x \<in> set hs. \<exists>g b. GetBlockByHeight L J d g = (b, True, x, None))"
proof (induction L J d m step h loc rule: locator_loop.induct)
  case (1 L J d m step h loc)
  obtain b okb x e where g: "GetBlockByHeight L J d h = (b, okb, x, e)" by (metis prod_cases4)
  consider "\<not> length loc < m \<or> e \<noteq> None \<or> \<not> okb" | "length loc < m" "e = None" "okb" by blast
  then show ?case
  proof cases
    case 1
    then have "locator_loop L J d m step h loc = loc" using g by (subst locator_loop.simps) auto
    then show ?thesis by simp
  next
    case 2
    define step' where "step' = (if length (loc @ [x]) > 10 then step * 2 else step)"
    define h' where "h' = (if step' > h then 0 else h - step')"
    have eq: "locator_loop L J d m step h loc = (if h = 0 then loc @ [x] else locator_loop L J d m step' h' (loc @ [x]))"
      using 2 g by (subst locator_loop.simps) (simp add: Let_def step'_def h'_def)
    show ?thesis
    proof (cases "h = 0")
      case False
      with "1.IH" [OF 2(1) g [symmetric] refl refl _ refl False step'_def] 2 obtain hs where
        "locator_loop L J d m step' h' (loc @ [x]) = (loc @ [x]) @ hs" "length hs \<le> m - length (loc @ [x])"
        "\<forall>x \<in> set hs. \<exists>g b. GetBlockByHeight L J d g = (b, True, x, None)"
        by (auto simp: h'_def)
      with eq False 2 g show ?thesis by (intro exI [of _ "x # hs"]) auto
    qed (use eq 2 g in \<open>auto intro!: exI [of _ "[x]"]\<close>)
  qed
qed

lemma FindFirstKnown_eq:
  assumes "\<And>h. h \<in> set hs \<Longrightarrow> snd (snd (GetBlockByHash L J d h)) = None"
  shows "FindFirstKnown L J d hs =
    (case find (\<lambda>h. fst (snd (GetBlockByHash L J d h))) hs of
       None \<Rightarrow> ([], 0, False, None)
     | Some h \<Rightarrow> (h, bh_Height (b_Header (fst (GetBlockByHash L J d h))), True, None))"
  using assms
proof (induction hs)
  case (Cons h hs)
  from Cons.prems [of h] have "snd (snd (GetBlockByHash L J d h)) = None" by simp
  with Cons show ?case by (cases "GetBlockByHash L J d h") auto
qed simp

end
