(* ===== verification/GoHeap.thy ===== *)
theory GoHeap
  imports Prelude "HOL-Library.Multiset"
begin

text \<open>
  Go's \<^verbatim>\<open>container/heap\<close>, as the mempool uses it: a binary heap in a slice, with the order
  \<^verbatim>\<open>Less\<close> of its elements as an argument. A strict order in which incomparable elements are
  interchangeable makes it a priority queue, the contract \<open>prio_queue\<close>.
\<close>

section \<open>The package\<close>

definition swap :: "'a list \<Rightarrow> nat \<Rightarrow> nat \<Rightarrow> 'a list" where
  "swap h i j = h[i := h ! j, j := h ! i]"

function heap_up :: "('a \<Rightarrow> 'a \<Rightarrow> bool) \<Rightarrow> 'a list \<Rightarrow> nat \<Rightarrow> 'a list" where
  "heap_up Less h j =
     (let i = (j - 1) div 2
      in if i = j \<or> \<not> Less (h ! j) (h ! i) then h else heap_up Less (swap h i j) i)"
  by pat_completeness auto
termination by (relation "measure (\<lambda>(Less, h, j). j)") auto

function heap_down :: "('a \<Rightarrow> 'a \<Rightarrow> bool) \<Rightarrow> 'a list \<Rightarrow> nat \<Rightarrow> nat \<Rightarrow> 'a list" where
  "heap_down Less h i n =
     (let j1 = 2 * i + 1
      in if j1 \<ge> n then h
         else let j2 = j1 + 1;
                  j = (if j2 < n \<and> Less (h ! j2) (h ! j1) then j2 else j1)
              in if \<not> Less (h ! j) (h ! i) then h else heap_down Less (swap h i j) j n)"
  by pat_completeness auto
termination by (relation "measure (\<lambda>(Less, h, i, n). n - i)") (auto simp: Let_def)

declare heap_up.simps [simp del] heap_down.simps [simp del]

definition heap_Push :: "('a \<Rightarrow> 'a \<Rightarrow> bool) \<Rightarrow> 'a list \<Rightarrow> 'a \<Rightarrow> 'a list" where
  "heap_Push Less h x = (let h = h @ [x] in heap_up Less h (length h - 1))"

text \<open>The element that is returned, and what remains; on an empty heap the call panics.\<close>

definition heap_Pop :: "('a \<Rightarrow> 'a \<Rightarrow> bool) \<Rightarrow> 'a list \<Rightarrow> ('a \<times> 'a list) option" where
  "heap_Pop Less h =
     (if h = [] then None
      else let n = length h - 1;
               h = swap h 0 n;
               h = heap_down Less h 0 n
           in Some (h ! n, take n h))"

primrec heap_Init_loop :: "('a \<Rightarrow> 'a \<Rightarrow> bool) \<Rightarrow> nat \<Rightarrow> nat \<Rightarrow> 'a list \<Rightarrow> 'a list" where
  "heap_Init_loop Less n 0 h = h"
| "heap_Init_loop Less n (Suc i) h = heap_Init_loop Less n i (heap_down Less h i n)"

definition heap_Init :: "('a \<Rightarrow> 'a \<Rightarrow> bool) \<Rightarrow> 'a list \<Rightarrow> 'a list" where
  "heap_Init Less h = heap_Init_loop Less (length h) (length h div 2) h"

section \<open>What is kept\<close>

lemma length_swap [simp]: "length (swap h i j) = length h"
  by (simp add: swap_def)

lemma mset_swap_heap [simp]: "i < length h \<Longrightarrow> j < length h \<Longrightarrow> mset (swap h i j) = mset h"
  by (simp add: swap_def mset_swap)

lemma heap_up_kept: "j < length h \<Longrightarrow> length (heap_up Less h j) = length h \<and> mset (heap_up Less h j) = mset h"
proof (induction Less h j rule: heap_up.induct)
  case (1 Less h j)
  let ?i = "(j - 1) div 2"
  have "?i < length h" using 1(2) by auto
  with 1 show ?case by (subst (1 2) heap_up.simps) (auto simp: Let_def)
qed

lemma heap_down_kept:
  "i < n \<Longrightarrow> n \<le> length h \<Longrightarrow>
   length (heap_down Less h i n) = length h \<and> mset (heap_down Less h i n) = mset h \<and>
   (\<forall>k \<ge> n. heap_down Less h i n ! k = h ! k)"
proof (induction Less h i n rule: heap_down.induct)
  case (1 Less h i n)
  show ?case
  proof (cases "2 * i + 1 \<ge> n")
    case True
    then show ?thesis by (subst (1 2 3) heap_down.simps) simp
  next
    case False
    define j where "j = (if 2 * i + 1 + 1 < n \<and> Less (h ! (2 * i + 1 + 1)) (h ! (2 * i + 1)) then 2 * i + 1 + 1 else 2 * i + 1)"
    have j: "j < n" "j \<noteq> i" using False by (auto simp: j_def)
    have step: "heap_down Less h i n = (if \<not> Less (h ! j) (h ! i) then h else heap_down Less (swap h i j) j n)"
      using False by (subst heap_down.simps) (simp add: Let_def j_def)
    have "\<forall>k \<ge> n. swap h i j ! k = h ! k" using 1(2) j by (simp add: swap_def)
    with 1(1) [OF refl False refl j_def] 1(2,3) j step show ?thesis by auto
  qed
qed

section \<open>The heap order\<close>

text \<open>
  The nodes from \<open>lo\<close> on, in the first \<open>n\<close> places, are not below a child.
\<close>

definition heap_from :: "('a \<Rightarrow> 'a \<Rightarrow> bool) \<Rightarrow> 'a list \<Rightarrow> nat \<Rightarrow> nat \<Rightarrow> bool" where
  "heap_from Less h lo n \<longleftrightarrow> (\<forall>k. 0 < k \<and> k < n \<and> lo \<le> (k - 1) div 2 \<longrightarrow> \<not> Less (h ! k) (h ! ((k - 1) div 2)))"

definition heap_ok :: "('a \<Rightarrow> 'a \<Rightarrow> bool) \<Rightarrow> 'a list \<Rightarrow> bool" where
  "heap_ok Less h \<longleftrightarrow> heap_from Less h 0 (length h)"

lemma nth_swap:
  "i < length h \<Longrightarrow> j < length h \<Longrightarrow> swap h i j ! k = (if k = i then h ! j else if k = j then h ! i else h ! k)"
  by (auto simp: swap_def nth_list_update)

locale weak_order =
  fixes Less :: "'a \<Rightarrow> 'a \<Rightarrow> bool"
  assumes asym: "Less a b \<Longrightarrow> \<not> Less b a"
    and neg_trans: "\<not> Less a b \<Longrightarrow> \<not> Less b c \<Longrightarrow> \<not> Less a c"
begin

lemma up_ok:
  assumes "j < length h"
    "\<And>k. 0 < k \<Longrightarrow> k < length h \<Longrightarrow> k \<noteq> j \<Longrightarrow> \<not> Less (h ! k) (h ! ((k - 1) div 2))"
    "\<And>c. 0 < j \<Longrightarrow> 0 < c \<Longrightarrow> c < length h \<Longrightarrow> (c - 1) div 2 = j \<Longrightarrow> \<not> Less (h ! c) (h ! ((j - 1) div 2))"
  shows "heap_ok Less (heap_up Less h j)"
  using assms
proof (induction j arbitrary: h rule: less_induct)
  case (less j)
  define i where "i = (j - 1) div 2"
  have ip: "(j - Suc 0) div 2 = i" by (simp add: i_def)
  show ?case
  proof (cases "i = j \<or> \<not> Less (h ! j) (h ! i)")
    case True
    then have "heap_up Less h j = h" by (subst heap_up.simps) (simp add: i_def)
    moreover have "\<not> Less (h ! j) (h ! i)" if "0 < j" using True that asym by (auto simp: i_def)
    ultimately show ?thesis using less.prems(2) unfolding heap_ok_def heap_from_def i_def by metis
  next
    case False
    then have i: "i < j" "0 < j" "Less (h ! j) (h ! i)" unfolding i_def by auto
    have up: "heap_up Less h j = heap_up Less (swap h i j) i" using False by (subst heap_up.simps) (simp add: Let_def i_def)
    have nth: "swap h i j ! k = (if k = i then h ! j else if k = j then h ! i else h ! k)" for k
      using i less.prems(1) by (simp add: nth_swap)
    have ij: "\<not> Less (h ! i) (h ! j)" using asym i(3) by blast
    show ?thesis unfolding up
    proof (rule less.IH [OF i(1)])
      show "i < length (swap h i j)" using i less.prems(1) by simp
    next
      fix k assume k: "0 < k" "k < length (swap h i j)" "k \<noteq> i"
      show "\<not> Less (swap h i j ! k) (swap h i j ! ((k - 1) div 2))"
      proof (cases "k = j")
        case True
        then show ?thesis using ij i by (simp add: nth ip)
      next
        case ne: False
        have old: "\<not> Less (h ! k) (h ! ((k - 1) div 2))" using less.prems(2) k ne by simp
        consider "(k - 1) div 2 = j" | "(k - 1) div 2 = i" | "(k - 1) div 2 \<noteq> j" "(k - 1) div 2 \<noteq> i" by blast
        then show ?thesis
        proof cases
          case 1
          then show ?thesis using less.prems(3) [of k] k ne i by (simp add: nth ip)
        next
          case 2
          then show ?thesis using neg_trans [OF _ ij, of "h ! k"] old k ne by (simp add: nth)
        next
          case 3
          then show ?thesis using old k ne by (simp add: nth)
        qed
      qed
    next
      fix c assume c: "0 < i" "0 < c" "c < length (swap h i j)" "(c - 1) div 2 = i"
      have par: "(i - 1) div 2 < i" using c(1) by auto
      have top: "\<not> Less (h ! i) (h ! ((i - 1) div 2))" using less.prems i c(1) by simp
      have "c \<noteq> i" using c by auto
      moreover have "\<not> Less (h ! c) (h ! i)" if "c \<noteq> j" using less.prems(2) [of c] c that by simp
      ultimately show "\<not> Less (swap h i j ! c) (swap h i j ! ((i - 1) div 2))"
        using top par i neg_trans [OF _ top] by (auto simp: nth)
    qed
  qed
qed

lemma down_ok:
  assumes "i < n" "n \<le> length h" "lo \<le> i"
    "\<And>k. 0 < k \<Longrightarrow> k < n \<Longrightarrow> lo \<le> (k - 1) div 2 \<Longrightarrow> (k - 1) div 2 \<noteq> i \<Longrightarrow> \<not> Less (h ! k) (h ! ((k - 1) div 2))"
    "\<And>c. 0 < i \<Longrightarrow> 0 < c \<Longrightarrow> c < n \<Longrightarrow> (c - 1) div 2 = i \<Longrightarrow> lo \<le> (i - 1) div 2 \<Longrightarrow> \<not> Less (h ! c) (h ! ((i - 1) div 2))"
  shows "heap_from Less (heap_down Less h i n) lo n"
  using assms
proof (induction "n - i" arbitrary: h i rule: less_induct)
  case less
  have kids: "c = 2 * i + 1 \<or> c = 2 * i + 2" if "(c - 1) div 2 = i" "0 < c" for c using that by auto
  show ?case
  proof (cases "2 * i + 1 \<ge> n")
    case True
    then have "heap_down Less h i n = h" by (subst heap_down.simps) simp
    then show ?thesis using less.prems(4) True kids unfolding heap_from_def by fastforce
  next
    case False
    define j where "j = (if 2 * i + 1 + 1 < n \<and> Less (h ! (2 * i + 1 + 1)) (h ! (2 * i + 1)) then 2 * i + 1 + 1 else 2 * i + 1)"
    have j: "j < n" "i < j" "(j - 1) div 2 = i" using False by (auto simp: j_def)
    have best: "\<not> Less (h ! c) (h ! j)" if "(c - 1) div 2 = i" "0 < c" "c < n" for c
      using kids [OF that(1,2)] that(3) asym by (auto simp: j_def dest: asym split: if_splits)
    have step: "heap_down Less h i n = (if \<not> Less (h ! j) (h ! i) then h else heap_down Less (swap h i j) j n)"
      using False by (subst heap_down.simps) (simp add: Let_def j_def)
    show ?thesis
    proof (cases "Less (h ! j) (h ! i)")
      case no: False
      have "\<not> Less (h ! k) (h ! ((k - 1) div 2))" if "0 < k" "k < n" "lo \<le> (k - 1) div 2" for k
        using less.prems(4) that best [of k] neg_trans [OF _ no] by (cases "(k - 1) div 2 = i") auto
      then show ?thesis using no step by (simp add: heap_from_def)
    next
      case yes: True
      have nth: "swap h i j ! k = (if k = i then h ! j else if k = j then h ! i else h ! k)" for k
        using j less.prems(1,2) by (simp add: nth_swap)
      have "heap_from Less (heap_down Less (swap h i j) j n) lo n"
      proof (rule less.hyps)
        show "n - j < n - i" "j < n" "n \<le> length (swap h i j)" "lo \<le> j" using j less.prems by auto
      next
        fix k assume k: "0 < k" "k < n" "lo \<le> (k - 1) div 2" "(k - 1) div 2 \<noteq> j"
        show "\<not> Less (swap h i j ! k) (swap h i j ! ((k - 1) div 2))"
        proof (cases "(k - 1) div 2 = i")
          case True
          then have "k \<noteq> i" using k(1) by auto
          then show ?thesis using True best [of k] k asym [OF yes] by (simp add: nth)
        next
          case ne: False
          then have "k \<noteq> j" using j by auto
          then show ?thesis
            using ne k less.prems(4) [of k] less.prems(5) [of j] j by (cases "k = i") (auto simp: nth)
        qed
      next
        fix c assume c: "0 < j" "0 < c" "c < n" "(c - 1) div 2 = j" "lo \<le> (j - 1) div 2"
        have "c \<noteq> i" "c \<noteq> j" using c j by auto
        moreover have "\<not> Less (h ! c) (h ! ((c - 1) div 2))" using less.prems(4) [of c] c j less.prems(3) by auto
        ultimately show "\<not> Less (swap h i j ! c) (swap h i j ! ((j - 1) div 2))" using c j by (simp add: nth)
      qed
      then show ?thesis using yes step by simp
    qed
  qed
qed

end

context weak_order
begin

lemma heap_min:
  assumes "heap_from Less h 0 n" "k < n"
  shows "\<not> Less (h ! k) (h ! 0)"
  using assms(2)
proof (induction k rule: less_induct)
  case (less k)
  show ?case
  proof (cases "k = 0")
    case True
    then show ?thesis using asym by blast
  next
    case False
    then have "\<not> Less (h ! k) (h ! ((k - 1) div 2))" using assms(1) less.prems by (simp add: heap_from_def)
    moreover have "\<not> Less (h ! ((k - 1) div 2)) (h ! 0)" using False less.prems by (intro less.IH) auto
    ultimately show ?thesis by (rule neg_trans)
  qed
qed

lemma push_ok:
  assumes "heap_ok Less h"
  shows "heap_ok Less (heap_Push Less h x)" "mset (heap_Push Less h x) = add_mset x (mset h)"
proof -
  show "heap_ok Less (heap_Push Less h x)" unfolding heap_Push_def Let_def
  proof (rule up_ok)
    fix k assume "0 < k" "k < length (h @ [x])" "k \<noteq> length (h @ [x]) - 1"
    then show "\<not> Less ((h @ [x]) ! k) ((h @ [x]) ! ((k - 1) div 2))"
      using assms by (auto simp: heap_ok_def heap_from_def nth_append)
  qed (simp, auto)
  show "mset (heap_Push Less h x) = add_mset x (mset h)"
    using heap_up_kept [of "length h" "h @ [x]" Less] by (simp add: heap_Push_def Let_def)
qed

lemma pop_ok:
  assumes "heap_ok Less h" "heap_Pop Less h = Some (x, h')"
  shows "heap_ok Less h'" "mset h = add_mset x (mset h')" "\<forall>y \<in># mset h. \<not> Less y x"
proof -
  have ne: "h \<noteq> []" using assms(2) by (auto simp: heap_Pop_def)
  define n where "n = length h - 1"
  define g where "g = heap_down Less (swap h 0 n) 0 n"
  have n: "n < length h" "length h = Suc n" using ne by (auto simp: n_def)
  have r: "x = g ! n" "h' = take n g" using assms(2) ne by (auto simp: heap_Pop_def Let_def n_def g_def)
  have kept: "length g = length h" "mset g = mset h" "g ! n = h ! 0"
    using heap_down_kept [of 0 n "swap h 0 n" Less] n
    by (cases "n = 0"; simp add: g_def nth_swap heap_down.simps [of _ _ 0 0])+
  have "heap_from Less g 0 n"
  proof (cases "n = 0")
    case False
    show ?thesis unfolding g_def
    proof (rule down_ok)
      fix k assume k: "0 < k" "k < n" "(k - 1) div 2 \<noteq> 0"
      then have "\<not> Less (h ! k) (h ! ((k - 1) div 2))" using assms(1) n by (simp add: heap_ok_def heap_from_def)
      moreover have "(k - 1) div 2 < n" using k by auto
      ultimately show "\<not> Less (swap h 0 n ! k) (swap h 0 n ! ((k - 1) div 2))" using k n by (simp add: nth_swap)
    qed (use False n in auto)
  qed (simp add: heap_from_def)
  then show "heap_ok Less h'" using n kept r(2) by (auto simp: heap_ok_def heap_from_def)
  have "g = h' @ [x]" using r n kept(1) by (metis take_Suc_conv_app_nth lessI take_all order_refl)
  then show "mset h = add_mset x (mset h')" using kept(2) by simp
  show "\<forall>y \<in># mset h. \<not> Less y x"
    using assms(1) heap_min [of h "length h"] kept(3) r(1) by (auto simp: heap_ok_def in_set_conv_nth)
qed

lemma init_ok: "heap_ok Less (heap_Init Less h)" "mset (heap_Init Less h) = mset h"
proof -
  have "heap_from Less (heap_Init_loop Less n i g) 0 n \<and> length (heap_Init_loop Less n i g) = length g \<and>
      mset (heap_Init_loop Less n i g) = mset g"
    if "n = length g" "i \<le> n" "heap_from Less g i n" for n i and g :: "'a list"
    using that
  proof (induction i arbitrary: g)
    case (Suc i)
    have k: "length (heap_down Less g i n) = length g" "mset (heap_down Less g i n) = mset g"
      using heap_down_kept [of i n g Less] Suc.prems by auto
    have "heap_from Less (heap_down Less g i n) i n"
    proof (rule down_ok)
      fix k assume "0 < k" "k < n" "i \<le> (k - 1) div 2" "(k - 1) div 2 \<noteq> i"
      then show "\<not> Less (g ! k) (g ! ((k - 1) div 2))" using Suc.prems(3) by (simp add: heap_from_def)
    qed (use Suc.prems in auto)
    with Suc.IH [of "heap_down Less g i n"] k Suc.prems show ?case by simp
  qed simp
  moreover have "heap_from Less h (length h div 2) (length h)" by (auto simp: heap_from_def)
  ultimately show "heap_ok Less (heap_Init Less h)" "mset (heap_Init Less h) = mset h"
    by (simp_all add: heap_ok_def heap_Init_def)
qed

end

section \<open>Priority queues\<close>

locale prio_queue =
  fixes ok :: "'q \<Rightarrow> bool" and elems :: "'q \<Rightarrow> 'a multiset" and push :: "'q \<Rightarrow> 'a \<Rightarrow> 'q"
    and pop :: "'q \<Rightarrow> ('a \<times> 'q) option" and Less :: "'a \<Rightarrow> 'a \<Rightarrow> bool"
  assumes push: "ok q \<Longrightarrow> ok (push q x)" "ok q \<Longrightarrow> elems (push q x) = add_mset x (elems q)"
    and pop_None: "ok q \<Longrightarrow> pop q = None \<longleftrightarrow> elems q = {#}"
    and pop_Some: "ok q \<Longrightarrow> pop q = Some (x, q') \<Longrightarrow> ok q' \<and> elems q = add_mset x (elems q') \<and> (\<forall>y \<in># elems q. \<not> Less y x)"
begin

lemma pop_in: "ok q \<Longrightarrow> pop q = Some (x, q') \<Longrightarrow> x \<in># elems q \<and> size (elems q) = Suc (size (elems q'))"
  using pop_Some by fastforce

text \<open>What is pushed in any order comes out in the order of the queue.\<close>

lemma pops_in_order:
  assumes "ok q" "pop q = Some (x, q1)" "pop q1 = Some (y, q2)"
  shows "\<not> Less y x"
  using pop_Some [OF assms(1,2)] pop_in [of q1 y q2] assms(3) by auto

lemma pop_push:
  assumes "ok q" "pop (push q x) = Some (y, q')"
  shows "y = x \<or> y \<in># elems q" "\<not> Less x y"
proof -
  have "y \<in># elems (push q x)" using pop_in [OF push(1) [OF assms(1)] assms(2)] by blast
  then show "y = x \<or> y \<in># elems q" by (simp add: push(2) [OF assms(1)])
  show "\<not> Less x y" using pop_Some [OF push(1) [OF assms(1)] assms(2)] by (simp add: push(2) [OF assms(1)])
qed

end

sublocale weak_order \<subseteq> heap: prio_queue "heap_ok Less" mset "heap_Push Less" "heap_Pop Less" Less
proof
  show "heap_Pop Less q = None \<longleftrightarrow> mset q = {#}" for q by (simp add: heap_Pop_def Let_def)
qed (use push_ok pop_ok in blast)+

end
