(* ===== verification/Mempool.thy ===== *)
theory Mempool
  imports GoHeap Config Accounts
begin

text \<open>
  The mempool, \<^verbatim>\<open>core/node/mempool.go\<close>: transactions by account and nonce, admission with a
  replacement rule, expiry, and the draining of a block's worth of transactions by fee rate.
\<close>

section \<open>Numbers of type \<^verbatim>\<open>float64\<close>\<close>

text \<open>
  A value of type \<^verbatim>\<open>float64\<close> is the rational it stands for; \<open>f64\<close> rounds to 53 significant bits,
  ties to even. The mempool computes with fees below \<open>2 ^ 63\<close> and their quotients by sizes, which
  are neither too large nor too small for the exponent.
\<close>

fun bit_len :: "nat \<Rightarrow> nat" where
  "bit_len n = (if n = 0 then 0 else Suc (bit_len (n div 2)))"

declare bit_len.simps [simp del]

definition pow2 :: "int \<Rightarrow> rat" where
  "pow2 e = (if e \<ge> 0 then 2 ^ nat e else 1 / 2 ^ nat (- e))"

definition round_half_even :: "rat \<Rightarrow> int" where
  "round_half_even x =
     (let f = \<lfloor>x\<rfloor>; r = x - of_int f
      in if r < 1 / 2 then f else if r > 1 / 2 then f + 1 else if even f then f else f + 1)"

definition f64_pos :: "rat \<Rightarrow> rat" where
  "f64_pos x =
     (let (n, d) = quotient_of x;
          e = int (bit_len (nat n)) - int (bit_len (nat d)) - 53;
          e = (if x / pow2 e \<ge> 2 ^ 53 then e + 1 else e)
      in of_int (round_half_even (x / pow2 e)) * pow2 e)"

definition f64 :: "rat \<Rightarrow> rat" where
  "f64 x = (if x = 0 then 0 else if x > 0 then f64_pos x else - f64_pos (- x))"

text \<open>
  The conversion to \<^verbatim>\<open>int64\<close> drops the fraction. Out of range the language leaves the result
  open; the value here is that of the amd64 instruction.
\<close>

definition int64_of_f64 :: "rat \<Rightarrow> int" where
  "int64_of_f64 x =
     (let t = (if x < 0 then - \<lfloor>- x\<rfloor> else \<lfloor>x\<rfloor>) in if in_i64 t then t else - (2 ^ 63))"

section \<open>The pool\<close>

record mem_tx =
  mt_Tx :: tx
  mt_TxID :: string
  mt_From :: string
  mt_Nonce :: u64
  mt_Fee :: int
  mt_SizeHint :: int
  mt_FeeRate :: rat
  mt_AddedAt :: int

text \<open>
  The two levels of maps are association lists. The counters are of type \<^verbatim>\<open>int\<close>; they count
  what is in memory and stay far from its bounds.
\<close>

type_synonym lane = "(u64 \<times> mem_tx) list"

record mempool =
  m_cfg :: mempool_config
  m_byAcct :: "(string \<times> lane) list"
  m_totalTxs :: int
  m_totalBytes :: int

definition NewMempool :: "mempool_config \<Rightarrow> mempool" where
  "NewMempool cfg = \<lparr>m_cfg = cfg, m_byAcct = [], m_totalTxs = 0, m_totalBytes = 0\<rparr>"

text \<open>\<^verbatim>\<open>m.byAcct[acct][nonce]\<close>, where \<open>None\<close> is the nil pointer.\<close>

definition pooled :: "mempool \<Rightarrow> string \<Rightarrow> u64 \<Rightarrow> mem_tx option" where
  "pooled m acct nonce = (case map_of (m_byAcct m) acct of None \<Rightarrow> None | Some mp \<Rightarrow> map_of mp nonce)"

definition prune_lane :: "int \<Rightarrow> string \<times> lane \<Rightarrow> mempool \<Rightarrow> mempool" where
  "prune_lane cutoff am m =
     (case am of (acct, mp) \<Rightarrow>
        let gone = filter (\<lambda>(nonce, mt). mt_AddedAt mt \<le> cutoff) mp;
            left = filter (\<lambda>(nonce, mt). \<not> mt_AddedAt mt \<le> cutoff) mp;
            m = m\<lparr>m_byAcct := AList.update acct left (m_byAcct m),
                  m_totalTxs := m_totalTxs m - int (length gone),
                  m_totalBytes := m_totalBytes m - (\<Sum>(nonce, mt) \<leftarrow> gone. mt_SizeHint mt)\<rparr>
        in if left = [] then m\<lparr>m_byAcct := AList.delete acct (m_byAcct m)\<rparr> else m)"

definition pruneLocked :: "int \<Rightarrow> mempool \<Rightarrow> mempool" where
  "pruneLocked now m =
     (let cutoff = i64 (now - mp_TxTTLSeconds (m_cfg m)) in fold (prune_lane cutoff) (m_byAcct m) m)"

definition ErrMempool :: "string \<Rightarrow> error" where
  "ErrMempool s = Err s"

definition new_mem_tx :: "(bytes \<Rightarrow> hash) \<Rightarrow> int \<Rightarrow> tx \<Rightarrow> mem_tx" where
  "new_mem_tx hash256 now tx =
     (let sz = TxSizeHint (Tx_ID hash256 tx) (int (length (tx_Outputs tx)));
          feeRate = f64 (f64 (of_int (tx_Fee tx)) / f64 (of_int (max 1 sz)))
      in \<lparr>mt_Tx = tx, mt_TxID = Tx_ID hash256 tx, mt_From = tx_From tx, mt_Nonce = tx_Nonce tx, mt_Fee = tx_Fee tx,
          mt_SizeHint = sz, mt_FeeRate = feeRate, mt_AddedAt = now\<rparr>)"

text \<open>
  The nonce policy at admission, and the insertion. The cap per sender counts over a field
  \<^verbatim>\<open>m.txs\<close> that the struct does not declare: the argument \<open>txs\<close>.
\<close>

definition nonce_policy :: "mempool_config \<Rightarrow> u64 \<Rightarrow> u64 \<Rightarrow> err" where
  "nonce_policy cfg expected nonce =
     (if \<not> mp_AllowFutureNonces cfg
      then (if nonce \<noteq> expected then Some (ErrMempool ''nonce_not_next'') else None)
      else if nonce < expected then Some (ErrMempool ''nonce_too_low'')
      else if nonce - expected > mp_MaxNonceGap cfg then Some (ErrMempool ''nonce_gap_too_large'')
      else None)"

definition insert_tx :: "mem_tx \<Rightarrow> mempool \<Rightarrow> bool \<times> err \<times> mempool" where
  "insert_tx mt m =
     (let acct = mt_From mt; nonce = mt_Nonce mt;
          mp = (case map_of (m_byAcct m) acct of None \<Rightarrow> [] | Some mp \<Rightarrow> mp);
          m = (if map_of (m_byAcct m) acct = None then m\<lparr>m_byAcct := AList.update acct [] (m_byAcct m)\<rparr> else m);
          put = (\<lambda>m. m\<lparr>m_byAcct := AList.update acct (AList.update nonce mt mp) (m_byAcct m)\<rparr>)
      in case map_of mp nonce of
           Some old \<Rightarrow>
             (let minNew = int64_of_f64 (f64 (f64 (of_int (mt_Fee old)) * mp_RBFMinFeeBump (m_cfg m)))
              in if mt_Fee mt < minNew then (False, Some (ErrMempool ''rbf_fee_bump_too_small''), m)
                 else (True, None, (put m)\<lparr>m_totalBytes := m_totalBytes m + (mt_SizeHint mt - mt_SizeHint old)\<rparr>))
         | None \<Rightarrow>
             if m_totalTxs m + 1 > mp_MaxTxs (m_cfg m) then (False, Some (ErrMempool ''mempool_full''), m)
             else if m_totalBytes m + mt_SizeHint mt > mp_MaxBytes (m_cfg m)
             then (False, Some (ErrMempool ''mempool_bytes_full''), m)
             else (False, None, (put m)\<lparr>m_totalTxs := m_totalTxs m + 1, m_totalBytes := m_totalBytes m + mt_SizeHint mt\<rparr>))"

definition mp_Add ::
  "'d leveldb \<Rightarrow> (bytes \<Rightarrow> hash) \<Rightarrow> tx list \<Rightarrow> int \<Rightarrow> 'd \<Rightarrow> tx \<Rightarrow> mempool \<Rightarrow> (bool \<times> err \<times> mempool) option" where
  "mp_Add L hash256 txs now d tx m =
     (if mp_MaxTxsPerSender (m_cfg m) > 0 \<and>
         int (length (filter (\<lambda>t. tx_From t = tx_From tx) txs)) \<ge> mp_MaxTxsPerSender (m_cfg m)
      then Some (False, Some (Err ''sender_cap''), m)
      else let m = pruneLocked now m
           in if tx_From tx = [] then Some (False, Some (ErrMempool ''missing_from''), m)
              else do { (curNonce, _, _) \<leftarrow> GetNonce L d (tx_From tx);
                        case nonce_policy (m_cfg m) (curNonce + 1) (tx_Nonce tx) of
                          Some e \<Rightarrow> Some (False, Some e, m)
                        | None \<Rightarrow> Some (insert_tx (new_mem_tx hash256 now tx) m) })"

section \<open>Draining\<close>

definition txLess :: "mem_tx \<Rightarrow> mem_tx \<Rightarrow> bool" where
  "txLess a b = (if mt_FeeRate a = mt_FeeRate b then mt_Fee a > mt_Fee b else mt_FeeRate a > mt_FeeRate b)"

definition remove_tx :: "string \<Rightarrow> u64 \<Rightarrow> mem_tx \<Rightarrow> mempool \<Rightarrow> mempool" where
  "remove_tx acct n cur m =
     (let mp = AList.delete n (case map_of (m_byAcct m) acct of None \<Rightarrow> [] | Some mp \<Rightarrow> mp);
          m = m\<lparr>m_byAcct := AList.update acct mp (m_byAcct m), m_totalTxs := m_totalTxs m - 1,
                m_totalBytes := m_totalBytes m - mt_SizeHint cur\<rparr>
      in if mp = [] then m\<lparr>m_byAcct := AList.delete acct (m_byAcct m)\<rparr> else m)"

text \<open>
  \<open>Drain\<close>, \<open>Info\<close> and the two snapshots also hold a copy of the sender-cap block of \<open>Add\<close>, over
  variables they do not declare and with results of another type; it is left out here.
\<close>

fun drain_init :: "'d leveldb \<Rightarrow> 'd \<Rightarrow> mempool \<Rightarrow> string list \<Rightarrow> mem_tx list \<times> (string \<rightharpoonup> u64) \<Rightarrow> (mem_tx list \<times> (string \<rightharpoonup> u64)) option" where
  "drain_init L d m [] s = Some s"
| "drain_init L d m (acct # accts) (pq, expected) =
     do { (nn, _, _) \<leftarrow> GetNonce L d acct;
          let expected = expected(acct \<mapsto> nn + 1);
              pq = (case pooled m acct (nn + 1) of Some mt \<Rightarrow> heap_Push txLess pq mt | None \<Rightarrow> pq)
          in drain_init L d m accts (pq, expected) }"

partial_function (option) drain_loop ::
  "int \<Rightarrow> mem_tx list \<Rightarrow> (string \<rightharpoonup> u64) \<Rightarrow> mempool \<Rightarrow> tx list \<Rightarrow> (tx list \<times> mempool) option" where
  [code]: "drain_loop maxCount pq expected m out =
     (if pq \<noteq> [] \<and> (maxCount \<le> 0 \<or> int (length out) < maxCount)
      then do {
        (mt, pq) \<leftarrow> heap_Pop txLess pq;
        let acct = mt_From mt;
            n = (case expected acct of Some n \<Rightarrow> n | None \<Rightarrow> 0)
        in case pooled m acct n of
             None \<Rightarrow> drain_loop maxCount pq expected m out
           | Some cur \<Rightarrow>
               if mt_TxID cur \<noteq> mt_TxID mt then drain_loop maxCount pq expected m out
               else let m = remove_tx acct n cur m;
                        pq = (case pooled m acct (n + 1) of Some nxt \<Rightarrow> heap_Push txLess pq nxt | None \<Rightarrow> pq)
                    in drain_loop maxCount pq (expected(acct \<mapsto> n + 1)) m (out @ [mt_Tx cur]) }
      else Some (out, m))"

text \<open>
  The order in which the accounts are visited is the argument \<open>ord\<close>. \<^verbatim>\<open>make([]chain.Tx, 0, maxCount)\<close>
  panics on a negative count and on one that cannot be allocated; a transaction takes 152 bytes.
\<close>

definition mp_Drain :: "'d leveldb \<Rightarrow> (string list \<Rightarrow> string list) \<Rightarrow> int \<Rightarrow> 'd \<Rightarrow> int \<Rightarrow> mempool \<Rightarrow> (tx list \<times> mempool) option" where
  "mp_Drain L ord now d maxCount m =
     (let m = pruneLocked now m
      in do { (pq, expected) \<leftarrow> drain_init L d m (ord (map fst (m_byAcct m))) (heap_Init txLess [], Map.empty);
              if make_panics 152 maxCount then None else drain_loop maxCount pq expected m [] })"

record mempool_info =
  mi_total_txs :: int
  mi_total_bytes :: int
  mi_accounts :: nat
  mi_per_account :: "(string \<times> nat) list"
  mi_config :: mempool_config

definition mp_Info :: "mempool \<Rightarrow> mempool_info" where
  "mp_Info m = \<lparr>mi_total_txs = m_totalTxs m, mi_total_bytes = m_totalBytes m, mi_accounts = length (m_byAcct m),
     mi_per_account = map (\<lambda>(acct, mp). (acct, length mp)) (m_byAcct m), mi_config = m_cfg m\<rparr>"

definition QueueSnapshot :: "mempool \<Rightarrow> (string \<times> u64 list) list" where
  "QueueSnapshot m = map (\<lambda>(acct, mp). (acct, map fst mp)) (m_byAcct m)"

fun eligible :: "'d leveldb \<Rightarrow> 'd \<Rightarrow> (string \<times> lane) list \<Rightarrow> tx list \<Rightarrow> tx list option" where
  "eligible L d [] out = Some out"
| "eligible L d ((acct, mp) # as) out =
     do { (nn, _, _) \<leftarrow> GetNonce L d acct;
          eligible L d as (case map_of mp (nn + 1) of Some mt \<Rightarrow> out @ [mt_Tx mt] | None \<Rightarrow> out) }"

definition EligibleSnapshot :: "'d leveldb \<Rightarrow> 'd \<Rightarrow> mempool \<Rightarrow> tx list option" where
  "EligibleSnapshot L d m = eligible L d (m_byAcct m) []"

end
