(* ===== verification/Submit.thy ===== *)
theory Submit
  imports ForkChoice Mempool NetStore
begin

text \<open>
  The operations of the node that extend its chain, \<^verbatim>\<open>core/node/node.go\<close>:
  \<^verbatim>\<open>ensureGenesisStored\<close>, \<^verbatim>\<open>SubmitBlock\<close>, \<^verbatim>\<open>BuildNextBlockHeader\<close> and
  \<^verbatim>\<open>MineOne\<close>. They compose the validation of blocks, proof of work, storage, the choice of
  the main chain, finality and the mempool.
\<close>

section \<open>The services of a node\<close>

text \<open>
  What the methods of \<^verbatim>\<open>Node\<close> reach: the database, the encoders, the files, the finality
  settings with the node's configuration. \<^verbatim>\<open>pow.NextWorkRequired\<close> is called and not declared
  in the sources; it is the field \<open>np_NextWorkRequired\<close>.
\<close>

record ('d, 'f, 'p, 's) node =
  np_L :: "'d leveldb"
  np_J :: node_codecs
  np_JF :: codecs
  np_JG :: "genesis codec"
  np_X :: "'d node_ext"
  np_F :: "'f filesys"
  np_fin :: "('p, 's) finality_node"
  np_NextWorkRequired :: "(u64 \<Rightarrow> block_header option) \<Rightarrow> (u64 \<Rightarrow> u32 option) \<Rightarrow> u64 \<Rightarrow> u32 \<times> bool"

abbreviation (input) np_env :: "('d, 'f, 'p, 's) node \<Rightarrow> ('p, 's) node_env" where
  "np_env N \<equiv> fn_env (np_fin N)"

abbreviation (input) np_cfg :: "('d, 'f, 'p, 's) node \<Rightarrow> config" where
  "np_cfg N \<equiv> ne_cfg (fn_env (np_fin N))"

abbreviation (input) np_genesis :: "('d, 'f, 'p, 's) node \<Rightarrow> genesis" where
  "np_genesis N \<equiv> ne_genesis (fn_env (np_fin N))"

section \<open>\<^verbatim>\<open>ensureGenesisStored\<close>\<close>

text \<open>\<^verbatim>\<open>fmt.Errorf("genesis-load-stored: %w", err)\<close> is an error also when \<^verbatim>\<open>err\<close> is nil.\<close>

definition ensureGenesisStored :: "('d, 'f, 'p, 's) node \<Rightarrow> 'd \<Rightarrow> (err \<times> 'd) option" where
  "ensureGenesisStored N d =
     (let L = np_L N; J = np_J N;
          gb = GenesisBlock (np_genesis N);
          gh = Hash_String (Header_Hash (b_Header gb))
      in case HasGenesis L d of
           (_, Some e) \<Rightarrow> Some (Some (Wrap ''genesis-check: '' e), d)
         | (has, None) \<Rightarrow>
             if \<not> has
             then (case PutGenesis L (np_JG N) d (np_genesis N) of
                     (Some e, d) \<Rightarrow> Some (Some (Wrap ''genesis-store: '' e), d)
                   | (None, d) \<Rightarrow>
                       (case PutBlock L (nc_block J) d gh 0 gb of
                          (Some e, d) \<Rightarrow> Some (Some (Wrap ''genesis-block-store: '' e), d)
                        | (None, d) \<Rightarrow>
                            (case PutTip L (nc_u64 J) d 0 gh of
                               (Some e, d) \<Rightarrow> Some (Some (Wrap ''tip-store: '' e), d)
                             | (None, d) \<Rightarrow>
                                 let d = snd (PutFinalized L (nc_u64 J) d 0 gh)
                                 in do { w \<leftarrow> Work64 (bh_Bits (b_Header gb));
                                         let d = snd (PutWork L d gh w) in Some (None, snd (PutTipWork L d w)) })))
             else (case GetGenesis L (np_JG N) d of
                     (existing, ok, e) \<Rightarrow>
                       (case existing of
                          None \<Rightarrow> Some (Some (case e of Some e \<Rightarrow> Wrap ''genesis-load-stored: '' e
                                                       | None \<Rightarrow> Err ''genesis-load-stored: ''), d)
                        | Some g \<Rightarrow>
                            if e \<noteq> None \<or> \<not> ok
                            then Some (Some (case e of Some e \<Rightarrow> Wrap ''genesis-load-stored: '' e
                                                     | None \<Rightarrow> Err ''genesis-load-stored: ''), d)
                            else if g_ChainID g \<noteq> g_ChainID (np_genesis N)
                            then Some (Some (Err (''genesis mismatch: db='' @ g_ChainID g @ '' file='' @ g_ChainID (np_genesis N))), d)
                            else Some (None, d))))"

section \<open>\<^verbatim>\<open>SubmitBlock\<close>\<close>

definition getHeader :: "('d, 'f, 'p, 's) node \<Rightarrow> 'd \<Rightarrow> u64 \<Rightarrow> block_header option" where
  "getHeader N d height =
     (case GetBlockByHeight (np_L N) (nc_block (np_J N)) d height of
        (bb, ok3, _, _) \<Rightarrow> if \<not> ok3 then None else Some (b_Header bb))"

definition getBits :: "('d, 'f, 'p, 's) node \<Rightarrow> 'd \<Rightarrow> u64 \<Rightarrow> u32 option" where
  "getBits N d height = map_option bh_Bits (getHeader N d height)"

text \<open>\<^verbatim>\<open>fmt.Sprintf("%08x", v)\<close>.\<close>

definition hex08 :: "u32 \<Rightarrow> string" where
  "hex08 v = concat (map hex_byte (be_bytes 4 (unat v)))"

text \<open>
  The block extends the tip. Its height is taken modulo the checkpoint interval: an interval of 0
  is a division by zero, \<open>None\<close>.
\<close>

definition extend_tip :: "('d, 'f, 'p, 's) node \<Rightarrow> int \<Rightarrow> 'd \<Rightarrow> block \<Rightarrow> string \<Rightarrow> u64 \<Rightarrow> (err \<times> 'd) option" where
  "extend_tip N now d b hashHex cum =
     (let L = np_L N; height = bh_Height (b_Header b); n = np_fin N
      in do { v \<leftarrow> ValidateBlockStateTip L (np_env N) d b;
              case v of
                Some e \<Rightarrow> Some (Some e, d)
              | None \<Rightarrow>
                  (let d = snd (PutTip L (nc_u64 (np_J N)) d height hashHex);
                       d = snd (PutTipWork L d cum);
                       d = snd (PutHashByHeightOverwrite L d height hashHex)
                   in if \<not> fn_finalityEnabled n then Some (None, d)
                      else if fn_checkpointInterval n = 0 then None
                      else if height mod fn_checkpointInterval n = 0
                      then let cp = \<lparr>cp_Height = height, cp_HashHex = hashHex, cp_TimeUnix = bh_TimeUnix (b_Header b)\<rparr>;
                               d = snd (PutCheckpoint L (co_checkpoint (np_JF N)) d height cp)
                           in do { (_, d) \<leftarrow> processCheckpointVotes L (np_JF N) now n d cp; Some (None, d) }
                      else Some (None, d)) })"

text \<open>The block is on a side branch: the heavier branch wins if it is anchored.\<close>

definition try_fork :: "('d, 'f, 'p, 's) node \<Rightarrow> 'f \<Rightarrow> 'd \<Rightarrow> block \<Rightarrow> string \<Rightarrow> u64 \<Rightarrow> (err \<times> 'd) option" where
  "try_fork N f d b hashHex cum =
     do { (curWork, _, _) \<leftarrow> GetTipWork (np_L N) d;
          if cum > curWork
          then do { (e, d) \<leftarrow> trySwitchMainChain (np_L N) (np_J N) (np_X N) (np_F N) (np_env N) f d hashHex (bh_Height (b_Header b));
                    Some (None, if e = None then snd (PutTipWork (np_L N) d cum) else d) }
          else Some (None, d) }"

definition accept_block ::
  "('d, 'f, 'p, 's) node \<Rightarrow> int \<Rightarrow> 'f \<Rightarrow> 'd \<Rightarrow> block \<Rightarrow> string \<Rightarrow> string \<Rightarrow> (err \<times> 'd) option" where
  "accept_block N now f d b hashHex prevHex =
     (let L = np_L N; J = np_J N; height = bh_Height (b_Header b)
      in case PutBlock L (nc_block J) d hashHex height b of
           (Some e, d) \<Rightarrow> Some (Some e, d)
         | (None, d) \<Rightarrow>
             (let d = snd (PutHeader_any L (nc_header J) d hashHex (b_Header b))
              in do { (parentWork, _, e) \<leftarrow> GetWork L d prevHex;
                      case e of
                        Some e \<Rightarrow> Some (Some e, d)
                      | None \<Rightarrow>
                          do { wAdd \<leftarrow> Work64 (bh_Bits (b_Header b));
                               let cum = Cumulative parentWork wAdd;
                                   d = snd (PutWork L d hashHex cum)
                               in case GetTip L (nc_u64 J) d of
                                    (tipH, tipHash, okTip, _) \<Rightarrow>
                                      if okTip \<and> prevHex = tipHash \<and> height = tipH + 1
                                      then extend_tip N now d b hashHex cum
                                      else try_fork N f d b hashHex cum } }))"

text \<open>The checks before anything is stored: the error, or the hashes of the block and its parent.\<close>

definition link_error :: "('d, 'f, 'p, 's) node \<Rightarrow> 'd \<Rightarrow> block \<Rightarrow> err" where
  "link_error N d b =
     (let h = b_Header b
      in case GetBlockByHash (np_L N) (nc_block (np_J N)) d (Hash_String (bh_PrevHash h)) of
           (prevB, okPrev, e) \<Rightarrow>
             if e \<noteq> None \<or> \<not> okPrev then Some (Err ''missing parent'')
             else if bh_Height (b_Header prevB) + 1 \<noteq> bh_Height h then Some (Err ''bad height linkage'')
             else (case np_NextWorkRequired N (getHeader N d) (getBits N d) (bh_Height h) of
                     (expectedBits, ok2) \<Rightarrow>
                       if ok2 \<and> bh_Bits h \<noteq> expectedBits
                       then Some (Err (''bad bits: got '' @ hex08 (bh_Bits h) @ '' want '' @ hex08 expectedBits))
                       else None))"

definition SubmitBlock :: "('d, 'f, 'p, 's) node \<Rightarrow> int \<Rightarrow> 'f \<Rightarrow> 'd \<Rightarrow> block \<Rightarrow> (err \<times> 'd) option" where
  "SubmitBlock N now f d b =
     (let h = b_Header b; hash = Header_Hash h
      in if bh_ChainID h \<noteq> g_ChainID (np_genesis N) then Some (Some (Err ''wrong chain_id''), d)
         else case ValidateLimits (np_env N) b of
                Some e \<Rightarrow> Some (Some e, d)
              | None \<Rightarrow>
                  do { v \<leftarrow> ValidateBlockStateOnMainParent (np_L N) (np_J N) (np_F N) (np_env N) f d b;
                       case v of
                         Some e \<Rightarrow> Some (Some e, d)
                       | None \<Rightarrow>
                           (case ValidateBlockBasic (np_env N) b of
                              Some e \<Rightarrow> Some (Some e, d)
                            | None \<Rightarrow>
                                if \<not> MeetsTarget hash (bh_Bits h) then Some (Some (Err ''pow does not meet target''), d)
                                else if bh_Height h = 0 then Some (None, d)
                                else (case link_error N d b of
                                        Some e \<Rightarrow> Some (Some e, d)
                                      | None \<Rightarrow> accept_block N now f d b (Hash_String hash) (Hash_String (bh_PrevHash h)))) })"

section \<open>\<^verbatim>\<open>BuildNextBlockHeader\<close>, \<^verbatim>\<open>MineOne\<close>\<close>

definition BuildNextBlockHeader :: "('d, 'f, 'p, 's) node \<Rightarrow> int \<Rightarrow> 'd \<Rightarrow> tx list \<Rightarrow> error + block_header" where
  "BuildNextBlockHeader N now d txs =
     (case GetTip (np_L N) (nc_u64 (np_J N)) d of
        (tipH, tipHash, ok, e) \<Rightarrow>
          (case e of
             Some e \<Rightarrow> Inl e
           | None \<Rightarrow>
               if \<not> ok then Inl (Err ''no tip'')
               else (case GetBlockByHash (np_L N) (nc_block (np_J N)) d tipHash of
                       (tipBlock, ok2, e) \<Rightarrow>
                         if e \<noteq> None \<or> \<not> ok2 then Inl (Err ''missing tip block'')
                         else (case np_NextWorkRequired N (getHeader N d) (getBits N d) (tipH + 1) of
                                 (expectedBits, ok4) \<Rightarrow>
                                   if \<not> ok4 then Inl (Err ''cannot compute expected difficulty'')
                                   else Inr \<lparr>bh_Version = g_ProtocolVersion (np_genesis N),
                                     bh_ChainID = g_ChainID (np_genesis N), bh_Height = tipH + 1, bh_TimeUnix = now,
                                     bh_PrevHash = Header_Hash (b_Header tipBlock),
                                     bh_StateRoot = bh_StateRoot (b_Header tipBlock),
                                     bh_TxRoot = TxRoot (ne_hash256 (np_env N)) txs, bh_Bits = expectedBits, bh_Nonce = 0\<rparr>))))"

definition coinbase_tx :: "config \<Rightarrow> tx" where
  "coinbase_tx cfg = zero_tx\<lparr>tx_Type := ''coinbase'', tx_GasAsset := fc_GasAsset (cfg_Fees cfg),
     tx_Outputs := [\<lparr>o_Amount = is_BlockReward (cfg_Issuance cfg), o_Asset = is_RewardAsset (cfg_Issuance cfg),
       o_Address = is_CoinbaseTo (cfg_Issuance cfg), o_P = [], o_R = [], o_Tag = [], o_EncMemo = [], o_PolicyBits = 0\<rparr>]\<rparr>"

text \<open>
  \<open>ord\<close> and \<open>sortSlice\<close> are the order of the map of senders and the sort, as in the mempool and
  in the selection of transactions. The transactions that are not put into the block are lost: they
  left the mempool before.
\<close>

definition MineOne ::
  "('d, 'f, 'p, 's) node \<Rightarrow> (string list \<Rightarrow> string list) \<Rightarrow> ((tx \<Rightarrow> tx \<Rightarrow> bool) \<Rightarrow> tx list \<Rightarrow> tx list) \<Rightarrow> int \<Rightarrow> 'f \<Rightarrow> 'd \<Rightarrow> mempool
    \<Rightarrow> (string \<times> u64 \<times> err \<times> 'd \<times> mempool) option" where
  "MineOne N ord sortSlice now f d m =
     (if isReadOnly (np_cfg N) \<or> nr_Role (cfg_NodeRole (np_cfg N)) = ''observer''
      then Some ([], 0, Some (Err ''mining_disabled''), d, m)
      else do { (txs, m) \<leftarrow> mp_Drain (np_L N) ord now d 500 m;
                txs \<leftarrow> FilterTxsBySimState (np_L N) (np_env N) sortSlice d txs;
                let d = foldl (\<lambda>d tx. DelMempoolTx (np_L N) d (env_txid (np_env N) tx)) d txs;
                    txs = (if is_Enabled (cfg_Issuance (np_cfg N)) then coinbase_tx (np_cfg N) # txs else txs)
                in case BuildNextBlockHeader N now d txs of
                     Inl e \<Rightarrow> Some ([], 0, Some e, d, m)
                   | Inr h \<Rightarrow>
                       do { (hash, nonce, h) \<leftarrow> MineHeader h;
                            (e, d) \<leftarrow> SubmitBlock N now f d \<lparr>b_Header = h, b_Txs = txs\<rparr>;
                            Some (case e of Some e \<Rightarrow> ([], 0, Some e, d, m)
                                          | None \<Rightarrow> (Hash_String hash, nonce, None, d, m)) } })"

end
