(* ===== verification/MempoolProps.thy ===== *)
theory MempoolProps
  imports Mempool LedgerApply
begin

text \<open>
  What the mempool promises: its counters count, admission and expiry change exactly the entry
  they are about, and draining takes consecutive nonces of every account.
\<close>

section \<open>Association lists\<close>

lemma map_of_filter_snd:
  "distinct (map fst q) \<Longrightarrow>
   map_of (filter (\<lambda>(k, v). P v) q) n = (case map_of q n of Some v \<Rightarrow> if P v then Some v else None | None \<Rightarrow> None)"
  by (induction q) (auto split: option.splits simp: map_of_eq_None_iff [symmetric] dest: map_of_SomeD)

lemma sum_filter_split:
  fixes f :: "'a \<Rightarrow> int"
  shows "(\<Sum>x \<leftarrow> filter P xs. f x) + (\<Sum>x \<leftarrow> filter (\<lambda>x. \<not> P x) xs. f x) = (\<Sum>x \<leftarrow> xs. f x)"
  by (induction xs) auto

definition al_sum :: "('v \<Rightarrow> int) \<Rightarrow> ('k \<times> 'v) list \<Rightarrow> int" where
  "al_sum f al = (\<Sum>kv \<leftarrow> al. f (snd kv))"

lemma al_sum_simps [simp]: "al_sum f [] = 0" "al_sum f (kv # al) = f (snd kv) + al_sum f al"
  by (simp_all add: al_sum_def)

lemma al_sum_delete:
  "distinct (map fst al) \<Longrightarrow>
   al_sum f (AList.delete k al) = al_sum f al - (case map_of al k of None \<Rightarrow> 0 | Some v \<Rightarrow> f v)"
proof (induction al)
  case (Cons kv al)
  then show ?case by (cases kv, cases "fst kv = k") (simp_all add: AList.delete_notin_dom map_of_eq_None_iff)
qed simp

lemma al_sum_update:
  "distinct (map fst al) \<Longrightarrow>
   al_sum f (AList.update k v al) = al_sum f al - (case map_of al k of None \<Rightarrow> 0 | Some v \<Rightarrow> f v) + f v"
  by (induction al) (auto split: option.splits dest: map_of_SomeD)

lemma al_sum_nonneg: "(\<And>v. 0 \<le> f v) \<Longrightarrow> 0 \<le> al_sum f al"
  by (induction al) auto

section \<open>Well-formed pools\<close>

definition lane_wf :: "string \<Rightarrow> lane \<Rightarrow> bool" where
  "lane_wf a q \<longleftrightarrow> distinct (map fst q) \<and>
     (\<forall>n t. map_of q n = Some t \<longrightarrow> mt_From t = a \<and> mt_Nonce t = n \<and> tx_From (mt_Tx t) = a \<and> tx_Nonce (mt_Tx t) = n)"

definition lane_bytes :: "lane \<Rightarrow> int" where
  "lane_bytes q = al_sum mt_SizeHint q"

definition pool_wf :: "mempool \<Rightarrow> bool" where
  "pool_wf m \<longleftrightarrow> distinct (map fst (m_byAcct m)) \<and> (\<forall>a q. map_of (m_byAcct m) a = Some q \<longrightarrow> lane_wf a q) \<and>
     m_totalTxs m = al_sum (\<lambda>q. int (length q)) (m_byAcct m) \<and> m_totalBytes m = al_sum lane_bytes (m_byAcct m)"

definition lane_of :: "mempool \<Rightarrow> string \<Rightarrow> lane" where
  "lane_of m a = (case map_of (m_byAcct m) a of None \<Rightarrow> [] | Some q \<Rightarrow> q)"

lemma pooled_lane: "pooled m a n = map_of (lane_of m a) n"
  by (simp add: pooled_def lane_of_def split: option.split)

lemma pool_wf_lane: "pool_wf m \<Longrightarrow> lane_wf a (lane_of m a)"
  by (auto simp: pool_wf_def lane_wf_def lane_of_def split: option.split)

lemma pool_wfD:
  assumes "pool_wf m" "pooled m a n = Some t"
  shows "mt_From t = a" "mt_Nonce t = n" "tx_From (mt_Tx t) = a" "tx_Nonce (mt_Tx t) = n"
  using pool_wf_lane [OF assms(1), of a] assms(2) unfolding pooled_lane lane_wf_def by auto

text \<open>A change of one lane, or its removal when it is empty, with the counters.\<close>

lemma lane_change:
  assumes "pool_wf m" "lane_wf a q"
    "m' = m\<lparr>m_byAcct := AList.update a q (m_byAcct m),
            m_totalTxs := m_totalTxs m + int (length q) - int (length (lane_of m a)),
            m_totalBytes := m_totalBytes m + lane_bytes q - lane_bytes (lane_of m a)\<rparr>"
  shows "pool_wf m'" "pooled m' b n = (if b = a then map_of q n else pooled m b n)" "m_cfg m' = m_cfg m"
    "q = [] \<Longrightarrow> pool_wf (m'\<lparr>m_byAcct := AList.delete a (m_byAcct m')\<rparr>)"
    "q = [] \<Longrightarrow> pooled (m'\<lparr>m_byAcct := AList.delete a (m_byAcct m')\<rparr>) b n = pooled m' b n"
proof -
  have d: "distinct (map fst (m_byAcct m))" "distinct (map fst (m_byAcct m'))"
    using assms(1,3) by (auto simp: pool_wf_def intro: AList.distinct_update)
  have sums: "al_sum f (m_byAcct m') = al_sum f (m_byAcct m) - f (lane_of m a) + f q" if "f [] = 0" for f
    using that d(1) by (simp add: assms(3) lane_of_def al_sum_update split: option.split)
  have lanes: "map_of (m_byAcct m') = (map_of (m_byAcct m))(a \<mapsto> q)" by (simp add: assms(3) AList.update_conv')
  show wf: "pool_wf m'"
    using assms(1,2) d(2) sums [of "\<lambda>q. int (length q)"] sums [of lane_bytes]
    by (auto simp: pool_wf_def assms(3) lane_bytes_def AList.update_conv')
  show "pooled m' b n = (if b = a then map_of q n else pooled m b n)" by (simp add: pooled_def lanes)
  show "m_cfg m' = m_cfg m" by (simp add: assms(3))
  assume q: "q = []"
  let ?m = "m'\<lparr>m_byAcct := AList.delete a (m_byAcct m')\<rparr>"
  have del: "map_of (m_byAcct ?m) = (map_of (m_byAcct m'))(a := None)" by (simp add: AList.delete_conv')
  have "al_sum f (m_byAcct ?m) = al_sum f (m_byAcct m')" if "f [] = 0" for f
    using that q d(2) by (simp add: al_sum_delete lanes)
  with wf d(2) show "pool_wf ?m" using del
    by (auto simp: pool_wf_def lane_bytes_def intro: AList.distinct_delete split: if_splits)
  show "pooled ?m b n = pooled m' b n" using q by (simp add: pooled_def AList.delete_conv' lanes)
qed

section \<open>Expiry\<close>

lemma prune_lane_ok:
  assumes "pool_wf m" "map_of (m_byAcct m) a = Some q"
  shows "pool_wf (prune_lane c (a, q) m)" "m_cfg (prune_lane c (a, q) m) = m_cfg m"
    "pooled (prune_lane c (a, q) m) b n =
       (if b = a then (case map_of q n of Some t \<Rightarrow> if mt_AddedAt t \<le> c then None else Some t | None \<Rightarrow> None)
        else pooled m b n)"
    "b \<noteq> a \<Longrightarrow> map_of (m_byAcct (prune_lane c (a, q) m)) b = map_of (m_byAcct m) b"
    "m_totalTxs (prune_lane c (a, q) m) \<le> m_totalTxs m"
proof -
  define gone where "gone = filter (\<lambda>(n, t). mt_AddedAt t \<le> c) q"
  define left where "left = filter (\<lambda>(n, t). \<not> mt_AddedAt t \<le> c) q"
  have q: "lane_wf a q" "lane_of m a = q" using assms by (auto simp: pool_wf_def lane_of_def)
  have dist: "distinct (map fst q)" using q(1) by (simp add: lane_wf_def)
  have left: "map_of left n = (case map_of q n of Some t \<Rightarrow> if mt_AddedAt t \<le> c then None else Some t | None \<Rightarrow> None)" for n
    unfolding left_def using map_of_filter_snd [OF dist, of "\<lambda>t. \<not> mt_AddedAt t \<le> c" n] by (auto split: option.split)
  have wf: "lane_wf a left"
    using q(1) dist left by (auto simp: lane_wf_def left_def distinct_map_filter split: option.splits if_splits)
  have sums: "int (length left) - int (length q) = - int (length gone)"
    "lane_bytes left - lane_bytes q = - (\<Sum>(n, t) \<leftarrow> gone. mt_SizeHint t)"
    using sum_filter_split [of "\<lambda>_. 1" "\<lambda>kv. mt_AddedAt (snd kv) \<le> c" q]
      sum_filter_split [of "\<lambda>kv. mt_SizeHint (snd kv)" "\<lambda>kv. mt_AddedAt (snd kv) \<le> c" q]
    unfolding gone_def left_def lane_bytes_def al_sum_def case_prod_unfold by (simp_all add: sum_list_triv)
  define m1 where "m1 = m\<lparr>m_byAcct := AList.update a left (m_byAcct m),
      m_totalTxs := m_totalTxs m + int (length left) - int (length (lane_of m a)),
      m_totalBytes := m_totalBytes m + lane_bytes left - lane_bytes (lane_of m a)\<rparr>"
  have m1': "m1 = m\<lparr>m_byAcct := AList.update a left (m_byAcct m), m_totalTxs := m_totalTxs m - int (length gone),
      m_totalBytes := m_totalBytes m - (\<Sum>(n, t) \<leftarrow> gone. mt_SizeHint t)\<rparr>"
    using sums by (simp add: m1_def q(2) add_diff_eq [symmetric] del: add_diff_eq)
  have run: "prune_lane c (a, q) m = (if left = [] then m1\<lparr>m_byAcct := AList.delete a (m_byAcct m1)\<rparr> else m1)"
    by (simp add: prune_lane_def Let_def m1' gone_def left_def)
  note ch = lane_change [OF assms(1) wf m1_def]
  show "pool_wf (prune_lane c (a, q) m)" "m_cfg (prune_lane c (a, q) m) = m_cfg m"
    using ch by (simp_all add: run)
  show "pooled (prune_lane c (a, q) m) b n =
       (if b = a then (case map_of q n of Some t \<Rightarrow> if mt_AddedAt t \<le> c then None else Some t | None \<Rightarrow> None)
        else pooled m b n)"
    using ch(2) [of b n] ch(5) [of b n] by (cases "b = a") (simp_all add: run left)
  show "b \<noteq> a \<Longrightarrow> map_of (m_byAcct (prune_lane c (a, q) m)) b = map_of (m_byAcct m) b"
    by (simp add: run m1_def AList.delete_conv' AList.update_conv')
  show "m_totalTxs (prune_lane c (a, q) m) \<le> m_totalTxs m" by (simp add: run m1')
qed

definition cutoff_of :: "int \<Rightarrow> mempool \<Rightarrow> int" where
  "cutoff_of now m = i64 (now - mp_TxTTLSeconds (m_cfg m))"

definition alive :: "int \<Rightarrow> mempool \<Rightarrow> string \<Rightarrow> u64 \<Rightarrow> mem_tx option" where
  "alive now m a n = (case pooled m a n of Some t \<Rightarrow> if mt_AddedAt t \<le> cutoff_of now m then None else Some t | None \<Rightarrow> None)"

lemma pruneLocked_ok:
  assumes "pool_wf m"
  shows "pool_wf (pruneLocked now m)" "m_cfg (pruneLocked now m) = m_cfg m"
    "pooled (pruneLocked now m) = alive now m" "m_totalTxs (pruneLocked now m) \<le> m_totalTxs m"
proof -
  let ?c = "cutoff_of now m"
  have "pool_wf (fold (prune_lane ?c) as m1) \<and> m_cfg (fold (prune_lane ?c) as m1) = m_cfg m1 \<and>
      m_totalTxs (fold (prune_lane ?c) as m1) \<le> m_totalTxs m1 \<and>
      (\<forall>b n. pooled (fold (prune_lane ?c) as m1) b n =
        (if b \<in> fst ` set as
         then (case pooled m1 b n of Some t \<Rightarrow> if mt_AddedAt t \<le> ?c then None else Some t | None \<Rightarrow> None)
         else pooled m1 b n))"
    if "pool_wf m1" "distinct (map fst as)" "\<forall>(a, q) \<in> set as. map_of (m_byAcct m1) a = Some q" for as m1
    using that
  proof (induction as arbitrary: m1)
    case (Cons aq as)
    obtain a q where aq: "aq = (a, q)" by fastforce
    have a: "map_of (m_byAcct m1) a = Some q" "a \<notin> fst ` set as" using Cons.prems aq by auto
    note p = prune_lane_ok [OF Cons.prems(1) a(1), where c = ?c]
    define m2 where "m2 = prune_lane ?c (a, q) m1"
    have "map_of (m_byAcct m2) b = Some q'" if "(b, q') \<in> set as" for b q'
    proof -
      have "b \<noteq> a" using that a(2) by force
      then show ?thesis using p(4) [of b] Cons.prems(3) that by (auto simp: aq m2_def)
    qed
    then have all: "\<forall>(b, q') \<in> set as. map_of (m_byAcct m2) b = Some q'" by auto
    have wf2: "pool_wf m2" "distinct (map fst as)" using p(1) Cons.prems(2) by (simp_all add: m2_def)
    have IH: "pool_wf (fold (prune_lane ?c) as m2)" "m_cfg (fold (prune_lane ?c) as m2) = m_cfg m2"
      "m_totalTxs (fold (prune_lane ?c) as m2) \<le> m_totalTxs m2"
      "pooled (fold (prune_lane ?c) as m2) b n =
        (if b \<in> fst ` set as
         then (case pooled m2 b n of Some t \<Rightarrow> if mt_AddedAt t \<le> ?c then None else Some t | None \<Rightarrow> None)
         else pooled m2 b n)" for b n
      using Cons.IH [OF wf2 all] by (elim conjE, simp)+
    have "pooled (fold (prune_lane ?c) as m2) b n =
        (if b \<in> fst ` set (aq # as)
         then (case pooled m1 b n of Some t \<Rightarrow> if mt_AddedAt t \<le> ?c then None else Some t | None \<Rightarrow> None)
         else pooled m1 b n)" for b n
      using IH(4) [of b n] p(3) [of b n] a by (cases "b = a") (simp_all add: aq m2_def pooled_def)
    then show ?case using IH(1-3) p(2,5) by (auto simp: aq m2_def)
  qed simp
  from this [of m "m_byAcct m"] assms
  have r: "pool_wf (pruneLocked now m)" "m_cfg (pruneLocked now m) = m_cfg m"
    "m_totalTxs (pruneLocked now m) \<le> m_totalTxs m"
    "\<forall>b n. pooled (pruneLocked now m) b n =
        (if b \<in> fst ` set (m_byAcct m)
         then (case pooled m b n of Some t \<Rightarrow> if mt_AddedAt t \<le> ?c then None else Some t | None \<Rightarrow> None)
         else pooled m b n)"
    by (auto simp: pool_wf_def pruneLocked_def cutoff_of_def Let_def)
  then show "pool_wf (pruneLocked now m)" "m_cfg (pruneLocked now m) = m_cfg m"
    "m_totalTxs (pruneLocked now m) \<le> m_totalTxs m" by auto
  show "pooled (pruneLocked now m) = alive now m"
    using r(4) by (auto simp: fun_eq_iff alive_def pooled_def map_of_eq_None_iff [symmetric] split: option.splits)
qed

section \<open>Admission\<close>

lemma al_length: "al_sum (\<lambda>_. 1) al = int (length al)"
  by (induction al) auto

lemma length_al_update:
  "distinct (map fst al) \<Longrightarrow> int (length (AList.update k v al)) = int (length al) + (if map_of al k = None then 1 else 0)"
  using al_sum_update [of al "\<lambda>_. 1" k v] by (auto simp: al_length split: option.splits)

lemma length_al_delete:
  "distinct (map fst al) \<Longrightarrow> int (length (AList.delete k al)) = int (length al) - (if map_of al k = None then 0 else 1)"
  using al_sum_delete [of al "\<lambda>_. 1" k] by (auto simp: al_length split: option.splits)

lemma lane_wf_update:
  assumes "lane_wf a q" "mt_From mt = a" "tx_From (mt_Tx mt) = a" "tx_Nonce (mt_Tx mt) = mt_Nonce mt"
  shows "lane_wf a (AList.update (mt_Nonce mt) mt q)"
  using assms by (auto simp: lane_wf_def AList.update_conv' AList.distinct_update split: if_splits)

text \<open>An entry that is new or replaces another one.\<close>

lemma put_tx_ok:
  assumes "pool_wf m" "tx_From (mt_Tx mt) = mt_From mt" "tx_Nonce (mt_Tx mt) = mt_Nonce mt"
    and m': "m' = m\<lparr>m_byAcct := AList.update (mt_From mt) (AList.update (mt_Nonce mt) mt (lane_of m (mt_From mt))) (m_byAcct m),
      m_totalTxs := m_totalTxs m + (if pooled m (mt_From mt) (mt_Nonce mt) = None then 1 else 0),
      m_totalBytes := m_totalBytes m + mt_SizeHint mt -
        (case pooled m (mt_From mt) (mt_Nonce mt) of None \<Rightarrow> 0 | Some old \<Rightarrow> mt_SizeHint old)\<rparr>"
  shows "pool_wf m'" "pooled m' b n = (if b = mt_From mt \<and> n = mt_Nonce mt then Some mt else pooled m b n)"
    "m_cfg m' = m_cfg m"
proof -
  let ?a = "mt_From mt" and ?q = "lane_of m (mt_From mt)"
  let ?q' = "AList.update (mt_Nonce mt) mt ?q"
  have wf: "lane_wf ?a ?q" by (rule pool_wf_lane [OF assms(1)])
  then have d: "distinct (map fst ?q)" unfolding lane_wf_def by blast
  have t: "m_totalTxs m + (if pooled m ?a (mt_Nonce mt) = None then 1 else 0) = m_totalTxs m + int (length ?q') - int (length ?q)"
    using length_al_update [OF d, of "mt_Nonce mt" mt] unfolding pooled_lane by linarith
  have b: "m_totalBytes m + mt_SizeHint mt - (case pooled m ?a (mt_Nonce mt) of None \<Rightarrow> 0 | Some old \<Rightarrow> mt_SizeHint old)
      = m_totalBytes m + lane_bytes ?q' - lane_bytes ?q"
    using al_sum_update [OF d, of mt_SizeHint "mt_Nonce mt" mt] unfolding pooled_lane lane_bytes_def by linarith
  have "m' = m\<lparr>m_byAcct := AList.update ?a ?q' (m_byAcct m),
      m_totalTxs := m_totalTxs m + int (length ?q') - int (length ?q),
      m_totalBytes := m_totalBytes m + lane_bytes ?q' - lane_bytes ?q\<rparr>"
    unfolding m' t b by (rule refl)
  note ch = lane_change [OF assms(1) lane_wf_update [OF wf refl assms(2,3)] this]
  show "pool_wf m'" "m_cfg m' = m_cfg m" by (rule ch)+
  show "pooled m' b n = (if b = mt_From mt \<and> n = mt_Nonce mt then Some mt else pooled m b n)"
    using ch(2) [of b n] by (auto simp: pooled_lane AList.update_conv')
qed

lemma new_lane_ok:
  assumes "pool_wf m" "m1 = (if map_of (m_byAcct m) a = None then m\<lparr>m_byAcct := AList.update a [] (m_byAcct m)\<rparr> else m)"
  shows "pool_wf m1" "pooled m1 = pooled m" "m_cfg m1 = m_cfg m" "m_totalTxs m1 = m_totalTxs m"
    "m_totalBytes m1 = m_totalBytes m" "lane_of m1 a = lane_of m a"
proof -
  have e: "lane_wf a []" by (simp add: lane_wf_def)
  have "pool_wf m1 \<and> pooled m1 = pooled m" if "map_of (m_byAcct m) a = None"
  proof -
    have "m1 = m\<lparr>m_byAcct := AList.update a [] (m_byAcct m),
        m_totalTxs := m_totalTxs m + int (length []) - int (length (lane_of m a)),
        m_totalBytes := m_totalBytes m + lane_bytes [] - lane_bytes (lane_of m a)\<rparr>"
      using assms(2) that by (simp add: lane_of_def)
    note ch = lane_change(1,2) [OF assms(1) e this]
    show ?thesis using ch that by (auto simp: fun_eq_iff pooled_def)
  qed
  then show "pool_wf m1" "pooled m1 = pooled m" using assms by (auto split: if_splits)
  show "m_cfg m1 = m_cfg m" "m_totalTxs m1 = m_totalTxs m" "m_totalBytes m1 = m_totalBytes m" "lane_of m1 a = lane_of m a"
    using assms(2) by (simp_all add: lane_of_def AList.update_conv')
qed

lemma insert_tx_ok:
  assumes "pool_wf m" "tx_From (mt_Tx mt) = mt_From mt" "tx_Nonce (mt_Tx mt) = mt_Nonce mt"
    "insert_tx mt m = (r, e, m')"
  shows "pool_wf m'" "m_cfg m' = m_cfg m" "m_totalTxs m \<le> mp_MaxTxs (m_cfg m) \<Longrightarrow> m_totalTxs m' \<le> mp_MaxTxs (m_cfg m)"
    "pooled m' b n = (if e = None \<and> b = mt_From mt \<and> n = mt_Nonce mt then Some mt else pooled m b n)"
    "r \<longleftrightarrow> e = None \<and> pooled m (mt_From mt) (mt_Nonce mt) \<noteq> None"
proof -
  let ?a = "mt_From mt" and ?n = "mt_Nonce mt"
  define m1 where "m1 = (if map_of (m_byAcct m) ?a = None then m\<lparr>m_byAcct := AList.update ?a [] (m_byAcct m)\<rparr> else m)"
  note l = new_lane_ok [OF assms(1) m1_def]
  define m2 where "m2 = m1\<lparr>m_byAcct := AList.update ?a (AList.update ?n mt (lane_of m1 ?a)) (m_byAcct m1),
      m_totalTxs := m_totalTxs m1 + (if pooled m1 ?a ?n = None then 1 else 0),
      m_totalBytes := m_totalBytes m1 + mt_SizeHint mt - (case pooled m1 ?a ?n of None \<Rightarrow> 0 | Some old \<Rightarrow> mt_SizeHint old)\<rparr>"
  note p = put_tx_ok [OF l(1) assms(2,3) m2_def]
  have "(r, e, m') = (True, None, m2) \<and> pooled m ?a ?n \<noteq> None \<or> (e \<noteq> None \<and> \<not> r \<and> m' = m1) \<or>
      (r, e, m') = (False, None, m2) \<and> pooled m ?a ?n = None \<and> m_totalTxs m1 + 1 \<le> mp_MaxTxs (m_cfg m1)"
  proof (cases "pooled m ?a ?n")
    case None
    then have "pooled m1 ?a ?n = None" "map_of (lane_of m1 ?a) ?n = None" using l(2,6) by (simp_all add: pooled_lane)
    then show ?thesis
      using assms(4) None
      by (auto simp: insert_tx_def Let_def lane_of_def [symmetric] m2_def m1_def [symmetric] l(6) [symmetric] split: if_splits)
  next
    case (Some old)
    then have "pooled m1 ?a ?n = Some old" "map_of (lane_of m1 ?a) ?n = Some old" using l(2,6) by (simp_all add: pooled_lane)
    then show ?thesis
      using assms(4) Some
      by (auto simp: insert_tx_def Let_def lane_of_def [symmetric] m2_def m1_def [symmetric] l(6) [symmetric] split: if_splits)
  qed
  then show "pool_wf m'" "m_cfg m' = m_cfg m" "m_totalTxs m \<le> mp_MaxTxs (m_cfg m) \<Longrightarrow> m_totalTxs m' \<le> mp_MaxTxs (m_cfg m)"
    "pooled m' b n = (if e = None \<and> b = mt_From mt \<and> n = mt_Nonce mt then Some mt else pooled m b n)"
    "r \<longleftrightarrow> e = None \<and> pooled m (mt_From mt) (mt_Nonce mt) \<noteq> None"
    using l p(1,3) p(2) [of b n] by (auto simp: m2_def)
qed

text \<open>
  C10. Admission to a well-formed pool, on a healthy store: the call returns, the pool stays well
  formed (every entry under its own account and nonce, both counters exact) and its configuration
  unchanged, and the number of transactions stays within the configured maximum. A transaction
  that is accepted satisfies the nonce policy and is in the pool afterwards, in place of the
  previous one with that nonce exactly when the call reports a replacement. Nothing else changes
  but for the removal of expired transactions, and a rejected transaction changes nothing else.
\<close>

theorem mp_Add_spec:
  assumes "ldb_laws L V" "acct_wf (V d)" "pool_wf m"
  shows "\<exists>r e m' m0. mp_Add L hash256 txs now d tx m = Some (r, e, m') \<and> pool_wf m' \<and> m_cfg m' = m_cfg m \<and>
    (m_totalTxs m \<le> mp_MaxTxs (m_cfg m) \<longrightarrow> m_totalTxs m' \<le> mp_MaxTxs (m_cfg m)) \<and>
    m0 = (if e = Some (Err ''sender_cap'') then pooled m else alive now m) \<and>
    (e = None \<longrightarrow> tx_From tx \<noteq> [] \<and> nonce_policy (m_cfg m) (non_of (V d) (tx_From tx) + 1) (tx_Nonce tx) = None \<and>
       pooled m' (tx_From tx) (tx_Nonce tx) = Some (new_mem_tx hash256 now tx) \<and>
       (r \<longleftrightarrow> m0 (tx_From tx) (tx_Nonce tx) \<noteq> None)) \<and>
    (\<forall>a n. e \<noteq> None \<or> (a, n) \<noteq> (tx_From tx, tx_Nonce tx) \<longrightarrow> pooled m' a n = m0 a n) \<and> (r \<longrightarrow> e = None)"
proof (cases "mp_MaxTxsPerSender (m_cfg m) > 0 \<and>
    int (length (filter (\<lambda>t. tx_From t = tx_From tx) txs)) \<ge> mp_MaxTxsPerSender (m_cfg m)")
  case True
  then show ?thesis using assms(3) by (auto simp: mp_Add_def)
next
  case cap: False
  define m1 where "m1 = pruneLocked now m"
  note p = pruneLocked_ok [OF assms(3), of now, folded m1_def]
  let ?pol = "nonce_policy (m_cfg m) (non_of (V d) (tx_From tx) + 1) (tx_Nonce tx)" and ?mt = "new_mem_tx hash256 now tx"
  have run: "mp_Add L hash256 txs now d tx m =
      (if tx_From tx = [] then Some (False, Some (ErrMempool ''missing_from''), m1)
       else case ?pol of Some e \<Rightarrow> Some (False, Some e, m1) | None \<Rightarrow> Some (insert_tx ?mt m1))"
    unfolding mp_Add_def if_not_P [OF cap] Let_def m1_def [symmetric] GetNonce_eq [OF assms(1,2)] p(2)
    by (simp cong: option.case_cong)
  have err: "?thesis" if "mp_Add L hash256 txs now d tx m = Some (False, Some e, m1)" "e \<noteq> Err ''sender_cap''" for e
    using that p by auto
  show ?thesis
  proof (cases "tx_From tx = []")
    case True
    then show ?thesis using run by (intro err) (auto simp: ErrMempool_def)
  next
    case False
    show ?thesis
    proof (cases ?pol)
      case (Some e)
      then have "e \<noteq> Err ''sender_cap''" by (auto simp: nonce_policy_def ErrMempool_def split: if_splits)
      with False Some run show ?thesis by (intro err) simp_all
    next
      case None
      obtain r e m' where ins: "insert_tx ?mt m1 = (r, e, m')" by (metis prod_cases3)
      have mt: "tx_From (mt_Tx ?mt) = mt_From ?mt" "tx_Nonce (mt_Tx ?mt) = mt_Nonce ?mt"
        "mt_From ?mt = tx_From tx" "mt_Nonce ?mt = tx_Nonce tx" by (simp_all add: new_mem_tx_def Let_def)
      note i = insert_tx_ok [OF p(1) mt(1,2) ins, unfolded mt(3,4)]
      have e: "e \<noteq> Some (Err ''sender_cap'')"
        using ins by (auto simp: insert_tx_def Let_def ErrMempool_def split: option.splits if_splits)
      have tot: "m_totalTxs m \<le> mp_MaxTxs (m_cfg m) \<longrightarrow> m_totalTxs m' \<le> mp_MaxTxs (m_cfg m)"
        using i(3) p(2,4) by simp
      have "mp_Add L hash256 txs now d tx m = Some (r, e, m')" using run False None ins by simp
      with e tot i(1,2,5) i(4) p(2,3) False None show ?thesis by auto
    qed
  qed
qed

definition sample_pool_cfg :: mempool_config where
  "sample_pool_cfg = \<lparr>mp_MaxTxsPerSender = 0, mp_MaxTxs = 10, mp_MaxBytes = 10000, mp_TxTTLSeconds = 600,
     mp_AllowFutureNonces = True, mp_MaxNonceGap = 5, mp_RBFMinFeeBump = 11 / 10\<rparr>"

definition sample_tx :: "string \<Rightarrow> u64 \<Rightarrow> int \<Rightarrow> tx" where
  "sample_tx a n fee = zero_tx\<lparr>tx_From := a, tx_Nonce := n, tx_Fee := fee\<rparr>"

lemma NewMempool_wf: "pool_wf (NewMempool cfg)"
  by (simp add: pool_wf_def NewMempool_def)

lemma empty_acct_wf: "acct_wf (map_of [])"
  by (simp add: acct_wf_def)

theorem mp_Add_spec_witness:
  "\<exists>m'. mp_Add alist_db (\<lambda>_. zero_hash) [] 1000 [] (sample_tx ''alice'' 1 500) (NewMempool sample_pool_cfg) = Some (False, None, m') \<and>
     pool_wf m' \<and> pooled m' ''alice'' 1 = Some (new_mem_tx (\<lambda>_. zero_hash) 1000 (sample_tx ''alice'' 1 500))"
proof -
  have "map_option (\<lambda>(r, e, m). (r, e))
      (mp_Add alist_db (\<lambda>_. zero_hash) [] 1000 [] (sample_tx ''alice'' 1 500) (NewMempool sample_pool_cfg)) = Some (False, None)"
    by code_simp
  moreover have "tx_From (sample_tx ''alice'' 1 500) = ''alice''" "tx_Nonce (sample_tx ''alice'' 1 500) = 1"
    by (simp_all add: sample_tx_def)
  ultimately show ?thesis
    using mp_Add_spec [OF alist_db_laws empty_acct_wf NewMempool_wf, of "\<lambda>_. zero_hash" "[]" 1000
        "sample_tx ''alice'' 1 500" sample_pool_cfg]
    by auto
qed

section \<open>Draining\<close>

interpretation txq: weak_order txLess
proof
  show "txLess a b \<Longrightarrow> \<not> txLess b a" for a b by (auto simp: txLess_def split: if_splits)
  show "\<not> txLess a b \<Longrightarrow> \<not> txLess b c \<Longrightarrow> \<not> txLess a c" for a b c
    by (auto simp: txLess_def not_less split: if_splits)
qed

lemma remove_tx_ok:
  assumes "pool_wf m" "pooled m a n = Some cur"
  shows "pool_wf (remove_tx a n cur m)" "m_cfg (remove_tx a n cur m) = m_cfg m"
    "pooled (remove_tx a n cur m) b k = (if b = a \<and> k = n then None else pooled m b k)"
    "m_totalTxs (remove_tx a n cur m) = m_totalTxs m - 1"
proof -
  define q where "q = AList.delete n (lane_of m a)"
  have wf: "lane_wf a (lane_of m a)" by (rule pool_wf_lane [OF assms(1)])
  then have d: "distinct (map fst (lane_of m a))" unfolding lane_wf_def by blast
  have lq: "map_of (lane_of m a) n = Some cur" using assms(2) by (simp add: pooled_lane)
  have wq: "lane_wf a q" using wf by (auto simp: lane_wf_def q_def AList.delete_conv' AList.distinct_delete split: if_splits)
  define m1 where "m1 = m\<lparr>m_byAcct := AList.update a q (m_byAcct m),
      m_totalTxs := m_totalTxs m + int (length q) - int (length (lane_of m a)),
      m_totalBytes := m_totalBytes m + lane_bytes q - lane_bytes (lane_of m a)\<rparr>"
  have t: "m_totalTxs m + int (length q) - int (length (lane_of m a)) = m_totalTxs m - 1"
    "m_totalBytes m + lane_bytes q - lane_bytes (lane_of m a) = m_totalBytes m - mt_SizeHint cur"
    using length_al_delete [OF d, of n] al_sum_delete [OF d, of mt_SizeHint n] lq by (simp_all add: q_def lane_bytes_def)
  have run: "remove_tx a n cur m = (if q = [] then m1\<lparr>m_byAcct := AList.delete a (m_byAcct m1)\<rparr> else m1)"
    unfolding remove_tx_def lane_of_def [symmetric] q_def [symmetric] Let_def m1_def t by simp
  note ch = lane_change [OF assms(1) wq m1_def]
  show "pool_wf (remove_tx a n cur m)" "m_cfg (remove_tx a n cur m) = m_cfg m" using ch by (simp_all add: run)
  have "m_totalTxs m1 = m_totalTxs m - 1" unfolding m1_def t by simp
  then show "m_totalTxs (remove_tx a n cur m) = m_totalTxs m - 1" by (simp add: run)
  have "pooled (remove_tx a n cur m) b k = (if b = a then map_of q k else pooled m b k)"
    using ch(2) [of b k] ch(5) [of b k] by (cases "q = []"; cases "b = a") (simp_all add: run)
  then show "pooled (remove_tx a n cur m) b k = (if b = a \<and> k = n then None else pooled m b k)"
    by (auto simp: q_def AList.delete_conv' pooled_lane)
qed

text \<open>A pooled transaction is counted.\<close>

lemma pooled_counted:
  assumes "pool_wf m" "pooled m a n = Some t"
  shows "1 \<le> m_totalTxs m"
proof -
  have "0 \<le> m_totalTxs (remove_tx a n t m)"
    using remove_tx_ok(1) [OF assms] al_sum_nonneg [of "\<lambda>q. int (length q)"] by (auto simp: pool_wf_def)
  then show ?thesis using remove_tx_ok(4) [OF assms] by simp
qed

text \<open>
  The state of the loop that drains: the heap holds exactly the next transaction of every account
  that has one, \<open>taken\<close> counts what has been taken of each account since its nonce.
\<close>

definition taken :: "tx list \<Rightarrow> string \<Rightarrow> tx list" where
  "taken out a = filter (\<lambda>t. tx_From t = a) out"

definition next_nonce :: "(string \<Rightarrow> u64) \<Rightarrow> tx list \<Rightarrow> string \<Rightarrow> u64" where
  "next_nonce N out a = N a + 1 + of_nat (length (taken out a))"

definition drain_inv ::
  "(string \<Rightarrow> u64) \<Rightarrow> mempool \<Rightarrow> mem_tx list \<Rightarrow> (string \<rightharpoonup> u64) \<Rightarrow> mempool \<Rightarrow> tx list \<Rightarrow> bool" where
  "drain_inv N m0 pq expected m out \<longleftrightarrow>
     heap_ok txLess pq \<and> pool_wf m \<and> m_cfg m = m_cfg m0 \<and> distinct (map mt_From pq) \<and>
     (\<forall>t \<in> set pq. expected (mt_From t) = Some (next_nonce N out (mt_From t)) \<and>
        pooled m (mt_From t) (next_nonce N out (mt_From t)) = Some t) \<and>
     (\<forall>a t. pooled m a (next_nonce N out a) = Some t \<longrightarrow> t \<in> set pq) \<and>
     (\<forall>a. map tx_Nonce (taken out a) = map (\<lambda>i. N a + 1 + of_nat i) [0 ..< length (taken out a)]) \<and>
     (\<forall>t \<in> set out. \<exists>mt. pooled m0 (tx_From t) (tx_Nonce t) = Some mt \<and> mt_Tx mt = t) \<and>
     (\<forall>a n. pooled m a n = (if n \<in> tx_Nonce ` set (taken out a) then None else pooled m0 a n))"

lemma taken_snoc [simp]:
  "taken (out @ [t]) a = (if tx_From t = a then taken out a @ [t] else taken out a)"
  by (simp add: taken_def)

lemma drain_step:
  assumes inv: "drain_inv N m0 pq expected m out" and pop: "heap_Pop txLess pq = Some (mt, pq1)"
    and m': "m' = remove_tx (mt_From mt) (next_nonce N out (mt_From mt)) mt m"
    and pq': "pq' = (case pooled m' (mt_From mt) (next_nonce N out (mt_From mt) + 1) of
                       Some nxt \<Rightarrow> heap_Push txLess pq1 nxt | None \<Rightarrow> pq1)"
  shows "expected (mt_From mt) = Some (next_nonce N out (mt_From mt))"
    "pooled m (mt_From mt) (next_nonce N out (mt_From mt)) = Some mt"
    "drain_inv N m0 pq' (expected(mt_From mt \<mapsto> next_nonce N out (mt_From mt) + 1)) m' (out @ [mt_Tx mt])"
    "m_totalTxs m' = m_totalTxs m - 1"
proof -
  let ?a = "mt_From mt" and ?n = "next_nonce N out (mt_From mt)"
  have ok: "heap_ok txLess pq" "pool_wf m" and dist: "distinct (map mt_From pq)"
    and in_pq: "\<And>t. t \<in> set pq \<Longrightarrow> expected (mt_From t) = Some (next_nonce N out (mt_From t)) \<and>
        pooled m (mt_From t) (next_nonce N out (mt_From t)) = Some t"
    and all_pq: "\<And>a t. pooled m a (next_nonce N out a) = Some t \<Longrightarrow> t \<in> set pq"
    and non: "\<And>a. map tx_Nonce (taken out a) = map (\<lambda>i. N a + 1 + of_nat i) [0 ..< length (taken out a)]"
    and from0: "\<forall>t \<in> set out. \<exists>mt. pooled m0 (tx_From t) (tx_Nonce t) = Some mt \<and> mt_Tx mt = t"
    and pl: "\<And>a n. pooled m a n = (if n \<in> tx_Nonce ` set (taken out a) then None else pooled m0 a n)"
    using inv unfolding drain_inv_def by auto
  note popped = txq.heap.pop_Some [OF ok(1) pop]
  have mset: "mset pq = add_mset mt (mset pq1)" using popped by blast
  have set: "set pq = insert mt (set pq1)" using mset by (metis set_mset_mset set_mset_add_mset_insert)
  have "mset (map mt_From pq) = add_mset ?a (mset (map mt_From pq1))" using mset by simp
  then have d1: "distinct (map mt_From pq1)" "?a \<notin> mt_From ` set pq1"
    using dist mset_eq_imp_distinct_iff [of "map mt_From pq" "?a # map mt_From pq1"] by auto
  show exp: "expected ?a = Some ?n" and cur: "pooled m ?a ?n = Some mt" using in_pq [of mt] set by auto
  note r = remove_tx_ok [OF ok(2) cur, folded m']
  show "m_totalTxs m' = m_totalTxs m - 1" by (rule r)
  note tx = pool_wfD [OF ok(2) cur]
  have cfg: "m_cfg m' = m_cfg m0" using r(2) inv by (simp add: drain_inv_def)
  have nn: "next_nonce N (out @ [mt_Tx mt]) b = (if b = ?a then ?n + 1 else next_nonce N out b)" for b
    using tx by (auto simp: next_nonce_def)
  have wf': "\<And>t k. pooled m' ?a k = Some t \<Longrightarrow> mt_From t = ?a" using pool_wfD(1) [OF r(1)] by blast
  have heap': "heap_ok txLess pq'" "mset pq' = (case pooled m' ?a (?n + 1) of Some t \<Rightarrow> add_mset t (mset pq1) | None \<Rightarrow> mset pq1)"
    using popped txq.heap.push by (auto simp: pq' split: option.split)
  have set': "set pq' = (case pooled m' ?a (?n + 1) of Some t \<Rightarrow> insert t (set pq1) | None \<Rightarrow> set pq1)"
    using heap'(2) by (metis (no_types, lifting) set_mset_mset set_mset_add_mset_insert option.case_eq_if)
  have "distinct (map mt_From pq')"
  proof (cases "pooled m' ?a (?n + 1)")
    case None
    then show ?thesis using d1(1) by (simp add: pq')
  next
    case (Some t)
    then have "mset (map mt_From pq') = mset (?a # map mt_From pq1)" using heap'(2) wf' by simp
    then show ?thesis using d1 mset_eq_imp_distinct_iff by fastforce
  qed
  moreover have "(expected(?a \<mapsto> ?n + 1)) (mt_From t) = Some (next_nonce N (out @ [mt_Tx mt]) (mt_From t)) \<and>
      pooled m' (mt_From t) (next_nonce N (out @ [mt_Tx mt]) (mt_From t)) = Some t" if "t \<in> set pq'" for t
  proof (cases "t \<in> set pq1")
    case True
    then have "mt_From t \<noteq> ?a" using d1(2) by (metis imageI)
    then show ?thesis using in_pq [of t] True set by (auto simp: nn r(3))
  next
    case False
    then have "pooled m' ?a (?n + 1) = Some t" using that set' by (auto split: option.splits)
    then show ?thesis using wf' by (simp add: nn)
  qed
  moreover have "t \<in> set pq'" if "pooled m' b (next_nonce N (out @ [mt_Tx mt]) b) = Some t" for b t
    using that all_pq [of b t] set set' pool_wfD(1) [OF ok(2), of b _ t] by (cases "b = ?a") (auto simp: nn r(3) split: option.splits)
  moreover have "map tx_Nonce (taken (out @ [mt_Tx mt]) b)
      = map (\<lambda>i. N b + 1 + of_nat i) [0 ..< length (taken (out @ [mt_Tx mt]) b)]" for b
    using non [of b] tx by (auto simp: next_nonce_def)
  moreover have "\<exists>mt'. pooled m0 (tx_From t) (tx_Nonce t) = Some mt' \<and> mt_Tx mt' = t" if "t \<in> set (out @ [mt_Tx mt])" for t
    using that from0 cur tx pl [of ?a ?n] by (auto split: if_splits)
  moreover have "pooled m' b n = (if n \<in> tx_Nonce ` set (taken (out @ [mt_Tx mt]) b) then None else pooled m0 b n)" for b n
    using pl [of b n] tx by (auto simp: r(3))
  ultimately show "drain_inv N m0 pq' (expected(?a \<mapsto> ?n + 1)) m' (out @ [mt_Tx mt])"
    using heap'(1) r(1) cfg unfolding drain_inv_def by (intro conjI ballI allI impI) simp_all
qed

text \<open>
  The specification of draining: one after the other, a transaction that carries the next nonce of
  its account and that no other such transaction outbids.
\<close>

definition eligible_tx :: "(string \<Rightarrow> u64) \<Rightarrow> (string \<Rightarrow> u64 \<Rightarrow> mem_tx option) \<Rightarrow> tx list \<Rightarrow> string \<Rightarrow> mem_tx option" where
  "eligible_tx N P out a =
     (if next_nonce N out a \<in> tx_Nonce ` set (taken out a) then None else P a (next_nonce N out a))"

inductive greedy :: "(string \<Rightarrow> u64) \<Rightarrow> (string \<Rightarrow> u64 \<Rightarrow> mem_tx option) \<Rightarrow> tx list \<Rightarrow> bool" for N P where
  greedy_Nil: "greedy N P []"
| greedy_snoc: "greedy N P out \<Longrightarrow> eligible_tx N P out a = Some t \<Longrightarrow>
     (\<And>b t'. eligible_tx N P out b = Some t' \<Longrightarrow> \<not> txLess t' t) \<Longrightarrow> greedy N P (out @ [mt_Tx t])"

lemma drain_inv_eligible: "drain_inv N m0 pq expected m out \<Longrightarrow> pooled m a (next_nonce N out a) = eligible_tx N (pooled m0) out a"
  by (simp add: drain_inv_def eligible_tx_def)

lemma drain_loop_ok:
  assumes "drain_inv N m0 pq expected m out" "greedy N (pooled m0) out"
  shows "\<exists>out' m' pq' expected'. drain_loop maxCount pq expected m out = Some (out', m') \<and>
    drain_inv N m0 pq' expected' m' out' \<and> greedy N (pooled m0) out' \<and>
    (pq' = [] \<or> 0 < maxCount \<and> maxCount \<le> int (length out')) \<and>
    (0 < maxCount \<and> int (length out) \<le> maxCount \<longrightarrow> int (length out') \<le> maxCount)"
  using assms
proof (induction "nat (m_totalTxs m)" arbitrary: pq expected m out rule: less_induct)
  case less
  show ?case
  proof (cases "pq \<noteq> [] \<and> (maxCount \<le> 0 \<or> int (length out) < maxCount)")
    case True
    have ok: "heap_ok txLess pq" "pool_wf m" using less.prems(1) by (auto simp: drain_inv_def)
    obtain mt pq1 where pop: "heap_Pop txLess pq = Some (mt, pq1)"
      using True txq.heap.pop_None [OF ok(1)] by (metis mset_zero_iff not_None_eq prod.exhaust)
    let ?a = "mt_From mt"
    let ?n = "next_nonce N out ?a"
    define m' where "m' = remove_tx ?a ?n mt m"
    define pq' where "pq' = (case pooled m' ?a (?n + 1) of Some nxt \<Rightarrow> heap_Push txLess pq1 nxt | None \<Rightarrow> pq1)"
    note st = drain_step [OF less.prems(1) pop m'_def pq'_def]
    have "drain_loop maxCount pq expected m out
        = drain_loop maxCount pq' (expected(?a \<mapsto> ?n + 1)) m' (out @ [mt_Tx mt])"
      using True pop st(1,2) by (subst drain_loop.simps) (simp add: m'_def pq'_def Let_def)
    moreover have "nat (m_totalTxs m') < nat (m_totalTxs m)"
      using st(4) pooled_counted [OF ok(2) st(2)] by simp
    moreover have "greedy N (pooled m0) (out @ [mt_Tx mt])"
    proof (rule greedy_snoc [OF less.prems(2)])
      show "eligible_tx N (pooled m0) out ?a = Some mt"
        using st(2) drain_inv_eligible [OF less.prems(1)] by simp
      fix b t'
      assume "eligible_tx N (pooled m0) out b = Some t'"
      then have "t' \<in> set pq" using drain_inv_eligible [OF less.prems(1), of b] less.prems(1) by (simp add: drain_inv_def)
      then show "\<not> txLess t' mt" using txq.heap.pop_Some [OF ok(1) pop] by simp
    qed
    ultimately show ?thesis using less.hyps [of m' pq' "expected(?a \<mapsto> ?n + 1)" "out @ [mt_Tx mt]"] st(3) True by auto
  next
    case False
    then show ?thesis using less.prems by (subst drain_loop.simps) auto
  qed
qed

lemma drain_init_ok:
  assumes "ldb_laws L V" "acct_wf (V d)" "pool_wf m"
    "heap_ok txLess pq" "distinct (map mt_From pq)" "distinct accts" "D \<inter> set accts = {}"
    "\<forall>t \<in> set pq. mt_From t \<in> D \<and> expected (mt_From t) = Some (non_of (V d) (mt_From t) + 1) \<and>
       pooled m (mt_From t) (non_of (V d) (mt_From t) + 1) = Some t"
    "\<forall>a t. a \<in> D \<and> pooled m a (non_of (V d) a + 1) = Some t \<longrightarrow> t \<in> set pq"
  shows "\<exists>pq' expected'. drain_init L d m accts (pq, expected) = Some (pq', expected') \<and>
    heap_ok txLess pq' \<and> distinct (map mt_From pq') \<and>
    (\<forall>t \<in> set pq'. expected' (mt_From t) = Some (non_of (V d) (mt_From t) + 1) \<and>
       pooled m (mt_From t) (non_of (V d) (mt_From t) + 1) = Some t) \<and>
    (\<forall>a t. a \<in> D \<union> set accts \<and> pooled m a (non_of (V d) a + 1) = Some t \<longrightarrow> t \<in> set pq')"
  using assms(4-)
proof (induction accts arbitrary: pq expected D)
  case Nil
  then show ?case by simp
next
  case (Cons a accts)
  let ?N = "non_of (V d) a + 1"
  define pq1 where "pq1 = (case pooled m a ?N of Some mt \<Rightarrow> heap_Push txLess pq mt | None \<Rightarrow> pq)"
  have step: "drain_init L d m (a # accts) (pq, expected) = drain_init L d m accts (pq1, expected(a \<mapsto> ?N))"
    by (simp add: GetNonce_eq [OF assms(1,2)] pq1_def)
  have fr: "\<And>t. pooled m a ?N = Some t \<Longrightarrow> mt_From t = a" using pool_wfD(1) [OF assms(3)] by blast
  have a: "a \<notin> D" "a \<notin> mt_From ` set pq" using Cons.prems(4,5) by auto
  have ok1: "heap_ok txLess pq1" using Cons.prems(1) txq.heap.push(1) by (simp add: pq1_def split: option.split)
  have mset1: "mset pq1 = (case pooled m a ?N of Some t \<Rightarrow> add_mset t (mset pq) | None \<Rightarrow> mset pq)"
    using txq.heap.push(2) [OF Cons.prems(1)] by (simp add: pq1_def split: option.split)
  have set1: "set pq1 = (case pooled m a ?N of Some t \<Rightarrow> insert t (set pq) | None \<Rightarrow> set pq)"
    unfolding set_mset_mset [symmetric] mset1 by (simp split: option.split)
  have dist1: "distinct (map mt_From pq1)"
  proof (cases "pooled m a ?N")
    case None
    then show ?thesis using Cons.prems(2) by (simp add: pq1_def)
  next
    case (Some t)
    then have "mset (map mt_From pq1) = mset (a # map mt_From pq)"
      using txq.heap.push(2) [OF Cons.prems(1)] fr by (simp add: pq1_def)
    then show ?thesis using Cons.prems(2) a(2) mset_eq_imp_distinct_iff by fastforce
  qed
  have in1: "\<forall>t \<in> set pq1. mt_From t \<in> insert a D \<and> (expected(a \<mapsto> ?N)) (mt_From t) = Some (non_of (V d) (mt_From t) + 1) \<and>
      pooled m (mt_From t) (non_of (V d) (mt_From t) + 1) = Some t"
  proof
    fix t
    assume t: "t \<in> set pq1"
    show "mt_From t \<in> insert a D \<and> (expected(a \<mapsto> ?N)) (mt_From t) = Some (non_of (V d) (mt_From t) + 1) \<and>
      pooled m (mt_From t) (non_of (V d) (mt_From t) + 1) = Some t"
    proof (cases "t \<in> set pq")
      case True
      then have "mt_From t \<noteq> a" using a(2) by (metis imageI)
      then show ?thesis using bspec [OF Cons.prems(5) True] by simp
    next
      case False
      then have new: "pooled m a ?N = Some t" using t set1 by (auto split: option.splits)
      then show ?thesis unfolding fr [OF new] by simp
    qed
  qed
  have all1: "\<forall>b t. b \<in> insert a D \<and> pooled m b (non_of (V d) b + 1) = Some t \<longrightarrow> t \<in> set pq1"
  proof (intro allI impI)
    fix b t
    assume t: "b \<in> insert a D \<and> pooled m b (non_of (V d) b + 1) = Some t"
    show "t \<in> set pq1"
    proof (cases "b = a")
      case True
      then show ?thesis using t set1 by simp
    next
      case False
      then have "t \<in> set pq" using t Cons.prems(6) by blast
      then show ?thesis using set1 by (simp split: option.splits)
    qed
  qed
  have "distinct accts" "insert a D \<inter> set accts = {}" using Cons.prems(3,4) by auto
  from Cons.IH [OF ok1 dist1 this in1 all1] show ?case unfolding step by (simp del: fun_upd_apply)
qed

lemma mp_Drain_panics: "make_panics 152 maxCount \<Longrightarrow> mp_Drain L ord now d maxCount m = None"
  by (auto simp: mp_Drain_def Let_def bind_eq_None_conv split: prod.split option.split)

lemma mp_Drain_correct:
  assumes "ldb_laws L V" "acct_wf (V d)" "pool_wf m" "\<And>xs. mset (ord xs) = mset xs" "\<not> make_panics 152 maxCount"
  shows "\<exists>out m'. mp_Drain L ord now d maxCount m = Some (out, m') \<and> pool_wf m' \<and>
    (0 < maxCount \<longrightarrow> int (length out) \<le> maxCount) \<and> greedy (non_of (V d)) (alive now m) out \<and>
    (\<forall>a. map tx_Nonce (taken out a) = map (\<lambda>i. non_of (V d) a + 1 + of_nat i) [0 ..< length (taken out a)]) \<and>
    (\<forall>t \<in> set out. \<exists>mt. alive now m (tx_From t) (tx_Nonce t) = Some mt \<and> mt_Tx mt = t) \<and>
    (\<forall>a n. pooled m' a n = (if n \<in> tx_Nonce ` set (taken out a) then None else alive now m a n)) \<and>
    (maxCount \<le> 0 \<or> int (length out) < maxCount \<longrightarrow> (\<forall>a. eligible_tx (non_of (V d)) (alive now m) out a = None))"
proof -
  define m0 where "m0 = pruneLocked now m"
  note p = pruneLocked_ok [OF assms(3), of now, folded m0_def]
  let ?accts = "ord (map fst (m_byAcct m0))" and ?N = "non_of (V d)"
  have "distinct (map fst (m_byAcct m0))" using p(1) by (simp add: pool_wf_def)
  then have accts: "distinct ?accts" "set ?accts = fst ` set (m_byAcct m0)"
    using assms(4) mset_eq_imp_distinct_iff mset_eq_setD by (metis, metis list.set_map)
  have h0: "heap_ok txLess []" by (simp add: heap_ok_def heap_from_def)
  obtain pq ex where init: "drain_init L d m0 ?accts ([], Map.empty) = Some (pq, ex)" "heap_ok txLess pq"
    "distinct (map mt_From pq)"
    "\<forall>t \<in> set pq. ex (mt_From t) = Some (?N (mt_From t) + 1) \<and> pooled m0 (mt_From t) (?N (mt_From t) + 1) = Some t"
    "\<forall>a t. a \<in> set ?accts \<and> pooled m0 a (?N a + 1) = Some t \<longrightarrow> t \<in> set pq"
    using drain_init_ok [OF assms(1,2) p(1) h0 _ accts(1), of "{}" Map.empty] by auto
  have nn: "next_nonce ?N [] a = ?N a + 1" for a by (simp add: next_nonce_def taken_def)
  have "t \<in> set pq" if "pooled m0 a (?N a + 1) = Some t" for a t
  proof -
    have "map_of (m_byAcct m0) a \<noteq> None" using that by (auto simp: pooled_def split: option.splits)
    then have "a \<in> set ?accts" unfolding accts(2) by (simp add: map_of_eq_None_iff)
    then show ?thesis using init(5) that by blast
  qed
  then have "drain_inv ?N m0 pq ex m0 []"
    using init(2-4) p(1) unfolding drain_inv_def nn by (simp add: taken_def)
  from drain_loop_ok [OF this greedy_Nil, of maxCount] obtain out m' pq' ex' where
    r: "drain_loop maxCount pq ex m0 [] = Some (out, m')" "drain_inv ?N m0 pq' ex' m' out" "greedy ?N (pooled m0) out"
      "pq' = [] \<or> 0 < maxCount \<and> maxCount \<le> int (length out)"
      "0 < maxCount \<and> int (length ([] :: tx list)) \<le> maxCount \<longrightarrow> int (length out) \<le> maxCount" by blast
  have len: "0 < maxCount \<longrightarrow> int (length out) \<le> maxCount" using r(5) by simp
  have "eligible_tx ?N (pooled m0) out a = None" if "pq' = []" for a
    using r(2) drain_inv_eligible [OF r(2), of a] that
    by (cases "pooled m' a (next_nonce ?N out a)") (auto simp: drain_inv_def)
  moreover have "mp_Drain L ord now d maxCount m = Some (out, m')"
    using init(1) r(1) assms(5) by (simp add: mp_Drain_def m0_def [symmetric] heap_Init_def)
  ultimately show ?thesis using r(2-4) len unfolding drain_inv_def p(3) by fastforce
qed

text \<open>
  C4. Draining a well-formed pool panics for a negative count, and for one whose buffer cannot be
  allocated; for every other count it returns, whatever the order in which the accounts are visited:
  at most the requested number of transactions (all of them for a count of zero), taken greedily by fee rate among the transactions
  with the next nonce of their account. The nonces taken of an account are consecutive from its
  state nonce on; exactly the transactions returned, and the expired ones, are gone from the pool,
  which stays well formed; and if fewer than the requested number are returned, no account has a
  next transaction left.
\<close>

theorem mp_Drain_spec:
  assumes "ldb_laws L V" "acct_wf (V d)" "pool_wf m" "\<And>xs. mset (ord xs) = mset xs"
  shows "if maxCount < 0 \<or> 152 * maxCount > 2 ^ 48 then mp_Drain L ord now d maxCount m = None
    else \<exists>out m'. mp_Drain L ord now d maxCount m = Some (out, m') \<and> pool_wf m' \<and>
    (0 < maxCount \<longrightarrow> int (length out) \<le> maxCount) \<and> greedy (non_of (V d)) (alive now m) out \<and>
    (\<forall>a. map tx_Nonce (taken out a) = map (\<lambda>i. non_of (V d) a + 1 + of_nat i) [0 ..< length (taken out a)]) \<and>
    (\<forall>t \<in> set out. \<exists>mt. alive now m (tx_From t) (tx_Nonce t) = Some mt \<and> mt_Tx mt = t) \<and>
    (\<forall>a n. pooled m' a n = (if n \<in> tx_Nonce ` set (taken out a) then None else alive now m a n)) \<and>
    (maxCount \<le> 0 \<or> int (length out) < maxCount \<longrightarrow> (\<forall>a. eligible_tx (non_of (V d)) (alive now m) out a = None))"
proof (cases "make_panics 152 maxCount")
  case True
  then show ?thesis using mp_Drain_panics [OF True] by (simp add: make_panics_def)
next
  case False
  then show ?thesis
    unfolding if_not_P [OF False [unfolded make_panics_def]] by (intro mp_Drain_correct [OF assms])
qed

definition sample_mt :: "string \<Rightarrow> u64 \<Rightarrow> int \<Rightarrow> mem_tx" where
  "sample_mt a n fee = new_mem_tx (\<lambda>_. zero_hash) 1000 (sample_tx a n fee)"

definition sample_mempool :: mempool where
  "sample_mempool = \<lparr>m_cfg = sample_pool_cfg,
     m_byAcct = [(''alice'', [(1, sample_mt ''alice'' 1 500), (2, sample_mt ''alice'' 2 300)]), (''bob'', [(1, sample_mt ''bob'' 1 400)])],
     m_totalTxs = 3, m_totalBytes = 540\<rparr>"

lemma sample_mt_simps:
  "mt_From (sample_mt a n f) = a" "mt_Nonce (sample_mt a n f) = n" "tx_From (mt_Tx (sample_mt a n f)) = a"
  "tx_Nonce (mt_Tx (sample_mt a n f)) = n" "mt_SizeHint (sample_mt a n f) = 180"
  by (simp_all add: sample_mt_def new_mem_tx_def sample_tx_def zero_tx_def Let_def TxSizeHint_def i64_small)

lemma sample_mempool_wf: "pool_wf sample_mempool"
proof -
  let ?A = "[(1, sample_mt ''alice'' 1 500), (2, sample_mt ''alice'' 2 300)]" and ?B = "[(1, sample_mt ''bob'' 1 400)]"
  have "lane_wf ''alice'' ?A" "lane_wf ''bob'' ?B" by (simp_all add: lane_wf_def sample_mt_simps)
  moreover have "lane_bytes ?A = 360" "lane_bytes ?B = 180" by (simp_all add: lane_bytes_def sample_mt_simps)
  ultimately show ?thesis by (simp add: pool_wf_def sample_mempool_def)
qed

theorem mp_Drain_spec_witness:
  "\<exists>out m'. mp_Drain alist_db rev 1000 [] 2 sample_mempool = Some (out, m') \<and> pool_wf m' \<and> length out \<le> 2 \<and>
     greedy (\<lambda>_. 0) (alive 1000 sample_mempool) out \<and> mp_Drain alist_db rev 1000 [] (- 1) sample_mempool = None"
proof -
  have "non_of (map_of []) = (\<lambda>_. 0)" by (simp add: non_of_def fun_eq_iff)
  then show ?thesis
    using mp_Drain_spec [OF alist_db_laws empty_acct_wf sample_mempool_wf, of rev 2 1000]
      mp_Drain_spec [OF alist_db_laws empty_acct_wf sample_mempool_wf, of rev "- 1" 1000] by auto
qed

end
