(* ===== verification/SubmitProps.thy ===== *)
theory SubmitProps
  imports Submit MempoolProps
begin

text \<open>
  What \<^verbatim>\<open>SubmitBlock\<close> does to the store: which records each part may
  change, that the call returns on a well-typed store, that the tip is always the heaviest anchored
  block submitted, and that an extension of the tip moves no money.
\<close>

section \<open>Which records an operation may change\<close>

definition changes :: "(bytes \<Rightarrow> bool) \<Rightarrow> ('d \<Rightarrow> bytes \<rightharpoonup> bytes) \<Rightarrow> 'd \<Rightarrow> 'd \<Rightarrow> bool" where
  "changes K V d d' \<longleftrightarrow> (\<forall>k. \<not> K k \<longrightarrow> V d' k = V d k)"

lemma changes_refl [simp]: "changes K V d d"
  by (simp add: changes_def)

lemma changes_trans: "changes K V d d' \<Longrightarrow> changes K V d' d'' \<Longrightarrow> changes K V d d''"
  by (simp add: changes_def)

lemma changes_mono: "changes K V d d' \<Longrightarrow> (\<And>k. K k \<Longrightarrow> K' k) \<Longrightarrow> changes K' V d d'"
  by (auto simp: changes_def)

lemma changesD: "changes K V d d' \<Longrightarrow> \<not> K k \<Longrightarrow> V d' k = V d k"
  by (simp add: changes_def)

lemmas key_defs = keyBal_def keyNonce_def keyBlockByHash_def keyHashByHeight_def keyHeaderByHash_def keyWork_def
  keyTipWork_def keyTipHeight_def keyTipBlockID_def keyFinalizedHeight_def keyFinalizedHash_meta_def

definition tip_key :: "bytes \<Rightarrow> bool" where
  "tip_key k \<longleftrightarrow> k = keyTipHeight \<or> k = keyTipBlockID"

text \<open>The records of one block: the block, its header, its work, and the index entry of its height.\<close>

definition block_key :: "string \<Rightarrow> u64 \<Rightarrow> bytes \<Rightarrow> bool" where
  "block_key h n k \<longleftrightarrow> k = keyBlockByHash h \<or> k = keyHeaderByHash h \<or> k = keyWork h \<or> k = keyHashByHeight n"

lemma family_simps [simp]:
  "\<not> tip_key (keyBlockByHash x)" "\<not> tip_key (keyWork x)" "\<not> tip_key keyTipWork" "\<not> tip_key (keyHashByHeight i)"
  "\<not> tip_key (keyBal a)" "\<not> tip_key (keyNonce a)" "tip_key keyTipHeight" "tip_key keyTipBlockID"
  "\<not> block_key h n keyTipWork" "\<not> block_key h n keyTipHeight" "\<not> block_key h n keyTipBlockID"
  "\<not> block_key h n (keyBal a)" "\<not> block_key h n (keyNonce a)"
  "\<not> block_key h n keyFinalizedHeight" "\<not> block_key h n keyFinalizedHash_meta"
  "block_key h n (keyWork x) \<longleftrightarrow> x = h" "block_key h n (keyBlockByHash x) \<longleftrightarrow> x = h"
  "block_key h n (keyHashByHeight i) \<longleftrightarrow> i = n"
  "\<not> finality_key (keyWork x)" "\<not> finality_key keyTipWork" "\<not> finality_key keyTipHeight" "\<not> finality_key keyTipBlockID"
  "\<not> finality_key (keyBal a)" "\<not> finality_key (keyNonce a)"
  "keyTipWork \<noteq> keyTipHeight" "keyTipWork \<noteq> keyTipBlockID" "keyTipHeight \<noteq> keyTipWork" "keyTipBlockID \<noteq> keyTipWork"
  "keyTipWork \<noteq> keyWork x" "keyTipWork \<noteq> keyHashByHeight i" "keyWork x \<noteq> keyTipWork" "keyWork x \<noteq> keyHashByHeight i"
  "kept_key keyTipWork" "kept_key (keyWork x)" "kept_key keyFinalizedHeight" "kept_key keyFinalizedHash_meta"
  "acct_key k \<Longrightarrow> \<not> block_key h n k" "acct_key k \<Longrightarrow> \<not> tip_key k" "acct_key k \<Longrightarrow> k \<noteq> keyTipWork"
  "acct_key k \<Longrightarrow> k \<noteq> keyHashByHeight i"
  using keyHashByHeight_inj [of i n]
  by (auto simp: tip_key_def block_key_def finality_key_def kept_key_def acct_key_def key_defs)

lemma acct_not_finality [simp]: "acct_key k \<Longrightarrow> \<not> finality_key k"
  by (auto simp: finality_key_def acct_key_def prefix_def keyFinalizedHeight_def keyFinalizedHash_meta_def)

lemma acct_wf_changes:
  assumes "changes K V d d'" "\<And>k. acct_key k \<Longrightarrow> \<not> K k"
  shows "acct_wf (V d') = acct_wf (V d)"
  using assms by (simp add: acct_wf_def changes_def)

text \<open>The switch: an error leaves the store; success changes accounts, index and tip.\<close>

definition switch_key :: "bytes \<Rightarrow> bool" where
  "switch_key k \<longleftrightarrow> \<not> kept_key k \<or> k \<in> range keyHashByHeight \<or> tip_key k"

lemma switch_key_simps [simp]: "\<not> switch_key keyTipWork" "\<not> switch_key (keyWork x)" "\<not> switch_key (keyBlockByHash x)"
  by (auto simp: switch_key_def keyTipWork_def keyWork_def keyBlockByHash_def keyHashByHeight_def tip_key_def
      keyTipHeight_def keyTipBlockID_def kept_key_def acct_key_def)

lemma trySwitch_effect:
  assumes "ldb_laws L V" "codec_ok (nc_u64 J) H" "H \<noteq> - 1"
  shows "(\<exists>finH h. anchor L J d = Inr (finH, h) \<and> make_panics 16 (i64 (int_of_u64 (H - finH) + 1)) \<and>
      trySwitchMainChain L J X F env f d tip H = None) \<or>
    (\<exists>e d'. trySwitchMainChain L J X F env f d tip H = Some (e, d') \<and> (e \<noteq> None \<longrightarrow> d' = d) \<and>
      (e = None \<longrightarrow> GetTip L (nc_u64 J) d' = (H, tip, True, None) \<and> acct_wf (V d') \<and> changes switch_key V d d'))"
proof -
  have core: "\<exists>e d'. rebuildStateFromFinalized L J X F env f (snd (SetTip L (nc_u64 J) (index_loop L finH hs d) H tip)) = Some (e, d') \<and>
      GetTip L (nc_u64 J) d' = (H, tip, True, None) \<and> acct_wf (V d') \<and> changes switch_key V d d'" for finH hs
  proof -
    let ?d1 = "index_loop L finH hs d"
    let ?d = "snd (SetTip L (nc_u64 J) ?d1 H tip)"
    obtain e d' where r: "rebuildStateFromFinalized L J X F env f ?d = Some (e, d')" "replay_inv V ?d d'"
      using rebuild_returns [OF assms(1), of J ?d X F env f] GetTip_SetTip(1) [OF assms(1,2)] assms(3) by auto
    have v: "V d' k = V ?d k" if "kept_key k" for k using r(2) that by (simp add: replay_inv_def)
    have "GetTip L (nc_u64 J) d' = (H, tip, True, None)"
      using GetTip_cong [OF assms(1) v v] GetTip_SetTip(1) [OF assms(1,2)] by simp
    moreover have "V d' k = V d k" if k: "\<not> switch_key k" for k
    proof -
      have "kept_key k" "k \<notin> range keyHashByHeight" "k \<noteq> keyTipHeight" "k \<noteq> keyTipBlockID"
        using k unfolding switch_key_def tip_key_def by blast+
      then show ?thesis
        using v [of k] GetTip_SetTip(2) [OF assms(1,2), of ?d1 tip] index_loop_other [OF assms(1), of k finH hs d] by simp
    qed
    ultimately show ?thesis using r by (auto simp: changes_def replay_inv_def)
  qed
  show ?thesis
  proof (cases "anchor L J d")
    case (Inl e)
    then show ?thesis by (simp add: trySwitchMainChain_def)
  next
    case (Inr p)
    obtain finH h where p: "p = (finH, h)" by force
    let ?w = "candidate_walk L (nc_block J) d finH tip H []"
    show ?thesis
    proof (cases "make_panics 16 (i64 (int_of_u64 (H - finH) + 1))")
      case True
      with Inr p show ?thesis by (simp add: trySwitchMainChain_def)
    next
      case False
      show ?thesis
      proof (cases "\<exists>path. ?w = Inr path \<and> last path = h")
        case True
        then obtain path where path: "?w = Inr path" "last path = h" by blast
        from core [of finH "rev path"] False Inr p path show ?thesis by (auto simp: trySwitchMainChain_def Let_def)
      next
        case nb: False
        with False Inr p show ?thesis by (cases ?w) (auto simp: trySwitchMainChain_def)
      qed
    qed
  qed
qed


section \<open>The parts of \<^verbatim>\<open>SubmitBlock\<close>\<close>

lemma put_json_changes:
  assumes "ldb_laws L V" "K k"
  shows "changes K V d (snd (put_json L J d k x))"
  using assms(2) by (auto simp: put_json_def changes_def ldb_Put_view [OF assms(1)] split: sum.split)

lemma tryFinalizeHeight_changes:
  "ldb_laws L V \<Longrightarrow> changes finality_key V d (snd (tryFinalizeHeight L J now n d h b))"
  using tryFinalizeHeight_grew [of L V d J now n h b] by (simp add: grew_def changes_def)

lemma processCheckpointVotes_changes:
  assumes "ldb_laws L V" "processCheckpointVotes L J now n d cp = Some (e, d')"
  shows "changes finality_key V d d'"
proof -
  have t: "changes finality_key V d d2"
    if "tryFinalizeHeight L J now n d1 h b = (e, d2)" "changes finality_key V d d1" for d1 d2 h b
    using tryFinalizeHeight_changes [OF assms(1), of d1 J now n h b] that by (auto intro: changes_trans)
  have p: "changes finality_key V d (snd (PutVote L (co_vote J) d v))" for v
    by (simp add: PutVote_def put_json_changes [OF assms(1)])
  show ?thesis
    using assms(2)
    by (auto simp: processCheckpointVotes_def split: if_splits sum.splits prod.splits option.splits bind_splits
        intro: t p)
qed

lemma processCheckpointVotes_returns:
  assumes "can_sign n"
  shows "\<exists>e d'. processCheckpointVotes L J now n d cp = Some (e, d')"
proof -
  obtain priv where priv: "ParsePriv (fn_localPrivHex n) = Inr priv" using assms by (auto simp: can_sign_def)
  obtain s where s: "SignVote (fn_edwards n) (fn_clamp n) priv (fn_ChainID n) (cp_Height cp) (cp_HashHex cp) = Some s"
    using SignVote_total [OF assms priv] by blast
  show ?thesis by (auto simp: processCheckpointVotes_def priv s split: prod.split option.split)
qed

text \<open>The effect of an extension on the store that holds the block.\<close>

definition ext_key :: "u64 \<Rightarrow> bytes \<Rightarrow> bool" where
  "ext_key n k \<longleftrightarrow> tip_key k \<or> k = keyTipWork \<or> k = keyHashByHeight n \<or> finality_key k"

lemma tip_puts:
  assumes "ldb_laws L V"
    and e_def: "e = snd (PutHashByHeightOverwrite L (snd (PutTipWork L (snd (PutTip L J d n h)) cum)) n h)"
  shows "changes (ext_key n) V d e" "codec_ok J n \<Longrightarrow> GetTip L J e = (n, h, True, None)"
    "V e keyTipWork = Some (PutUint64 cum)" "V e (keyHashByHeight n) = Some h"
proof -
  have t: "V (snd (PutTip L J d n h)) = (V d)(keyTipHeight \<mapsto> marshal_or_nil J n, keyTipBlockID \<mapsto> h)"
  proof -
    obtain d1 where "ldb_Put L d keyTipHeight (marshal_or_nil J n) = (None, d1)"
      "V d1 = (V d)(keyTipHeight \<mapsto> marshal_or_nil J n)"
      using ldb_Put_ok [OF assms(1)] ldb_Put_view [OF assms(1)] by (metis prod.collapse)
    then show ?thesis by (simp add: PutTip_def ldb_Put_view [OF assms(1)])
  qed
  have v: "V e = (V d)(keyTipHeight \<mapsto> marshal_or_nil J n, keyTipBlockID \<mapsto> h, keyTipWork \<mapsto> PutUint64 cum,
      keyHashByHeight n \<mapsto> h)"
    by (simp add: e_def PutHashByHeightOverwrite_def PutTipWork_def put_u64_def ldb_Put_view [OF assms(1)] t)
  have ne: "keyHashByHeight n \<noteq> keyTipHeight" "keyHashByHeight n \<noteq> keyTipBlockID" "keyTipHeight \<noteq> keyTipBlockID"
    by (simp_all add: key_defs)
  show "changes (ext_key n) V d e" by (auto simp: v changes_def ext_key_def tip_key_def)
  show "V e keyTipWork = Some (PutUint64 cum)" "V e (keyHashByHeight n) = Some h" by (simp_all add: v)
  assume "codec_ok J n"
  then obtain x where "jc_Marshal J n = Inr x" "jc_Unmarshal J x = (n, None)" by (auto simp: codec_ok_def)
  then show "GetTip L J e = (n, h, True, None)"
    using ne ne [symmetric]
    by (simp add: GetTip_def db_lookup_eq [OF assms(1)] ldb_Get_eq [OF assms(1)] marshal_or_nil_def v)
qed

lemma extend_tip_effect:
  assumes "ldb_laws (np_L N) V" "codec_ok (nc_u64 (np_J N)) (bh_Height (b_Header b))"
    "extend_tip N now d b h cum = Some (e, d')"
  shows "e \<noteq> None \<Longrightarrow> d' = d"
    "e = None \<Longrightarrow> changes (ext_key (bh_Height (b_Header b))) V d d' \<and>
      GetTip (np_L N) (nc_u64 (np_J N)) d' = (bh_Height (b_Header b), h, True, None) \<and>
      V d' keyTipWork = Some (PutUint64 cum) \<and> V d' (keyHashByHeight (bh_Height (b_Header b))) = Some h"
proof -
  let ?n = "bh_Height (b_Header b)" and ?J = "nc_u64 (np_J N)"
  let ?e = "snd (PutHashByHeightOverwrite (np_L N) (snd (PutTipWork (np_L N) (snd (PutTip (np_L N) ?J d ?n h)) cum)) ?n h)"
  let ?cp = "\<lparr>cp_Height = ?n, cp_HashHex = h, cp_TimeUnix = bh_TimeUnix (b_Header b)\<rparr>"
  let ?e2 = "snd (PutCheckpoint (np_L N) (co_checkpoint (np_JF N)) ?e ?n ?cp)"
  obtain v where v: "ValidateBlockStateTip (np_L N) (np_env N) d b = Some v"
    using assms(3) by (auto simp: extend_tip_def Let_def split: bind_splits)
  show "d' = d" if "e \<noteq> None"
    using assms(3) that v by (auto simp: extend_tip_def Let_def split: option.splits if_splits bind_splits)
  assume e: "e = None"
  have ck: "changes finality_key V ?e ?e2" by (simp add: PutCheckpoint_def put_json_changes [OF assms(1)])
  have "d' = ?e \<or> (\<exists>x. processCheckpointVotes (np_L N) (np_JF N) now (np_fin N) ?e2 ?cp = Some (x, d'))"
    using assms(3) e v by (auto simp: extend_tip_def Let_def split: option.splits if_splits bind_splits)
  then have fin: "changes finality_key V ?e d'"
    by (elim disjE exE) (simp, rule changes_trans [OF ck processCheckpointVotes_changes [OF assms(1)]])
  note puts = tip_puts [OF assms(1) refl, where J = ?J and d = d and n = ?n and h = h and cum = cum]
  have "changes (ext_key ?n) V d d'"
    by (rule changes_trans [OF puts(1) changes_mono [OF fin]]) (simp add: ext_key_def)
  moreover have "GetTip (np_L N) ?J d' = (?n, h, True, None)"
    using puts(2) [OF assms(2)] GetTip_cong [OF assms(1) changesD [OF fin] changesD [OF fin]] by simp
  ultimately show "changes (ext_key ?n) V d d' \<and> GetTip (np_L N) ?J d' = (?n, h, True, None) \<and>
      V d' keyTipWork = Some (PutUint64 cum) \<and> V d' (keyHashByHeight ?n) = Some h"
    using puts(3,4) changesD [OF fin] by simp
qed


section \<open>The block is stored\<close>

text \<open>The types of the records that are read as numbers: eight bytes for accounts, at least eight for work.\<close>

definition typed_store :: "(bytes \<rightharpoonup> bytes) \<Rightarrow> bool" where
  "typed_store m \<longleftrightarrow> acct_wf m \<and> (\<forall>h v. m (keyWork h) = Some v \<longrightarrow> 8 \<le> length v) \<and>
     (\<forall>v. m keyTipWork = Some v \<longrightarrow> 8 \<le> length v)"

definition u64_at :: "(bytes \<rightharpoonup> bytes) \<Rightarrow> bytes \<Rightarrow> u64" where
  "u64_at m k = (case m k of None \<Rightarrow> 0 | Some v \<Rightarrow> of_int (be_int (take 8 v)))"

lemma get_u64_typed:
  assumes "ldb_laws L V" "\<And>v. V d k = Some v \<Longrightarrow> 8 \<le> length v"
  shows "\<exists>ok. get_u64 L d k = Some (u64_at (V d) k, ok, None)"
  using assms(2) by (auto simp: get_u64_def db_lookup_eq [OF assms(1)] u64_at_def Uint64_def split: option.split)

lemma u64_at_put [simp]: "m k = Some (PutUint64 v) \<Longrightarrow> u64_at m k = v"
  by (simp add: u64_at_def)

definition stored_block :: "('d, 'f, 'p, 's) node \<Rightarrow> 'd \<Rightarrow> block \<Rightarrow> string \<Rightarrow> u64 \<Rightarrow> 'd" where
  "stored_block N d b h cum =
     snd (PutWork (np_L N) (snd (PutHeader_any (np_L N) (nc_header (np_J N))
       (snd (PutBlock (np_L N) (nc_block (np_J N)) d h (bh_Height (b_Header b)) b)) h (b_Header b))) h cum)"

lemma stored_block_view:
  assumes "ldb_laws (np_L N) V" "jc_Marshal (nc_block (np_J N)) b = Inr bs"
  shows "changes (block_key h (bh_Height (b_Header b))) V d (stored_block N d b h cum)"
    "V (stored_block N d b h cum) (keyWork h) = Some (PutUint64 cum)"
    "V (stored_block N d b h cum) (keyHashByHeight (bh_Height (b_Header b))) = Some h"
    "V (stored_block N d b h cum) (keyBlockByHash h) = Some bs"
proof -
  have "keyHeaderByHash h \<noteq> keyHashByHeight n" "keyHeaderByHash h \<noteq> keyBlockByHash h" "keyWork h \<noteq> keyBlockByHash h"
    "keyBlockByHash h \<noteq> keyHashByHeight n" "keyWork h \<noteq> keyHashByHeight n" for n
    by (simp_all add: key_defs)
  note ne = this this [symmetric]
  show "changes (block_key h (bh_Height (b_Header b))) V d (stored_block N d b h cum)"
    "V (stored_block N d b h cum) (keyWork h) = Some (PutUint64 cum)"
    "V (stored_block N d b h cum) (keyHashByHeight (bh_Height (b_Header b))) = Some h"
    "V (stored_block N d b h cum) (keyBlockByHash h) = Some bs"
    using ne
    by (auto simp: stored_block_def PutWork_def put_u64_def PutHeader_any_def put_json_def changes_def block_key_def
        ldb_Put_view [OF assms(1)] PutBlock_view [OF assms] split: sum.split)
qed

lemma GetTip_stored:
  assumes "ldb_laws (np_L N) V" "jc_Marshal (nc_block (np_J N)) b = Inr bs"
  shows "GetTip (np_L N) J (stored_block N d b h cum) = GetTip (np_L N) J d"
  by (rule GetTip_cong [OF assms(1)]; rule changesD [OF stored_block_view(1) [OF assms]]; simp)

definition cum_work :: "(bytes \<rightharpoonup> bytes) \<Rightarrow> block \<Rightarrow> u64" where
  "cum_work m b = Cumulative (u64_at m (keyWork (Hash_String (bh_PrevHash (b_Header b))))) (the (Work64 (bh_Bits (b_Header b))))"

lemma accept_block_eq:
  assumes "ldb_laws (np_L N) V" "typed_store (V d)" "jc_Marshal (nc_block (np_J N)) b = Inr bs"
  shows "accept_block N now f d b h (Hash_String (bh_PrevHash (b_Header b))) =
    (case GetTip (np_L N) (nc_u64 (np_J N)) d of
       (tipH, tip, okTip, _) \<Rightarrow>
         if okTip \<and> Hash_String (bh_PrevHash (b_Header b)) = tip \<and> bh_Height (b_Header b) = tipH + 1
         then extend_tip N now (stored_block N d b h (cum_work (V d) b)) b h (cum_work (V d) b)
         else try_fork N f (stored_block N d b h (cum_work (V d) b)) b h (cum_work (V d) b))"
proof -
  let ?L = "np_L N" and ?n = "bh_Height (b_Header b)" and ?prev = "Hash_String (bh_PrevHash (b_Header b))"
  obtain d1 where d1: "PutBlock ?L (nc_block (np_J N)) d h ?n b = (None, d1)"
    "V d1 = (V d)(keyBlockByHash h \<mapsto> bs, keyHashByHeight ?n \<mapsto> h)"
    using PutBlock_view [OF assms(1,3)] by (metis prod.collapse)
  let ?d2 = "snd (PutHeader_any ?L (nc_header (np_J N)) d1 h (b_Header b))"
  have "keyWork x \<noteq> keyBlockByHash y" "keyWork x \<noteq> keyHeaderByHash y" for x y by (simp_all add: key_defs)
  then have w: "V ?d2 (keyWork x) = V d (keyWork x)" for x
    by (auto simp: PutHeader_any_def put_json_def d1(2) ldb_Put_view [OF assms(1)] split: sum.split)
  obtain ok where "get_u64 ?L ?d2 (keyWork ?prev) = Some (u64_at (V ?d2) (keyWork ?prev), ok, None)"
    using get_u64_typed [OF assms(1), of ?d2 "keyWork ?prev"] assms(2) w by (auto simp: typed_store_def)
  then have g: "GetWork ?L ?d2 ?prev = Some (u64_at (V d) (keyWork ?prev), ok, None)"
    using w by (simp add: GetWork_def u64_at_def)
  obtain wk where wk: "Work64 (bh_Bits (b_Header b)) = Some wk" using Work64_total by blast
  have s: "snd (PutWork ?L ?d2 h (cum_work (V d) b)) = stored_block N d b h (cum_work (V d) b)"
    by (simp add: stored_block_def d1(1))
  have c: "Cumulative (u64_at (V d) (keyWork ?prev)) wk = cum_work (V d) b" by (simp add: cum_work_def wk)
  show ?thesis
    unfolding accept_block_def Let_def d1(1) prod.case option.case g Option.bind.bind_lunit wk c s
      GetTip_stored [OF assms(1,3)] ..
qed


section \<open>\<^verbatim>\<open>SubmitBlock\<close>\<close>

definition passes :: "('d, 'f, 'p, 's) node \<Rightarrow> 'd \<Rightarrow> block \<Rightarrow> bool" where
  "passes N d b \<longleftrightarrow> bh_ChainID (b_Header b) = g_ChainID (np_genesis N) \<and> ValidateLimits (np_env N) b = None \<and>
     ValidateBlockBasic (np_env N) b = None \<and> MeetsTarget (Header_Hash (b_Header b)) (bh_Bits (b_Header b)) \<and>
     bh_Height (b_Header b) \<noteq> 0 \<and> link_error N d b = None"

definition block_id :: "block \<Rightarrow> string" where
  "block_id b = Hash_String (Header_Hash (b_Header b))"

definition block_parent :: "block \<Rightarrow> string" where
  "block_parent b = Hash_String (bh_PrevHash (b_Header b))"

text \<open>A block is accepted, or the store is the old one.\<close>

lemma SubmitBlock_cases:
  assumes "SubmitBlock N now f d b = Some (e, d')"
  shows "d' = d \<and> (e = None \<longrightarrow> bh_Height (b_Header b) = 0) \<or>
    passes N d b \<and> accept_block N now f d b (block_id b) (block_parent b) = Some (e, d')"
  using assms
  by (auto simp: SubmitBlock_def Let_def passes_def block_id_def block_parent_def split: if_splits option.splits bind_splits)
    metis+

lemma ValidateBlockStateOnMainParent_returns:
  "\<exists>v. ValidateBlockStateOnMainParent L J F env f d b = Some v"
proof -
  have sim: "\<exists>r. applyBlockToSim env plain_ops c s = Some r" for c s
  proof (cases "ValidateLimits env c = None \<and> ValidateBlockBasic env c = None")
    case True
    then show ?thesis
      using sim_block_refines [of env c s] by (auto simp: applyBlockToSim_def refines_def split: sum.splits)
  qed (auto simp: applyBlockToSim_def split: option.split)
  have fold: "\<exists>r. foldE (parent_step L J env d) xs s = Some r" for xs s
  proof (induction xs arbitrary: s)
    case (Cons x xs)
    have "\<exists>r. parent_step L J env d x s = Some r"
      using sim by (auto simp: parent_step_def split: prod.split) (metis Option.bind.bind_lunit)
    with Cons.IH show ?case by (auto split: sum.split)
  qed simp
  show ?thesis
  proof (cases "bh_Height (b_Header b) = 0")
    case False
    then have "bh_Height (b_Header b) - 1 \<noteq> - 1" by (simp add: diff_eq_eq)
    then have run: "\<exists>r. for_u64 (parent_step L J env d) h (bh_Height (b_Header b) - 1) s = Some r" for h s
      using fold by (simp add: for_u64_eq_foldE)
    have v: "\<exists>v. sim_verdict (applyBlockToSim env plain_ops b s) = Some v" for s
      using sim [of b s] by (auto simp: sim_verdict_def)
    have "\<exists>v. for_u64 (parent_step L J env d) h (bh_Height (b_Header b) - 1) s \<bind>
        (\<lambda>r. case r of Inl (Inl e) \<Rightarrow> Some (Some e)
             | Inl (Inr s) \<Rightarrow> sim_verdict (applyBlockToSim env plain_ops b s)
             | Inr s \<Rightarrow> sim_verdict (applyBlockToSim env plain_ops b s)) = Some v" for h s
      using run [of h s] v by (auto split: sum.split)
    then show ?thesis by (auto simp: ValidateBlockStateOnMainParent_def Let_def split: prod.split)
  qed (simp add: ValidateBlockStateOnMainParent_def)
qed

text \<open>The tip, with the work of its chain recorded twice: for the tip, and for the block.\<close>

definition tip_state :: "('d, 'f, 'p, 's) node \<Rightarrow> ('d \<Rightarrow> bytes \<rightharpoonup> bytes) \<Rightarrow> 'd \<Rightarrow> u64 \<Rightarrow> string \<Rightarrow> u64 \<Rightarrow> bool" where
  "tip_state N V d tipH tip w \<longleftrightarrow> GetTip (np_L N) (nc_u64 (np_J N)) d = (tipH, tip, True, None) \<and>
     V d keyTipWork = Some (PutUint64 w) \<and> V d (keyWork tip) = Some (PutUint64 w)"

lemma Cumulative_ge: "p \<le> Cumulative p x"
  by (simp add: Cumulative_def Let_def not_less)

lemma tip_state_stored:
  assumes "ldb_laws (np_L N) V" "jc_Marshal (nc_block (np_J N)) b = Inr bs" "tip_state N V d tipH tip w" "tip \<noteq> h"
  shows "tip_state N V (stored_block N d b h cum) tipH tip w"
  using assms(3,4) GetTip_stored [OF assms(1,2)] changesD [OF stored_block_view(1) [OF assms(1,2)]]
  by (simp add: tip_state_def)

lemma try_fork_cases:
  assumes "ldb_laws (np_L N) V" "codec_ok (nc_u64 (np_J N)) (bh_Height (b_Header b))" "bh_Height (b_Header b) \<noteq> - 1"
    "V d keyTipWork = Some (PutUint64 w)" "try_fork N f d b h cum = Some (e, d')"
  shows "e = None \<and> (d' = d \<and> (w < cum \<longrightarrow> (\<exists>x. trySwitchMainChain (np_L N) (np_J N) (np_X N) (np_F N) (np_env N) f d h
        (bh_Height (b_Header b)) = Some (Some x, d))) \<or>
      w < cum \<and> GetTip (np_L N) (nc_u64 (np_J N)) d' = (bh_Height (b_Header b), h, True, None) \<and> acct_wf (V d') \<and>
      V d' keyTipWork = Some (PutUint64 cum) \<and> changes (\<lambda>k. switch_key k \<or> k = keyTipWork) V d d')"
proof -
  let ?n = "bh_Height (b_Header b)" and ?J = "nc_u64 (np_J N)"
  have g: "GetTipWork (np_L N) d = Some (w, True, None)"
    by (simp add: GetTipWork_def get_u64_def db_lookup_eq [OF assms(1)] assms(4))
  show ?thesis
  proof (cases "w < cum")
    case False
    with assms(5) g show ?thesis by (simp add: try_fork_def)
  next
    case True
    with assms(5) g obtain x d1 where sw: "trySwitchMainChain (np_L N) (np_J N) (np_X N) (np_F N) (np_env N) f d h ?n = Some (x, d1)"
      "e = None" "d' = (if x = None then snd (PutTipWork (np_L N) d1 cum) else d1)"
      by (auto simp: try_fork_def split: bind_splits)
    with trySwitch_effect [OF assms(1-3), of d "np_X N" "np_F N" "np_env N" f h]
    have eff: "x \<noteq> None \<longrightarrow> d1 = d" "x = None \<longrightarrow> GetTip (np_L N) ?J d1 = (?n, h, True, None) \<and> acct_wf (V d1) \<and> changes switch_key V d d1"
      by auto
    show ?thesis
    proof (cases x)
      case (Some y)
      with sw eff True show ?thesis by auto
    next
      case None
      let ?d = "snd (PutTipWork (np_L N) d1 cum)"
      have v: "V ?d = (V d1)(keyTipWork \<mapsto> PutUint64 cum)"
        by (simp add: PutTipWork_def put_u64_def ldb_Put_view [OF assms(1)])
      have "GetTip (np_L N) ?J ?d = GetTip (np_L N) ?J d1" by (rule GetTip_cong [OF assms(1)]) (simp_all add: v)
      moreover have "acct_wf (V ?d) = acct_wf (V d1)" by (rule acct_wf_changes [of "\<lambda>k. k = keyTipWork"]) (auto simp: changes_def v)
      moreover have "changes (\<lambda>k. switch_key k \<or> k = keyTipWork) V d ?d" using None eff(2) v by (auto simp: changes_def)
      ultimately show ?thesis using None sw eff(2) True v by simp
    qed
  qed
qed


text \<open>Acceptance is an extension of the tip or an attempt to switch, on the store that holds the block.\<close>

lemma accept_block_cases:
  assumes "ldb_laws (np_L N) V" "typed_store (V d)" "GetTip (np_L N) (nc_u64 (np_J N)) d = (tipH, tip, True, None)"
    "accept_block N now f d b (block_id b) (block_parent b) = Some (e, d')"
  obtains (unencodable) "d' = d" "e \<noteq> None"
  | (extension) bs where "jc_Marshal (nc_block (np_J N)) b = Inr bs" "block_parent b = tip" "bh_Height (b_Header b) = tipH + 1"
      "extend_tip N now (stored_block N d b (block_id b) (cum_work (V d) b)) b (block_id b) (cum_work (V d) b) = Some (e, d')"
  | (fork) bs where "jc_Marshal (nc_block (np_J N)) b = Inr bs" "\<not> (block_parent b = tip \<and> bh_Height (b_Header b) = tipH + 1)"
      "try_fork N f (stored_block N d b (block_id b) (cum_work (V d) b)) b (block_id b) (cum_work (V d) b) = Some (e, d')"
proof (cases "jc_Marshal (nc_block (np_J N)) b")
  case (Inl x)
  with assms(4) show ?thesis by (intro unencodable) (auto simp: accept_block_def PutBlock_def Let_def)
next
  case (Inr bs)
  note eq = accept_block_eq [OF assms(1,2) Inr, of now f "block_id b", folded block_parent_def]
  show ?thesis
  proof (cases "block_parent b = tip \<and> bh_Height (b_Header b) = tipH + 1")
    case True
    with eq assms(3,4) Inr show ?thesis by (intro extension) simp_all
  next
    case False
    with eq assms(3,4) Inr show ?thesis by (intro fork) auto
  qed
qed

lemma tip_state_extended:
  assumes "ldb_laws (np_L N) V" "codec_ok (nc_u64 (np_J N)) (bh_Height (b_Header b))" "jc_Marshal (nc_block (np_J N)) b = Inr bs"
    "extend_tip N now (stored_block N d b h cum) b h cum = Some (None, d')"
  shows "tip_state N V d' (bh_Height (b_Header b)) h cum"
proof -
  note eff = extend_tip_effect(2) [OF assms(1,2,4) refl]
  have "V d' (keyWork h) = Some (PutUint64 cum)"
    using changesD [OF eff [THEN conjunct1], of "keyWork h"] stored_block_view(2) [OF assms(1,3)] by (simp add: ext_key_def)
  with eff show ?thesis by (simp add: tip_state_def)
qed

text \<open>
  C1. The tip is the heaviest anchored block submitted. On a well-typed store whose tip carries its
  recorded work, submitting a block other than the tip, whatever the outcome: the tip still
  carries its recorded work, which has not fallen; the tip is the old one, or the new block with the
  work of its parent plus its own; and when the new block is accepted, is heavier and is still not
  the tip, then the switch was refused, that is, its branch does not lead to the finalized block.
\<close>

theorem SubmitBlock_heaviest:
  assumes "ldb_laws (np_L N) V" "typed_store (V d)" "tip_state N V d tipH tip w"
    "codec_ok (nc_u64 (np_J N)) (bh_Height (b_Header b))" "bh_Height (b_Header b) \<noteq> - 1"
    "tip \<noteq> block_id b" "SubmitBlock N now f d b = Some (e, d')"
  shows "\<exists>tipH' tip' w'. tip_state N V d' tipH' tip' w' \<and> w \<le> w' \<and>
    (tipH' = tipH \<and> tip' = tip \<and> w' = w \<and>
       (e = None \<longrightarrow> bh_Height (b_Header b) \<noteq> 0 \<longrightarrow> w < cum_work (V d) b \<longrightarrow>
         (\<exists>x. trySwitchMainChain (np_L N) (np_J N) (np_X N) (np_F N) (np_env N) f d' (block_id b)
            (bh_Height (b_Header b)) = Some (Some x, d'))) \<or>
     e = None \<and> tipH' = bh_Height (b_Header b) \<and> tip' = block_id b \<and> w' = cum_work (V d) b)"
proof -
  let ?h = "block_id b" and ?n = "bh_Height (b_Header b)" and ?cum = "cum_work (V d) b"
  let ?d = "stored_block N d b ?h ?cum"
  have tip: "GetTip (np_L N) (nc_u64 (np_J N)) d = (tipH, tip, True, None)" using assms(3) by (simp add: tip_state_def)
  consider "d' = d" "e = None \<longrightarrow> ?n = 0" | "accept_block N now f d b ?h (block_parent b) = Some (e, d')"
    using SubmitBlock_cases [OF assms(7)] by blast
  then show ?thesis
  proof cases
    case 1
    with assms(3) show ?thesis by auto
  next
    case 2
    with assms(1,2) tip show ?thesis
    proof (cases rule: accept_block_cases)
      case unencodable
      with assms(3) show ?thesis by auto
    next
      case (extension bs)
      have "w \<le> ?cum"
        using extension(2) assms(3) Cumulative_ge [of w] by (simp add: cum_work_def block_parent_def tip_state_def)
      show ?thesis
      proof (cases e)
        case None
        with \<open>w \<le> ?cum\<close> tip_state_extended [OF assms(1,4) extension(1)] extension(4) show ?thesis by blast
      next
        case (Some x)
        with extend_tip_effect(1) [OF assms(1,4) extension(4)] tip_state_stored [OF assms(1) extension(1) assms(3,6)]
        show ?thesis by auto
      qed
    next
      case (fork bs)
      have ts: "tip_state N V ?d tipH tip w" by (rule tip_state_stored [OF assms(1) fork(1) assms(3,6)])
      then have tw: "V ?d keyTipWork = Some (PutUint64 w)" by (simp add: tip_state_def)
      from try_fork_cases [OF assms(1,4,5) tw fork(3)] show ?thesis
      proof (elim conjE disjE)
        assume "d' = ?d" "w < ?cum \<longrightarrow> (\<exists>x. trySwitchMainChain (np_L N) (np_J N) (np_X N) (np_F N) (np_env N) f ?d ?h ?n = Some (Some x, ?d))"
        with ts show ?thesis by blast
      next
        assume e: "e = None" "w < ?cum" "GetTip (np_L N) (nc_u64 (np_J N)) d' = (?n, ?h, True, None)"
          "V d' keyTipWork = Some (PutUint64 ?cum)" "changes (\<lambda>k. switch_key k \<or> k = keyTipWork) V ?d d'"
        have "V d' (keyWork ?h) = Some (PutUint64 ?cum)"
          using changesD [OF e(5), of "keyWork ?h"] stored_block_view(2) [OF assms(1) fork(1)] by simp
        with e show ?thesis by (intro exI [of _ ?n] exI [of _ ?h] exI [of _ ?cum]) (simp add: tip_state_def)
      qed
    qed
  qed
qed


section \<open>The call returns\<close>

lemma diff_heights:
  fixes H finH :: u64
  assumes "uint finH \<le> uint H + 1" "uint H < 2 ^ 44 - 1"
  shows "\<not> make_panics 16 (i64 (int_of_u64 (H - finH) + 1))"
proof -
  have "0 \<le> uint H" "0 \<le> uint finH" by simp_all
  with assms have b: "- 1 \<le> uint H - uint finH" "uint H - uint finH < 2 ^ 44 - 1" by linarith+
  have "uint (H - finH) = (uint H - uint finH) mod 2 ^ 64" by (simp add: uint_word_arith_bintrs(2) take_bit_eq_mod)
  then have "int_of_u64 (H - finH) = i64 (uint H - uint finH)"
    unfolding int_of_u64_def i64_def by (simp add: word_of_int_minus)
  also have "\<dots> = uint H - uint finH" using b by (intro i64_id) (simp add: in_i64_def)
  finally have "i64 (int_of_u64 (H - finH) + 1) = uint H - uint finH + 1"
    using b by (simp only:) (rule i64_id, simp add: in_i64_def)
  with b show ?thesis by (simp add: make_panics_def)
qed

lemma GetFinalized_cong:
  assumes "ldb_laws L V" "V d keyFinalizedHeight = V d' keyFinalizedHeight" "V d keyFinalizedHash_meta = V d' keyFinalizedHash_meta"
  shows "GetFinalized L J d = GetFinalized L J d'"
proof -
  have "ldb_Get L d keyFinalizedHash_meta = ldb_Get L d' keyFinalizedHash_meta"
    "db_lookup L d keyFinalizedHeight = db_lookup L d' keyFinalizedHeight"
    using assms(2,3) by (simp_all add: db_lookup_eq [OF assms(1)] ldb_Get_eq [OF assms(1)])
  then show ?thesis unfolding GetFinalized_def by (simp only:)
qed

lemma anchor_height: "anchor L J d = Inr (finH, h) \<Longrightarrow> finH = 0 \<or> GetFinalized L (nc_u64 J) d = (finH, h, True, None)"
  by (auto simp: anchor_def split: prod.splits option.splits if_splits)

lemma typed_store_stored:
  assumes "ldb_laws (np_L N) V" "jc_Marshal (nc_block (np_J N)) b = Inr bs" "typed_store (V d)"
  shows "typed_store (V (stored_block N d b h cum))"
proof -
  let ?d = "stored_block N d b h cum"
  note view = stored_block_view [OF assms(1,2), where h = h and d = d and cum = cum]
  have "acct_wf (V ?d)" using assms(3) acct_wf_changes [OF view(1)] by (simp add: typed_store_def)
  moreover have "8 \<le> length v" if "V ?d (keyWork x) = Some v" for x v
    using that view(2) changesD [OF view(1), of "keyWork x"] assms(3) by (cases "x = h") (auto simp: typed_store_def)
  moreover have "V ?d keyTipWork = V d keyTipWork" by (rule changesD [OF view(1)]) simp
  ultimately show ?thesis using assms(3) by (simp add: typed_store_def)
qed

lemma extend_tip_typed:
  assumes "ldb_laws (np_L N) V" "codec_ok (nc_u64 (np_J N)) (bh_Height (b_Header b))" "typed_store (V d)"
    "ValidateBlockBasic (np_env N) b = None"
    "fn_finalityEnabled (np_fin N) \<Longrightarrow> fn_checkpointInterval (np_fin N) \<noteq> 0 \<and> can_sign (np_fin N)"
  shows "\<exists>e d'. extend_tip N now d b h cum = Some (e, d') \<and> typed_store (V d')"
proof -
  have wf: "acct_wf (V d)" using assms(3) by (simp add: typed_store_def)
  obtain v where v: "ValidateBlockStateTip (np_L N) (np_env N) d b = Some v"
    using ValidateBlockStateTip_eq [OF assms(1) wf block_shape_basic [OF assms(4)]] by blast
  have "\<exists>e d'. extend_tip N now d b h cum = Some (e, d')"
  proof (cases "v = None \<and> fn_finalityEnabled (np_fin N)")
    case True
    with assms(5) have "can_sign (np_fin N)" by simp
    then have "\<exists>e d'. processCheckpointVotes (np_L N) (np_JF N) now (np_fin N) x cp \<bind> (\<lambda>(_, d). Some (None, d)) = Some (e, d')"
      for x cp
      using processCheckpointVotes_returns [of "np_fin N" "np_L N" "np_JF N" now x cp] by auto
    then show ?thesis using True v assms(5) by (auto simp: extend_tip_def Let_def)
  next
    case False
    with v show ?thesis by (auto simp: extend_tip_def Let_def split: option.split)
  qed
  then obtain e d' where r: "extend_tip N now d b h cum = Some (e, d')" by blast
  have "typed_store (V d')"
  proof (cases e)
    case None
    note eff = extend_tip_effect(2) [OF assms(1,2) r None]
    have "acct_wf (V d')" using acct_wf_changes [OF eff [THEN conjunct1]] wf by (simp add: ext_key_def)
    moreover have "V d' (keyWork x) = V d (keyWork x)" for x
      using changesD [OF eff [THEN conjunct1], of "keyWork x"] by (simp add: ext_key_def)
    ultimately show ?thesis using eff assms(3) by (auto simp: typed_store_def)
  qed (use extend_tip_effect(1) [OF assms(1,2) r] assms(3) in simp)
  with r show ?thesis by blast
qed


lemma try_fork_typed:
  assumes "ldb_laws (np_L N) V" "codec_ok (nc_u64 (np_J N)) (bh_Height (b_Header b))" "typed_store (V d)"
    "uint (bh_Height (b_Header b)) < 2 ^ 44 - 1"
    "\<And>finH h. GetFinalized (np_L N) (nc_u64 (np_J N)) d = (finH, h, True, None) \<Longrightarrow> uint finH \<le> uint (bh_Height (b_Header b)) + 1"
  shows "\<exists>e d'. try_fork N f d b h cum = Some (e, d') \<and> typed_store (V d')"
proof -
  let ?n = "bh_Height (b_Header b)"
  have top: "?n \<noteq> - 1" using assms(4) by (auto simp: unsigned_minus_1_eq_mask mask_eq_exp_minus_1)
  obtain w ok where g: "GetTipWork (np_L N) d = Some (w, ok, None)"
    using get_u64_typed [OF assms(1), of d keyTipWork] assms(3) by (auto simp: GetTipWork_def typed_store_def)
  have low: "\<not> make_panics 16 (i64 (int_of_u64 (?n - finH) + 1))" if "anchor (np_L N) (np_J N) d = Inr (finH, x)" for finH x
    using anchor_height [OF that] assms(4,5) by (intro diff_heights) auto
  obtain e d' where sw: "trySwitchMainChain (np_L N) (np_J N) (np_X N) (np_F N) (np_env N) f d h ?n = Some (e, d')"
    "e \<noteq> None \<longrightarrow> d' = d" "e = None \<longrightarrow> acct_wf (V d') \<and> changes switch_key V d d'"
    using trySwitch_effect [OF assms(1,2) top, of d "np_X N" "np_F N" "np_env N" f h] low by blast
  have t: "typed_store (V d')"
  proof (cases e)
    case None
    with sw(3) have "V d' (keyWork x) = V d (keyWork x)" "V d' keyTipWork = V d keyTipWork" for x
      by (auto intro: changesD)
    with None sw(3) assms(3) show ?thesis by (simp add: typed_store_def)
  qed (use sw(2) assms(3) in simp)
  let ?d = "snd (PutTipWork (np_L N) d' cum)"
  have "V ?d = (V d')(keyTipWork \<mapsto> PutUint64 cum)"
    by (simp add: PutTipWork_def put_u64_def ldb_Put_view [OF assms(1)])
  then have "acct_wf (V ?d)" "V ?d (keyWork x) = V d' (keyWork x)" "V ?d keyTipWork = Some (PutUint64 cum)" for x
    using t acct_wf_changes [of "\<lambda>k. k = keyTipWork" V d' ?d] by (auto simp: changes_def typed_store_def)
  with t have "typed_store (V ?d)" by (simp add: typed_store_def)
  with g sw(1) t assms(3) show ?thesis by (auto simp: try_fork_def)
qed

text \<open>
  C9. \<^verbatim>\<open>SubmitBlock\<close> is well typed: on a healthy store in which every balance and nonce has
  eight bytes and every work record at least eight, the call returns, without a panic or an endless
  loop, for every block that does not lie two or more below the finalized height and lies below
  \<open>2 ^ 44 - 1\<close>, and the store it leaves has the same types. (Outside these heights the choice of the
  main chain may panic.) When finality is on, the checkpoint interval must not be zero and the node
  must hold a key that parses.
\<close>

theorem SubmitBlock_typed:
  assumes "ldb_laws (np_L N) V" "typed_store (V d)" "codec_ok (nc_u64 (np_J N)) (bh_Height (b_Header b))"
    "uint (bh_Height (b_Header b)) < 2 ^ 44 - 1"
    "\<And>finH h. GetFinalized (np_L N) (nc_u64 (np_J N)) d = (finH, h, True, None) \<Longrightarrow> uint finH \<le> uint (bh_Height (b_Header b)) + 1"
    "fn_finalityEnabled (np_fin N) \<Longrightarrow> fn_checkpointInterval (np_fin N) \<noteq> 0 \<and> can_sign (np_fin N)"
  shows "\<exists>e d'. SubmitBlock N now f d b = Some (e, d') \<and> typed_store (V d')"
proof -
  let ?h = "block_id b" and ?cum = "cum_work (V d) b"
  have acc: "\<exists>e d'. accept_block N now f d b ?h (block_parent b) = Some (e, d') \<and> typed_store (V d')"
    if basic: "ValidateBlockBasic (np_env N) b = None"
  proof (cases "jc_Marshal (nc_block (np_J N)) b")
    case (Inl x)
    with assms(2) show ?thesis by (simp add: accept_block_def PutBlock_def Let_def)
  next
    case (Inr bs)
    let ?d = "stored_block N d b ?h ?cum"
    have t: "typed_store (V ?d)" by (rule typed_store_stored [OF assms(1) Inr assms(2)])
    have "GetFinalized (np_L N) (nc_u64 (np_J N)) ?d = GetFinalized (np_L N) (nc_u64 (np_J N)) d"
      by (rule GetFinalized_cong [OF assms(1)]; rule changesD [OF stored_block_view(1) [OF assms(1) Inr]]; simp)
    with extend_tip_typed [OF assms(1,3) t basic assms(6), of now ?h ?cum] try_fork_typed [OF assms(1,3) t assms(4), of f ?h ?cum]
      assms(5) show ?thesis
      unfolding accept_block_eq [OF assms(1,2) Inr, of now f ?h, folded block_parent_def] by (auto split: prod.split)
  qed
  obtain v where "ValidateBlockStateOnMainParent (np_L N) (np_J N) (np_F N) (np_env N) f d b = Some v"
    using ValidateBlockStateOnMainParent_returns [of "np_L N" "np_J N" "np_F N" "np_env N" f d b] by blast
  with acc assms(2) show ?thesis
    by (auto simp: SubmitBlock_def Let_def block_id_def block_parent_def split: option.split)
qed

section \<open>What an accepted block does not do\<close>

text \<open>
  C25. A block that extends the tip is not applied: when \<^verbatim>\<open>SubmitBlock\<close> accepts a block on top of
  the tip, the tip moves to it and its height in the index is its own, but every balance and nonce
  is what it was, whatever transactions the block holds.
\<close>

theorem extension_moves_no_money:
  assumes "ldb_laws (np_L N) V" "typed_store (V d)" "GetTip (np_L N) (nc_u64 (np_J N)) d = (tipH, block_parent b, True, None)"
    "bh_Height (b_Header b) = tipH + 1" "bh_Height (b_Header b) \<noteq> 0" "codec_ok (nc_u64 (np_J N)) (bh_Height (b_Header b))"
    "SubmitBlock N now f d b = Some (None, d')"
  shows "GetTip (np_L N) (nc_u64 (np_J N)) d' = (bh_Height (b_Header b), block_id b, True, None) \<and>
    GetHashByHeight (np_L N) d' (bh_Height (b_Header b)) = (block_id b, True, None) \<and>
    bal_of (V d') = bal_of (V d) \<and> non_of (V d') = non_of (V d)"
proof -
  let ?d = "stored_block N d b (block_id b) (cum_work (V d) b)"
  have acc: "accept_block N now f d b (block_id b) (block_parent b) = Some (None, d')"
    using SubmitBlock_cases [OF assms(7)] assms(5) by blast
  have "bs = bs' \<Longrightarrow> bs' = bs" for bs bs' :: bytes by simp
  from assms(1-3) acc show ?thesis
  proof (cases rule: accept_block_cases)
    case (extension bs)
    note eff = extend_tip_effect(2) [OF assms(1,6) extension(4) refl]
    have "V d' k = V d k" if "acct_key k" for k
      using that changesD [OF eff [THEN conjunct1], of k] changesD [OF stored_block_view(1) [OF assms(1) extension(1)], of _ k]
      by (simp add: ext_key_def)
    then have "bal_of (V d') = bal_of (V d)" "non_of (V d') = non_of (V d)" by (simp_all add: bal_of_def non_of_def fun_eq_iff)
    with eff show ?thesis by (simp add: GetHashByHeight_view [OF assms(1)])
  qed (use assms(4) in auto)
qed

text \<open>
  C26. A block that loses the choice of the main chain takes its place in the index. When a block on
  a side branch is accepted and is not heavier than the tip, the tip stays, but the index of the
  main chain names the new block at its height.
\<close>

theorem losing_block_takes_index:
  assumes "ldb_laws (np_L N) V" "typed_store (V d)" "tip_state N V d tipH tip w" "tip \<noteq> block_id b"
    "\<not> (block_parent b = tip \<and> bh_Height (b_Header b) = tipH + 1)" "bh_Height (b_Header b) \<noteq> 0"
    "cum_work (V d) b \<le> w" "SubmitBlock N now f d b = Some (None, d')"
  shows "GetTip (np_L N) (nc_u64 (np_J N)) d' = (tipH, tip, True, None) \<and>
    GetHashByHeight (np_L N) d' (bh_Height (b_Header b)) = (block_id b, True, None)"
proof -
  let ?d = "stored_block N d b (block_id b) (cum_work (V d) b)"
  have tip: "GetTip (np_L N) (nc_u64 (np_J N)) d = (tipH, tip, True, None)" using assms(3) by (simp add: tip_state_def)
  have "accept_block N now f d b (block_id b) (block_parent b) = Some (None, d')"
    using SubmitBlock_cases [OF assms(8)] assms(6) by blast
  with assms(1,2) tip show ?thesis
  proof (cases rule: accept_block_cases)
    case (fork bs)
    have ts: "tip_state N V ?d tipH tip w" by (rule tip_state_stored [OF assms(1) fork(1) assms(3,4)])
    then have "GetTipWork (np_L N) ?d = Some (w, True, None)"
      by (simp add: tip_state_def GetTipWork_def get_u64_def db_lookup_eq [OF assms(1)])
    moreover have "\<not> w < cum_work (V d) b" using assms(7) by simp
    ultimately have "d' = ?d" using fork(3) by (simp add: try_fork_def)
    with ts stored_block_view(3) [OF assms(1) fork(1)] show ?thesis
      by (simp add: tip_state_def GetHashByHeight_view [OF assms(1)])
  qed (use assms(5) in auto)
qed


section \<open>A node with which the statements are evaluated\<close>

definition sample_next :: block where
  "sample_next = \<lparr>b_Header = zero_header\<lparr>bh_Height := 1, bh_ChainID := ''reserve-test'', bh_Bits := 0x227fffff\<rparr>,
     b_Txs = [sample_transfer]\<rparr>"

definition sample_chain_codecs :: node_codecs where
  "sample_chain_codecs = \<lparr>nc_u64 = table_codec 0 [(''0'', 0), (''1'', 1)], nc_tx = no_codec zero_tx,
     nc_block = table_codec zero_block [(''G'', zero_block), (''B'', sample_next)],
     nc_header = no_codec zero_header, nc_snap = \<lparr>sc_json = no_codec zero_snapshot, sc_gob = no_codec zero_snapshot\<rparr>\<rparr>"

definition sample_node :: "((bytes \<times> bytes) list, unit, unit, unit) node" where
  "sample_node = \<lparr>np_L = alist_db, np_J = sample_chain_codecs, np_JF = Quorum.sample_codecs, np_JG = no_codec sample_genesis,
     np_X = sample_ext, np_F = no_files, np_fin = sample_fin_node\<lparr>fn_finalityEnabled := False\<rparr>,
     np_NextWorkRequired = (\<lambda>_ _ _. (0, False))\<rparr>"

text \<open>A store whose tip is \<open>tip\<close>, with genesis and one funded account.\<close>

definition sample_tip_store :: "bytes \<Rightarrow> string \<Rightarrow> u64 \<Rightarrow> (bytes \<times> bytes) list" where
  "sample_tip_store n tip w = [(keyTipWork, PutUint64 w), (keyTipHeight, n), (keyTipBlockID, tip),
     (keyWork tip, PutUint64 w), (keyWork (Hash_String zero_hash), PutUint64 5),
     (keyBlockByHash (Hash_String zero_hash), ''G''), (keyBal sample_key, PutUint64 2000)]"

lemma sample_node_simps [simp]:
  "np_L sample_node = alist_db" "np_J sample_node = sample_chain_codecs" "np_env sample_node = sample_env"
  "np_F sample_node = no_files" "\<not> fn_finalityEnabled (np_fin sample_node)"
  "bh_Height (b_Header sample_next) = 1" "block_parent sample_next = Hash_String zero_hash"
  "jc_Marshal (nc_block sample_chain_codecs) sample_next = Inr ''B''"
  "codec_ok (nc_u64 sample_chain_codecs) 1"
  "jc_Unmarshal (nc_u64 sample_chain_codecs) ''0'' = (0, None)" "jc_Unmarshal (nc_u64 sample_chain_codecs) ''1'' = (1, None)"
  by (simp_all add: sample_node_def sample_fin_node_def sample_next_def block_parent_def zero_header_def
      sample_chain_codecs_def table_codec_def zero_block_def codec_ok_def)

lemma sample_passes: "passes sample_node (sample_tip_store n tip w) sample_next"
proof -
  have "HashToBig (Header_Hash h) < 256 ^ 32" for h
    using big_SetBytes_less [of "Header_Hash h"] by (simp only: HashToBig_def Header_Hash_length)
  then have "HashToBig (Header_Hash h) \<le> CompactToBig 0x227fffff" for h using easy_bits by (meson less_imp_le order_trans)
  moreover have "0 < CompactToBig 0x227fffff" by code_simp
  ultimately have "MeetsTarget (Header_Hash (b_Header sample_next)) (bh_Bits (b_Header sample_next))"
    by (simp add: MeetsTarget_def sample_next_def)
  moreover have "link_error sample_node (sample_tip_store n tip w) sample_next = None"
    by (simp add: link_error_def GetBlockByHash_def db_lookup_eq [OF alist_db_laws] sample_tip_store_def sample_node_def
        key_defs sample_chain_codecs_def table_codec_def sample_next_def zero_header_def zero_block_def)
  moreover have "ValidateBlockBasic sample_env sample_next = None"
    using sample_block_basic [of "tx_Outputs sample_transfer" "b_Header sample_next"]
    by (simp add: sample_next_def sample_transfer_def)
  moreover have "ValidateLimits sample_env sample_next = None" by code_simp
  moreover have "bh_ChainID (b_Header sample_next) = g_ChainID (np_genesis sample_node)"
    by (simp add: sample_next_def sample_env_def sample_genesis_def)
  ultimately show ?thesis by (simp add: passes_def)
qed


lemma SubmitBlock_passes:
  assumes "passes N d b" "\<not> va_ValidateForkState (cfg_Validation (np_cfg N))"
  shows "SubmitBlock N now f d b = accept_block N now f d b (block_id b) (block_parent b)"
  using assms
  by (simp add: passes_def SubmitBlock_def Let_def ValidateBlockStateOnMainParent_def block_id_def block_parent_def)

lemma sample_submit:
  "SubmitBlock sample_node now () (sample_tip_store n tip w) sample_next =
     accept_block sample_node now () (sample_tip_store n tip w) sample_next (block_id sample_next) (Hash_String zero_hash)"
  using SubmitBlock_passes [OF sample_passes, of now "()" n tip w]
  by (simp add: sample_env_def sample_config_def)

lemma sample_store_typed: "typed_store (map_of (sample_tip_store n tip w))"
proof -
  have "keyTipWork \<noteq> keyBal a" "keyTipWork \<noteq> keyNonce a" "keyTipHeight \<noteq> keyBal a" "keyTipHeight \<noteq> keyNonce a"
    "keyTipBlockID \<noteq> keyBal a" "keyTipBlockID \<noteq> keyNonce a" "keyWork x \<noteq> keyBal a" "keyWork x \<noteq> keyNonce a"
    "keyBlockByHash x \<noteq> keyBal a" "keyBlockByHash x \<noteq> keyNonce a" "keyBlockByHash x \<noteq> keyWork y" "keyBal a \<noteq> keyWork y"
    "keyTipHeight \<noteq> keyWork x" "keyTipBlockID \<noteq> keyWork x" for a x y
    by (simp_all add: key_defs)
  note ne = this this [symmetric]
  show ?thesis
    using ne by (auto simp: typed_store_def acct_wf_def sample_tip_store_def split: if_splits)
qed

lemma sample_tip_state:
  assumes "jc_Unmarshal (nc_u64 sample_chain_codecs) n = (tipH, None)"
  shows "tip_state sample_node map_of (sample_tip_store n tip w) tipH tip w"
proof -
  have "keyTipWork \<noteq> keyTipHeight" "keyTipWork \<noteq> keyTipBlockID" "keyTipHeight \<noteq> keyTipBlockID" "keyTipWork \<noteq> keyWork tip"
    "keyTipHeight \<noteq> keyWork tip" "keyTipBlockID \<noteq> keyWork tip"
    by (simp_all add: key_defs)
  note ne = this this [symmetric]
  show ?thesis
    using ne assms
    by (simp add: tip_state_def GetTip_def db_lookup_eq [OF alist_db_laws] ldb_Get_eq [OF alist_db_laws] sample_tip_store_def)
qed

lemma sample_not_tip: "Hash_String zero_hash \<noteq> ''h1''"
  by code_simp

lemma sample_id_length: "length (block_id b) = 64"
  by (simp add: block_id_def)


lemma sample_cum: "cum_work (map_of (sample_tip_store n ''h1'' w)) sample_next = 7"
  "cum_work (map_of (sample_tip_store n (Hash_String zero_hash) 5)) sample_next = 7"
proof -
  have w: "Work64 0x227fffff = Some 2" by code_simp
  have "keyTipWork \<noteq> keyWork x" "keyTipHeight \<noteq> keyWork x" "keyTipBlockID \<noteq> keyWork x"
    "keyWork x = keyWork y \<longleftrightarrow> x = y" for x y
    by (simp_all add: key_defs)
  note ne = this this [symmetric]
  have "u64_at (map_of (sample_tip_store n ''h1'' w)) (keyWork (Hash_String zero_hash)) = 5"
    "u64_at (map_of (sample_tip_store n (Hash_String zero_hash) 5)) (keyWork (Hash_String zero_hash)) = 5"
    using ne sample_not_tip by (auto intro!: u64_at_put simp: sample_tip_store_def)
  then show "cum_work (map_of (sample_tip_store n ''h1'' w)) sample_next = 7"
    "cum_work (map_of (sample_tip_store n (Hash_String zero_hash) 5)) sample_next = 7"
    using w by (simp_all add: cum_work_def sample_next_def zero_header_def Cumulative_def)
qed

lemma sample_h1: "''h1'' \<noteq> block_id b"
proof
  assume "''h1'' = block_id b"
  with sample_id_length [of b] have "length ''h1'' = 64" by (simp only:)
  then show False by simp
qed

text \<open>The block loses against a tip of work 9.\<close>

lemma sample_loses:
  "\<exists>d'. SubmitBlock sample_node now () (sample_tip_store ''1'' ''h1'' 9) sample_next = Some (None, d')"
proof -
  let ?d = "sample_tip_store ''1'' ''h1'' 9"
  let ?s = "stored_block sample_node ?d sample_next (block_id sample_next) 7"
  have laws: "ldb_laws (np_L sample_node) map_of" by (simp add: alist_db_laws)
  have m: "jc_Marshal (nc_block (np_J sample_node)) sample_next = Inr ''B''" by simp
  have ts: "tip_state sample_node map_of ?d 1 ''h1'' 9" by (rule sample_tip_state) simp
  then have tip: "GetTip alist_db (nc_u64 sample_chain_codecs) ?d = (1, ''h1'', True, None)" by (simp add: tip_state_def)
  have "tip_state sample_node map_of ?s 1 ''h1'' 9" by (rule tip_state_stored [OF laws m ts sample_h1])
  then have "GetTipWork alist_db ?s = Some (9, True, None)"
    by (simp add: tip_state_def GetTipWork_def get_u64_def db_lookup_eq [OF alist_db_laws])
  then have "try_fork sample_node () ?s sample_next (block_id sample_next) 7 = Some (None, ?s)"
    by (simp add: try_fork_def)
  then have "accept_block sample_node now () ?d sample_next (block_id sample_next) (Hash_String zero_hash) = Some (None, ?s)"
    using accept_block_eq [OF laws sample_store_typed m, of now "()" ] tip sample_not_tip
    by (simp add: sample_cum flip: block_parent_def)
  then show ?thesis by (simp add: sample_submit)
qed

theorem losing_block_takes_index_witness:
  "\<exists>d'. SubmitBlock sample_node 0 () (sample_tip_store ''1'' ''h1'' 9) sample_next = Some (None, d') \<and>
    GetTip alist_db (nc_u64 sample_chain_codecs) d' = (1, ''h1'', True, None) \<and>
    GetHashByHeight alist_db d' 1 = (block_id sample_next, True, None)"
proof -
  have laws: "ldb_laws (np_L sample_node) map_of" by (simp add: alist_db_laws)
  have ts: "tip_state sample_node map_of (sample_tip_store ''1'' ''h1'' 9) 1 ''h1'' 9" by (rule sample_tip_state) simp
  obtain d' where d': "SubmitBlock sample_node 0 () (sample_tip_store ''1'' ''h1'' 9) sample_next = Some (None, d')"
    using sample_loses by blast
  with losing_block_takes_index [OF laws sample_store_typed ts sample_h1 _ _ _ d'] sample_not_tip show ?thesis
    by (simp add: sample_cum)
qed

theorem SubmitBlock_heaviest_witness:
  "\<exists>d' tipH' tip' w'. SubmitBlock sample_node 0 () (sample_tip_store ''1'' ''h1'' 9) sample_next = Some (None, d') \<and>
    tip_state sample_node map_of d' tipH' tip' w' \<and> 9 \<le> w'"
proof -
  have laws: "ldb_laws (np_L sample_node) map_of" by (simp add: alist_db_laws)
  have ts: "tip_state sample_node map_of (sample_tip_store ''1'' ''h1'' 9) 1 ''h1'' 9" by (rule sample_tip_state) simp
  obtain d' where d': "SubmitBlock sample_node 0 () (sample_tip_store ''1'' ''h1'' 9) sample_next = Some (None, d')"
    using sample_loses by blast
  have c: "codec_ok (nc_u64 (np_J sample_node)) (bh_Height (b_Header sample_next))" "bh_Height (b_Header sample_next) \<noteq> - 1"
    by simp_all
  from SubmitBlock_heaviest [OF laws sample_store_typed ts c sample_h1 d'] d' show ?thesis by blast
qed

text \<open>The same node with finality on and a key.\<close>

definition voting_node :: "((bytes \<times> bytes) list, unit, unit, unit) node" where
  "voting_node = sample_node\<lparr>np_fin := sample_fin_node\<lparr>fn_localPrivHex := replicate 128 (CHR ''0'')\<rparr>\<rparr>"

theorem SubmitBlock_typed_witness:
  "\<exists>e d'. SubmitBlock voting_node 0 () (sample_tip_store ''1'' ''h1'' 9) sample_next = Some (e, d') \<and> typed_store (map_of d')"
proof -
  have laws: "ldb_laws (np_L voting_node) map_of" by (simp add: voting_node_def alist_db_laws)
  have sign: "can_sign (np_fin voting_node)" "fn_checkpointInterval (np_fin voting_node) = 20"
    by (simp_all add: can_sign_def ParsePriv_def sample_hex voting_node_def sample_fin_node_def sample_env_def unit_edwards_def)
  have J: "np_J voting_node = sample_chain_codecs" "np_L voting_node = alist_db" by (simp_all add: voting_node_def)
  have "GetFinalized alist_db (nc_u64 sample_chain_codecs) (sample_tip_store ''1'' ''h1'' 9) = (0, [], False, None)"
    by (simp add: GetFinalized_def db_lookup_eq [OF alist_db_laws] sample_tip_store_def key_defs)
  then show ?thesis
    using SubmitBlock_typed [OF laws sample_store_typed, where b = sample_next and now = 0 and f = "()" and
        n1 = "''1''" and tip1 = "''h1''" and w1 = 9] sign by (simp add: J)
qed


text \<open>The block extends a tip that is its parent.\<close>

lemma sample_funded:
  assumes "changes (block_key h 1) map_of (sample_tip_store n tip w) s"
  shows "acct_wf (map_of s)" "bal_of (map_of s) = bal_of (map_of sample_funds)" "non_of (map_of s) = non_of (map_of sample_funds)"
proof -
  have v: "map_of s k = map_of (sample_tip_store n tip w) k" if "acct_key k" for k using assms that by (auto intro: changesD)
  have "map_of (sample_tip_store n tip w) (keyBal a) = map_of sample_funds (keyBal a)"
    "map_of (sample_tip_store n tip w) (keyNonce a) = map_of sample_funds (keyNonce a)" for a
    by (simp_all add: sample_tip_store_def sample_funds_def key_defs)
  with v show "bal_of (map_of s) = bal_of (map_of sample_funds)" "non_of (map_of s) = non_of (map_of sample_funds)"
    by (simp_all add: bal_of_def non_of_def fun_eq_iff)
  show "acct_wf (map_of s)" using acct_wf_changes [OF assms] sample_store_typed by (simp add: typed_store_def)
qed

lemma sample_extends:
  "\<exists>d'. SubmitBlock sample_node now () (sample_tip_store ''0'' (Hash_String zero_hash) 5) sample_next = Some (None, d')"
proof -
  let ?d = "sample_tip_store ''0'' (Hash_String zero_hash) 5"
  let ?s = "stored_block sample_node ?d sample_next (block_id sample_next) 7"
  have laws: "ldb_laws (np_L sample_node) map_of" by (simp add: alist_db_laws)
  have m: "jc_Marshal (nc_block (np_J sample_node)) sample_next = Inr ''B''" by simp
  have "tip_state sample_node map_of ?d 0 (Hash_String zero_hash) 5" by (rule sample_tip_state) simp
  then have tip: "GetTip alist_db (nc_u64 sample_chain_codecs) ?d = (0, Hash_String zero_hash, True, None)" by (simp add: tip_state_def)
  have basic: "ValidateBlockBasic sample_env sample_next = None" using sample_passes by (simp add: passes_def)
  have ch: "changes (block_key (block_id sample_next) 1) map_of ?d ?s" using stored_block_view(1) [OF laws m] by simp
  have "led_block sample_env sample_next x = led_block sample_env sample_block x" for x
    by (simp add: led_block_def sample_next_def sample_block_def)
  then have "ValidateBlockStateTip alist_db sample_env ?s sample_next = Some None"
    using ValidateBlockStateTip_eq [OF alist_db_laws sample_funded(1) [OF ch] block_shape_basic [OF basic]] ValidateBlockBasicD(1) [OF basic]
    by (simp add: sample_funded(2,3) [OF ch] sample_led)
  then have "\<exists>d'. extend_tip sample_node now ?s sample_next (block_id sample_next) 7 = Some (None, d')"
    by (simp add: extend_tip_def Let_def)
  then have "\<exists>d'. accept_block sample_node now () ?d sample_next (block_id sample_next) (Hash_String zero_hash) = Some (None, d')"
    using accept_block_eq [OF laws sample_store_typed m, of now "()"] tip
    by (simp add: sample_cum flip: block_parent_def)
  then show ?thesis by (simp add: sample_submit)
qed

theorem extension_moves_no_money_witness:
  "\<exists>d'. SubmitBlock sample_node 0 () (sample_tip_store ''0'' (Hash_String zero_hash) 5) sample_next = Some (None, d') \<and>
    GetTip alist_db (nc_u64 sample_chain_codecs) d' = (1, block_id sample_next, True, None) \<and>
    bal_of (map_of d') ''bob'' = 0 \<and> bal_of (map_of d') sample_key = 2000"
proof -
  let ?d = "sample_tip_store ''0'' (Hash_String zero_hash) 5"
  have laws: "ldb_laws (np_L sample_node) map_of" by (simp add: alist_db_laws)
  have "tip_state sample_node map_of ?d 0 (Hash_String zero_hash) 5" by (rule sample_tip_state) simp
  then have tip: "GetTip (np_L sample_node) (nc_u64 (np_J sample_node)) ?d = (0, block_parent sample_next, True, None)"
    by (simp add: tip_state_def)
  obtain d' where d': "SubmitBlock sample_node 0 () ?d sample_next = Some (None, d')" using sample_extends by blast
  have "changes (block_key h 1) map_of ?d ?d" for h by simp
  note funds = sample_funded(2) [OF this]
  have "sample_key \<noteq> ''bob''" by code_simp
  with extension_moves_no_money [OF laws sample_store_typed tip _ _ _ d'] d' show ?thesis
    by (simp add: funds sample_funds_view)
qed

end
