(* ===== verification/Mining.thy ===== *)
theory Mining
  imports SubmitProps
begin

text \<open>
  Mining a block, \<^verbatim>\<open>MineOne\<close> of \<^verbatim>\<open>core/node/node.go\<close>, across the components it calls: the
  mempool gives its transactions, the selection keeps those the accounts allow, the header links to
  the tip, the search for a nonce ends, and the block is accepted as the new tip.
\<close>


lemma MineHeader_returns:
  assumes "good_nonce h k"
  obtains n where "MineHeader h = Some (Header_Hash (h\<lparr>bh_Nonce := n\<rparr>), n, h\<lparr>bh_Nonce := n\<rparr>)" "good_nonce h n"
proof -
  define P where "P i = good_nonce h (bh_Nonce h + of_nat i)" for i
  have "P (unat (k - bh_Nonce h))" using assms by (simp add: P_def)
  then have "P (LEAST i. P i)" "\<forall>i < (LEAST i. P i). \<not> P i" by (auto intro: LeastI dest: not_less_Least)
  with MineHeader_skip [of "LEAST i. P i" h] that show ?thesis by (simp add: P_def Let_def)
qed

definition pool_key :: "bytes \<Rightarrow> bool" where
  "pool_key k \<longleftrightarrow> prefix ''mempool:tx:'' k"

lemma pool_key_simps [simp]:
  "\<not> pool_key (keyBlockByHash x)" "\<not> pool_key (keyWork x)" "\<not> pool_key keyTipWork" "\<not> pool_key (keyHashByHeight i)"
  "\<not> pool_key keyTipHeight" "\<not> pool_key keyTipBlockID"
  by (simp_all add: pool_key_def key_defs)

lemma acct_not_pool: "acct_key k \<Longrightarrow> \<not> pool_key k"
  by (auto simp: acct_key_def pool_key_def prefix_def)

lemma DelMempoolTx_changes:
  assumes "ldb_laws L V"
  shows "changes pool_key V d (foldl (\<lambda>d tx. DelMempoolTx L d (g tx)) d txs)"
proof (induction txs arbitrary: d)
  case (Cons tx txs)
  have "changes pool_key V d (DelMempoolTx L d (g tx))"
    by (auto simp: changes_def DelMempoolTx_def ldb_Delete_view [OF assms] pool_key_def keyMempoolTx_def)
  from changes_trans [OF this Cons.IH] show ?case by simp
qed simp

lemma GetBlockByHeight_changes:
  assumes "ldb_laws L V" "changes K V d d'" "\<And>h. \<not> K (keyHashByHeight h)" "\<And>h. \<not> K (keyBlockByHash h)"
  shows "GetBlockByHeight L J d' = GetBlockByHeight L J d"
proof
  fix h
  have "GetHashByHeight L d' h = GetHashByHeight L d h"
    using changesD [OF assms(2,3)] by (simp add: GetHashByHeight_view [OF assms(1)])
  moreover have "GetBlockByHash L J d' x = GetBlockByHash L J d x" for x
    using changesD [OF assms(2,4)] by (rule GetBlockByHash_cong [OF assms(1)])
  ultimately show "GetBlockByHeight L J d' h = GetBlockByHeight L J d h" by (simp add: GetBlockByHeight_def split: prod.split)
qed

lemma ValidateBlockStateTip_cong:
  assumes "ldb_laws L V" "acct_wf (V d)" "changes K V d d'" "\<And>k. acct_key k \<Longrightarrow> \<not> K k" "block_shape env b"
  shows "ValidateBlockStateTip L env d' b = ValidateBlockStateTip L env d b"
proof -
  have "V d' k = V d k" if "acct_key k" for k using assms(3,4) that by (auto intro: changesD)
  then have "bal_of (V d') = bal_of (V d)" "non_of (V d') = non_of (V d)" by (simp_all add: bal_of_def non_of_def fun_eq_iff)
  moreover have "acct_wf (V d')" using acct_wf_changes [OF assms(3,4)] assms(2) by simp
  ultimately show ?thesis by (simp add: ValidateBlockStateTip_eq [OF assms(1) _ assms(5)] assms(2))
qed

lemma extend_tip_ok:
  assumes "ValidateBlockStateTip (np_L N) (np_env N) d b = Some None"
    "fn_finalityEnabled (np_fin N) \<Longrightarrow> fn_checkpointInterval (np_fin N) \<noteq> 0 \<and> can_sign (np_fin N)"
  shows "\<exists>d'. extend_tip N now d b h cum = Some (None, d')"
proof (cases "fn_finalityEnabled (np_fin N)")
  case True
  with assms(2) have "can_sign (np_fin N)" by simp
  then have "\<exists>d'. processCheckpointVotes (np_L N) (np_JF N) now (np_fin N) x cp \<bind> (\<lambda>(_, d). Some (None, d)) = Some (None, d')" for x cp
    using processCheckpointVotes_returns [of "np_fin N" "np_L N" "np_JF N" now x cp] by auto
  with True assms show ?thesis by (auto simp: extend_tip_def Let_def)
qed (use assms(1) in \<open>simp add: extend_tip_def Let_def\<close>)

text \<open>A header that \<^verbatim>\<open>BuildNextBlockHeader\<close> makes links to the tip and carries the bits the node expects.\<close>

lemma BuildNextBlockHeader_ok:
  assumes "GetTip (np_L N) (nc_u64 (np_J N)) d = (tipH, block_id tb, True, None)"
    "GetBlockByHash (np_L N) (nc_block (np_J N)) d (block_id tb) = (tb, True, None)" "bh_Height (b_Header tb) = tipH"
    "np_NextWorkRequired N (getHeader N d) (getBits N d) (tipH + 1) = (bits, True)"
  obtains h where "BuildNextBlockHeader N now d txs = Inr h" "bh_Bits h = bits" "bh_Height h = tipH + 1"
    "bh_ChainID h = g_ChainID (np_genesis N)" "Hash_String (bh_PrevHash h) = block_id tb"
    "\<And>n ys. link_error N d \<lparr>b_Header = h\<lparr>bh_Nonce := n\<rparr>, b_Txs = ys\<rparr> = None"
  using that assms by (simp add: BuildNextBlockHeader_def block_id_def link_error_def Let_def)


text \<open>What the removal of persisted mempool entries leaves alone.\<close>

lemma pool_kept:
  assumes "ldb_laws (np_L N) V" "changes pool_key V d d1"
  shows "typed_store (V d) \<Longrightarrow> typed_store (V d1)"
    "GetTip (np_L N) (nc_u64 (np_J N)) d1 = GetTip (np_L N) (nc_u64 (np_J N)) d"
    "GetBlockByHash (np_L N) (nc_block (np_J N)) d1 x = GetBlockByHash (np_L N) (nc_block (np_J N)) d x"
    "getHeader N d1 = getHeader N d \<and> getBits N d1 = getBits N d"
    "tip_state N V d tipH tip w \<Longrightarrow> tip_state N V d1 tipH tip w"
proof -
  note v = changesD [OF assms(2)]
  show "typed_store (V d1)" if "typed_store (V d)"
    using that acct_wf_changes [OF assms(2) acct_not_pool] v by (simp add: typed_store_def)
  show tip: "GetTip (np_L N) (nc_u64 (np_J N)) d1 = GetTip (np_L N) (nc_u64 (np_J N)) d"
    by (rule GetTip_cong [OF assms(1)]) (simp_all add: v)
  show "GetBlockByHash (np_L N) (nc_block (np_J N)) d1 x = GetBlockByHash (np_L N) (nc_block (np_J N)) d x"
    by (rule GetBlockByHash_cong [OF assms(1)]) (simp add: v)
  have "getHeader N d1 = getHeader N d"
    using GetBlockByHeight_changes [OF assms] by (simp add: getHeader_def fun_eq_iff)
  then show "getHeader N d1 = getHeader N d \<and> getBits N d1 = getBits N d" by (simp add: getBits_def fun_eq_iff)
  show "tip_state N V d1 tipH tip w" if "tip_state N V d tipH tip w" using that tip v by (simp add: tip_state_def)
qed

text \<open>A block that passes all rules on top of the tip becomes the tip.\<close>

lemma submit_extension:
  assumes "ldb_laws (np_L N) V" "typed_store (V d)" "tip_state N V d tipH tip w"
    "passes N d b" "block_parent b = tip" "bh_Height (b_Header b) = tipH + 1"
    "ValidateBlockStateTip (np_L N) (np_env N) d b = Some None" "codec_ok (nc_u64 (np_J N)) (tipH + 1)"
    "\<exists>bs. jc_Marshal (nc_block (np_J N)) b = Inr bs" "\<not> va_ValidateForkState (cfg_Validation (np_cfg N))"
    "fn_finalityEnabled (np_fin N) \<Longrightarrow> fn_checkpointInterval (np_fin N) \<noteq> 0 \<and> can_sign (np_fin N)"
  shows "\<exists>d'. SubmitBlock N now f d b = Some (None, d') \<and> tip_state N V d' (tipH + 1) (block_id b) (cum_work (V d) b) \<and>
    GetHashByHeight (np_L N) d' (tipH + 1) = (block_id b, True, None)"
proof -
  obtain bs where bs: "jc_Marshal (nc_block (np_J N)) b = Inr bs" using assms(9) by blast
  let ?s = "stored_block N d b (block_id b) (cum_work (V d) b)"
  have wf: "acct_wf (V d)" using assms(2) by (simp add: typed_store_def)
  have basic: "ValidateBlockBasic (np_env N) b = None" using assms(4) by (simp add: passes_def)
  have "ValidateBlockStateTip (np_L N) (np_env N) ?s b = Some None"
    using ValidateBlockStateTip_cong [OF assms(1) wf stored_block_view(1) [OF assms(1) bs] _ block_shape_basic [OF basic]] assms(7)
    by simp
  from extend_tip_ok [OF this assms(11)] obtain d' where
    d': "extend_tip N now ?s b (block_id b) (cum_work (V d) b) = Some (None, d')" by blast
  have "codec_ok (nc_u64 (np_J N)) (bh_Height (b_Header b))" using assms(6,8) by simp
  note ext = tip_state_extended [OF assms(1) this bs d'] extend_tip_effect(2) [OF assms(1) this d' refl]
  have "SubmitBlock N now f d b = Some (None, d')"
    using SubmitBlock_passes [OF assms(4,10), of now f] accept_block_eq [OF assms(1,2) bs, of now f "block_id b", folded block_parent_def]
      assms(3,5,6) d' by (simp add: tip_state_def)
  with ext assms(6) show ?thesis by (simp add: GetHashByHeight_view [OF assms(1)])
qed


text \<open>The transactions of the block: what the mempool holds alive, and all of it passes the basic rules.\<close>

definition minable_pool :: "('p, 's) node_env \<Rightarrow> int \<Rightarrow> mempool \<Rightarrow> bool" where
  "minable_pool env now m \<longleftrightarrow> pool_wf m \<and> (\<forall>a n mt. alive now m a n = Some mt \<longrightarrow> basic_tx env (mt_Tx mt) = None)"

text \<open>
  The pool fits into a block: the block may have 500 transactions, and is large enough for 500
  transactions with as many outputs as any in the pool.
\<close>

definition pool_fits :: "limits_config \<Rightarrow> int \<Rightarrow> mempool \<Rightarrow> bool" where
  "pool_fits l now m \<longleftrightarrow> 500 \<le> li_MaxBlockTxs l \<and> 256 \<le> li_MaxBlockBytes l \<and>
     (\<forall>a n mt. alive now m a n = Some mt \<longrightarrow> int (length (tx_Outputs (mt_Tx mt))) \<le> li_MaxTxOutputs l \<and>
        256 + 500 * (128 + 64 * int (length (tx_Outputs (mt_Tx mt)))) \<le> li_MaxBlockBytes l)"

lemma Block_SizeHint_sum:
  "Block_SizeHint b = 256 + (\<Sum>tx \<leftarrow> b_Txs b. 128 + 64 * int (length (tx_Outputs tx)))"
proof -
  have "foldl (\<lambda>sz tx. sz + int (length (tx_Outputs tx)) * 64) s txs + int (length txs) * 128 =
      s + (\<Sum>tx \<leftarrow> txs. 128 + 64 * int (length (tx_Outputs tx)))" for s :: int and txs
    by (induction txs arbitrary: s) (auto simp: algebra_simps)
  from this [of "256 + int (length (b_Txs b)) * 128" "b_Txs b"] show ?thesis by (simp add: Block_SizeHint_def)
qed

lemma sum_list_le_mult:
  fixes f :: "'a \<Rightarrow> int"
  shows "\<forall>x \<in> set xs. k * f x \<le> B \<Longrightarrow> k * sum_list (map f xs) \<le> int (length xs) * B"
  by (induction xs) (auto simp: algebra_simps)

lemma limits_pass:
  assumes "pool_fits (cfg_Limits (ne_cfg env)) now m" "length txs \<le> 500"
    "\<forall>tx \<in> set txs. \<exists>a n mt. alive now m a n = Some mt \<and> mt_Tx mt = tx"
  shows "ValidateLimits env \<lparr>b_Header = h, b_Txs = txs\<rparr> = None"
proof -
  let ?lim = "cfg_Limits (ne_cfg env)" and ?s = "\<lambda>tx. 128 + 64 * int (length (tx_Outputs tx))"
  have fit: "int (length (tx_Outputs tx)) \<le> li_MaxTxOutputs ?lim" "500 * ?s tx \<le> li_MaxBlockBytes ?lim - 256"
    if "tx \<in> set txs" for tx
    using assms(1,3) that unfolding pool_fits_def by fastforce+
  have B: "500 \<le> li_MaxBlockTxs ?lim" "0 \<le> li_MaxBlockBytes ?lim - 256" using assms(1) by (simp_all add: pool_fits_def)
  have "500 * (\<Sum>tx \<leftarrow> txs. ?s tx) \<le> int (length txs) * (li_MaxBlockBytes ?lim - 256)"
    using fit(2) by (intro sum_list_le_mult) blast
  also have "\<dots> \<le> 500 * (li_MaxBlockBytes ?lim - 256)" using assms(2) B(2) by (intro mult_right_mono) auto
  finally have "Block_SizeHint \<lparr>b_Header = h, b_Txs = txs\<rparr> \<le> li_MaxBlockBytes ?lim" by (simp add: Block_SizeHint_sum)
  moreover have "first_err (\<lambda>tx. if li_MaxTxOutputs ?lim > 0 \<and> int (length (tx_Outputs tx)) > li_MaxTxOutputs ?lim
      then Some (Err ''tx_too_many_outputs'') else None) txs = None"
    unfolding first_err_None using fit(1) by force
  ultimately show ?thesis using assms(2) B(1) by (simp add: ValidateLimits_def Let_def)
qed

lemma block_basic_off:
  assumes "\<not> is_Enabled (cfg_Issuance (ne_cfg env))" "\<forall>tx \<in> set txs. basic_tx env tx = None"
  shows "ValidateBlockBasic env \<lparr>b_Header = h, b_Txs = txs\<rparr> = None"
proof -
  have "\<forall>tx \<in> set txs. tx_Type tx \<noteq> ''coinbase''" using assms(2) basic_txD(1) by blast
  moreover from this have "coinbase_covers env \<lparr>b_Header = h, b_Txs = txs\<rparr> = None"
    by (cases txs) (auto simp: coinbase_covers_def)
  moreover have "first_err (\<lambda>tx. if tx_Type tx = ''coinbase'' then Some (Err ''coinbase disabled'') else None) txs = None"
    unfolding first_err_None using calculation(1) by simp
  moreover have "first_err (basic_tx env) txs = None" unfolding first_err_None using assms(2) by blast
  ultimately show ?thesis using assms(1) by (simp add: ValidateBlockBasic_def basic_coinbase_def)
qed

text \<open>The selection: returns, keeps only what it was given, and the result passes the simulation.\<close>

lemma drained_and_filtered:
  assumes "ldb_laws L V" "acct_wf (V d)" "minable_pool env now m" "\<not> is_Enabled (cfg_Issuance (ne_cfg env))"
    "\<And>xs. mset (ord xs) = mset xs" "\<And>lt xs. mset (sortSlice lt xs) = mset xs"
  obtains txs m' out where "mp_Drain L ord now d 500 m = Some (txs, m')" "pool_wf m'"
    "FilterTxsBySimState L env sortSlice d txs = Some out" "\<forall>tx \<in> set out. basic_tx env tx = None"
    "\<And>h. ValidateBlockStateTip L env d \<lparr>b_Header = h, b_Txs = out\<rparr> = Some None"
    "length out \<le> 500" "\<forall>tx \<in> set out. \<exists>a n mt. alive now m a n = Some mt \<and> mt_Tx mt = tx"
proof -
  have wf: "pool_wf m" using assms(3) by (simp add: minable_pool_def)
  obtain txs m' where t: "mp_Drain L ord now d 500 m = Some (txs, m')" "pool_wf m'" "int (length txs) \<le> 500"
    "\<forall>t \<in> set txs. \<exists>mt. alive now m (tx_From t) (tx_Nonce t) = Some mt \<and> mt_Tx mt = t"
    using mp_Drain_correct [OF assms(1,2) wf assms(5), of 500 now] by (auto simp: make_panics_def)
  have basic: "\<forall>tx \<in> set txs. basic_tx env tx = None"
    using t(4) assms(3) unfolding minable_pool_def by metis
  have shape: "\<forall>tx \<in> set txs. tx_Type tx \<noteq> ''coinbase'' \<and> (tx_Type tx = ''otap_claim'' \<longrightarrow> tx_OTAPClaim tx \<noteq> None)"
  proof
    fix tx assume "tx \<in> set txs"
    with basic have b: "basic_tx env tx = None" by blast
    show "tx_Type tx \<noteq> ''coinbase'' \<and> (tx_Type tx = ''otap_claim'' \<longrightarrow> tx_OTAPClaim tx \<noteq> None)"
      using basic_txD(1) [OF b] basic_txD(6) [OF b] by blast
  qed
  note flt = filtered_txs_valid [where sortSlice = sortSlice and txs = txs, OF assms(1,2,4) assms(6) shape]
  obtain out where out: "FilterTxsBySimState L env sortSlice d txs = Some out" "set out \<subseteq> set txs" using flt by blast
  have "ValidateBlockStateTip L env d \<lparr>b_Header = h, b_Txs = out\<rparr> = Some None" for h using flt [of h] out(1) by simp
  moreover have "\<forall>tx \<in> set out. basic_tx env tx = None" using basic out(2) by blast
  moreover have "length out \<le> 500" using FilterTxs_length [OF out(1) assms(6)] t(3) by simp
  moreover have "\<forall>tx \<in> set out. \<exists>a n mt. alive now m a n = Some mt \<and> mt_Tx mt = tx" using t(4) out(2) by blast
  ultimately show ?thesis using that t(1,2) out(1) by blast
qed

text \<open>
  C6. Mining extends the tip. For a node that may mine, with issuance and fork validation off and a
  usable key if finality is on, on a well-typed store whose tip is stored under its own hash, with a
  well-formed mempool whose transactions pass the basic rules and are small enough for 500 of them to
  fit into a block, a next target that the chain gives, and some nonce that meets it: \<^verbatim>\<open>MineOne\<close> returns without error, whatever the order of the senders
  and of the sort; the tip is then the mined block, one above the old tip, with the work of the old
  tip plus its own, and the index names it.
\<close>

theorem MineOne_extends:
  assumes "ldb_laws (np_L N) V" "typed_store (V d)" "tip_state N V d tipH (block_id tb) w"
    "GetBlockByHash (np_L N) (nc_block (np_J N)) d (block_id tb) = (tb, True, None)" "bh_Height (b_Header tb) = tipH"
    "tipH + 1 \<noteq> 0" "codec_ok (nc_u64 (np_J N)) (tipH + 1)" "\<And>b. \<exists>bs. jc_Marshal (nc_block (np_J N)) b = Inr bs"
    "\<not> isReadOnly (np_cfg N)" "\<not> is_Enabled (cfg_Issuance (np_cfg N))" "\<not> va_ValidateForkState (cfg_Validation (np_cfg N))"
    "fn_finalityEnabled (np_fin N) \<Longrightarrow> fn_checkpointInterval (np_fin N) \<noteq> 0 \<and> can_sign (np_fin N)"
    "minable_pool (np_env N) now m" "\<And>xs. mset (ord xs) = mset xs" "\<And>lt xs. mset (sortSlice lt xs) = mset xs"
    "np_NextWorkRequired N (getHeader N d) (getBits N d) (tipH + 1) = (bits, True)"
    "\<And>h. bh_Bits h = bits \<Longrightarrow> \<exists>n. good_nonce h n"
    "pool_fits (cfg_Limits (np_cfg N)) now m"
  shows "\<exists>hash nonce d' m'. MineOne N ord sortSlice now f d m = Some (hash, nonce, None, d', m') \<and> pool_wf m' \<and>
    tip_state N V d' (tipH + 1) hash (Cumulative w (the (Work64 bits))) \<and>
    GetHashByHeight (np_L N) d' (tipH + 1) = (hash, True, None)"
proof -
  have wf: "acct_wf (V d)" using assms(2) by (simp add: typed_store_def)
  obtain txs m' out where t: "mp_Drain (np_L N) ord now d 500 m = Some (txs, m')" "pool_wf m'"
    "FilterTxsBySimState (np_L N) (np_env N) sortSlice d txs = Some out" "\<forall>tx \<in> set out. basic_tx (np_env N) tx = None"
    "\<And>h. ValidateBlockStateTip (np_L N) (np_env N) d \<lparr>b_Header = h, b_Txs = out\<rparr> = Some None"
    "length out \<le> 500" "\<forall>tx \<in> set out. \<exists>a n mt. alive now m a n = Some mt \<and> mt_Tx mt = tx"
    using drained_and_filtered [where ord = ord and sortSlice = sortSlice, OF assms(1) wf assms(13,10,14) assms(15)] by metis
  define d1 where "d1 = foldl (\<lambda>d tx. DelMempoolTx (np_L N) d (env_txid (np_env N) tx)) d out"
  have ch: "changes pool_key V d d1" unfolding d1_def by (rule DelMempoolTx_changes [OF assms(1)])
  note kept = pool_kept [OF assms(1) ch]
  obtain h0 where h0: "BuildNextBlockHeader N now d1 out = Inr h0" "bh_Bits h0 = bits" "bh_Height h0 = tipH + 1"
    "bh_ChainID h0 = g_ChainID (np_genesis N)" "Hash_String (bh_PrevHash h0) = block_id tb"
    "\<And>n ys. link_error N d1 \<lparr>b_Header = h0\<lparr>bh_Nonce := n\<rparr>, b_Txs = ys\<rparr> = None"
    using BuildNextBlockHeader_ok [of N d1 tipH tb bits now out] kept(2-4) assms(3-5,16) by (auto simp: tip_state_def)
  obtain k where "good_nonce h0 k" using assms(17) [OF h0(2)] by blast
  then obtain n where n: "MineHeader h0 = Some (Header_Hash (h0\<lparr>bh_Nonce := n\<rparr>), n, h0\<lparr>bh_Nonce := n\<rparr>)" "good_nonce h0 n"
    by (rule MineHeader_returns)
  define b where "b = \<lparr>b_Header = h0\<lparr>bh_Nonce := n\<rparr>, b_Txs = out\<rparr>"
  have basic: "ValidateBlockBasic (np_env N) b = None" unfolding b_def by (rule block_basic_off [OF assms(10) t(4)])
  have "ValidateLimits (np_env N) b = None" unfolding b_def by (rule limits_pass [OF assms(18) t(6,7)])
  then have "passes N d1 b" using basic n(2) h0 assms(6) by (simp add: passes_def b_def good_nonce_def)
  moreover have tip: "ValidateBlockStateTip (np_L N) (np_env N) d1 b = Some None"
    using ValidateBlockStateTip_cong [OF assms(1) wf ch acct_not_pool block_shape_basic [OF basic]] t(5) by (simp add: b_def)
  moreover have bh: "bh_Height (b_Header b) = tipH + 1" "bh_Bits (b_Header b) = bits" "block_parent b = block_id tb"
    using h0 by (simp_all add: b_def block_parent_def)
  ultimately obtain d' where "SubmitBlock N now f d1 b = Some (None, d')"
    "tip_state N V d' (tipH + 1) (block_id b) (cum_work (V d1) b)" "GetHashByHeight (np_L N) d' (tipH + 1) = (block_id b, True, None)"
    using submit_extension [OF assms(1) kept(1) kept(5) [OF assms(3)], of b now f] assms(2,7,8,11,12) by auto
  moreover have "cum_work (V d1) b = Cumulative w (the (Work64 bits))"
    using kept(5) [OF assms(3)] bh by (simp add: cum_work_def tip_state_def flip: block_parent_def)
  moreover have "\<not> (isReadOnly (np_cfg N) \<or> nr_Role (cfg_NodeRole (np_cfg N)) = ''observer'')"
    using assms(9) by (auto simp: isReadOnly_def split: if_splits)
  ultimately show ?thesis
    using t(1-3) h0(1) n(1) assms(10) by (simp add: MineOne_def Let_def d1_def [symmetric] b_def block_id_def)
qed


text \<open>The limits \<^verbatim>\<open>Config.Validate\<close> sets, finality on and a key.\<close>

definition mining_env :: "(unit, unit) node_env" where
  "mining_env = sample_env\<lparr>ne_cfg := sample_config\<lparr>cfg_Limits := \<lparr>li_MaxBlockBytes = 1000000, li_MaxBlockTxs = 5000, li_MaxTxOutputs = 256\<rparr>\<rparr>\<rparr>"

definition mining_node :: "((bytes \<times> bytes) list, unit, unit, unit) node" where
  "mining_node = sample_node\<lparr>np_J := sample_chain_codecs\<lparr>nc_block := \<lparr>jc_Marshal = (\<lambda>_. Inr ''B''), jc_Unmarshal = (\<lambda>_. (zero_block, None))\<rparr>\<rparr>,
     np_NextWorkRequired := (\<lambda>_ _ _. (0x227fffff, True)),
     np_fin := sample_fin_node\<lparr>fn_env := mining_env, fn_localPrivHex := replicate 128 (CHR ''0'')\<rparr>\<rparr>"

definition mining_store :: "(bytes \<times> bytes) list" where
  "mining_store = (keyBlockByHash (block_id zero_block), ''G'') # sample_tip_store ''0'' (block_id zero_block) 5"

definition mining_mt :: mem_tx where
  "mining_mt = new_mem_tx (\<lambda>_. zero_hash) 1000 sample_transfer"

definition mining_pool :: mempool where
  "mining_pool = \<lparr>m_cfg = sample_pool_cfg, m_byAcct = [(sample_key, [(1, mining_mt)])], m_totalTxs = 1, m_totalBytes = 260\<rparr>"

lemma mining_node_simps [simp]:
  "np_L mining_node = alist_db" "np_env mining_node = mining_env" "nc_u64 (np_J mining_node) = nc_u64 sample_chain_codecs"
  "jc_Marshal (nc_block (np_J mining_node)) b = Inr ''B''" "fn_checkpointInterval (np_fin mining_node) = 20"
  "np_NextWorkRequired mining_node x y z = (0x227fffff, True)"
  by (simp_all add: mining_node_def sample_node_def sample_fin_node_def)

lemma mining_store_ok:
  "typed_store (map_of mining_store)" "tip_state mining_node map_of mining_store 0 (block_id zero_block) 5"
  "GetBlockByHash alist_db (nc_block (np_J mining_node)) mining_store (block_id zero_block) = (zero_block, True, None)"
proof -
  let ?d = "sample_tip_store ''0'' (block_id zero_block) 5"
  have ch: "changes (\<lambda>k. k = keyBlockByHash (block_id zero_block)) map_of ?d mining_store"
    by (simp add: changes_def mining_store_def)
  have v: "map_of mining_store (keyWork x) = map_of ?d (keyWork x)" "map_of mining_store keyTipWork = map_of ?d keyTipWork"
    "map_of mining_store keyTipHeight = map_of ?d keyTipHeight" "map_of mining_store keyTipBlockID = map_of ?d keyTipBlockID" for x
    by (simp_all add: mining_store_def key_defs)
  have "acct_wf (map_of mining_store) = acct_wf (map_of ?d)"
    by (rule acct_wf_changes [OF ch]) (auto simp: acct_key_def keyBlockByHash_def)
  then show "typed_store (map_of mining_store)" using sample_store_typed [of "''0''" "block_id zero_block" 5] v by (simp add: typed_store_def)
  have "tip_state sample_node map_of ?d 0 (block_id zero_block) 5" by (rule sample_tip_state) simp
  moreover have "GetTip alist_db (nc_u64 sample_chain_codecs) mining_store = GetTip alist_db (nc_u64 sample_chain_codecs) ?d"
    by (rule GetTip_cong [OF alist_db_laws]) (simp_all add: v)
  ultimately show "tip_state mining_node map_of mining_store 0 (block_id zero_block) 5" using v by (simp add: tip_state_def)
  show "GetBlockByHash alist_db (nc_block (np_J mining_node)) mining_store (block_id zero_block) = (zero_block, True, None)"
    by (simp add: GetBlockByHash_def db_lookup_eq [OF alist_db_laws] mining_store_def mining_node_def)
qed

lemma mining_pool_ok: "minable_pool mining_env 1000 mining_pool" "pool_fits (cfg_Limits (ne_cfg mining_env)) 1000 mining_pool"
proof -
  have mt: "mt_From mining_mt = sample_key" "mt_Nonce mining_mt = 1" "mt_Tx mining_mt = sample_transfer" "mt_SizeHint mining_mt = 260"
    by (simp_all add: mining_mt_def new_mem_tx_def sample_transfer_def zero_tx_def Let_def TxSizeHint_def i64_small)
  have tx: "tx_From sample_transfer = sample_key" "tx_Nonce sample_transfer = 1" by (simp_all add: sample_transfer_def)
  have "lane_wf sample_key [(1, mining_mt)]" "lane_bytes [(1, mining_mt)] = 260"
    by (simp_all add: lane_wf_def lane_bytes_def mt tx)
  then have "pool_wf mining_pool" by (simp add: pool_wf_def mining_pool_def)
  moreover have "basic_tx sample_env sample_transfer = None"
    using sample_basic_tx [of "tx_Outputs sample_transfer"] by (simp add: sample_transfer_def)
  moreover have "basic_tx mining_env tx = basic_tx sample_env tx" for tx
    by (rule basic_tx_cong) (simp_all add: mining_env_def sample_env_def)
  ultimately have "basic_tx mining_env sample_transfer = None" "pool_wf mining_pool" by simp_all
  moreover have all: "t = mining_mt" if "alive 1000 mining_pool a n = Some t" for a n t
    using that by (auto simp: alive_def pooled_def mining_pool_def split: option.splits if_splits)
  ultimately show "minable_pool mining_env 1000 mining_pool" using mt(3) unfolding minable_pool_def by metis
  have "length (tx_Outputs sample_transfer) = 1" by (simp add: sample_transfer_def)
  with all mt(3) show "pool_fits (cfg_Limits (ne_cfg mining_env)) 1000 mining_pool"
    unfolding pool_fits_def by (auto simp: mining_env_def dest!: all)
qed

theorem MineOne_extends_witness:
  "\<exists>hash nonce d' m'. MineOne mining_node rev sort_by 1000 () mining_store mining_pool = Some (hash, nonce, None, d', m') \<and>
    tip_state mining_node map_of d' 1 hash 7"
proof -
  have laws: "ldb_laws (np_L mining_node) map_of" by (simp add: alist_db_laws)
  have cfg: "\<not> isReadOnly (np_cfg mining_node)" "\<not> is_Enabled (cfg_Issuance (np_cfg mining_node))"
    "\<not> va_ValidateForkState (cfg_Validation (np_cfg mining_node))"
    by (simp_all add: mining_env_def sample_config_def isReadOnly_def)
  have "good_nonce h n" if "bh_Bits h = 0x227fffff" for h n
  proof -
    have "HashToBig (Header_Hash (h\<lparr>bh_Nonce := n\<rparr>)) < 256 ^ 32"
      using big_SetBytes_less [of "Header_Hash (h\<lparr>bh_Nonce := n\<rparr>)"] by (simp only: HashToBig_def Header_Hash_length)
    then have "HashToBig (Header_Hash (h\<lparr>bh_Nonce := n\<rparr>)) \<le> CompactToBig 0x227fffff" using easy_bits by linarith
    moreover have "0 < CompactToBig 0x227fffff" using easy_bits by simp
    ultimately show ?thesis using that by (simp add: good_nonce_def MeetsTarget_def)
  qed
  then have good: "\<exists>n. good_nonce h n" if "bh_Bits h = 0x227fffff" for h using that by blast
  have sign: "can_sign (np_fin mining_node)"
    by (simp add: can_sign_def ParsePriv_def sample_hex mining_node_def sample_fin_node_def mining_env_def sample_env_def unit_edwards_def)
  have "Work64 0x227fffff = Some 2" by code_simp
  then have "Cumulative 5 (the (Work64 0x227fffff)) = 7" by (simp add: Cumulative_def)
  then show ?thesis
    using MineOne_extends [where N = mining_node and V = map_of and d = mining_store and tb = zero_block and tipH = 0 and w = 5 and
        bits = "0x227fffff" and m = mining_pool and now = 1000 and ord = rev and sortSlice = sort_by and f = "()",
        OF laws mining_store_ok(1,2) _ _ _ _ _ cfg _ _ _ _ _ good]
      mining_store_ok(3) mining_pool_ok sign by (fastforce simp: zero_block_def zero_header_def)
qed

end
