(* ===== verification/SyncQueue.thy ===== *)
theory SyncQueue
  imports Submit
begin

text \<open>
  The download queue of the block synchronisation, \<^verbatim>\<open>core/node/sync_manager.go\<close>: the queue
  of block hashes that wait for a request, the requests in flight with the time they were sent, the
  failures of peers and their backoff, and the two workers that use them. Every method of
  \<^verbatim>\<open>syncManager\<close> runs under its mutex, so it is one step on the state; the workers make
  several, and the steps of different workers interleave.

  The times are nanoseconds. Entries of \<^verbatim>\<open>SyncConfig\<close> that the sources read and do not
  declare (\<^verbatim>\<open>MaxInFlightBlocks\<close>, \<^verbatim>\<open>MaxQueueFill\<close>, \<^verbatim>\<open>StrictLinear\<close>) are arguments.
\<close>

section \<open>The state\<close>

record sync_status =
  sst_Mode :: string
  sst_Peers :: int
  sst_LastRequestedUnix :: int
  sst_LastHeadersCount :: int
  sst_LastHeaderHashes :: "string list"
  sst_InFlightBlocks :: int
  sst_PendingBlocks :: int
  sst_TipHeight :: u64

record sync_manager =
  sm_paused :: bool
  sm_failCount :: "string \<rightharpoonup> int"
  sm_lastFail :: "string \<rightharpoonup> int"
  sm_anchorOK :: "string \<rightharpoonup> bool"
  sm_status :: sync_status
  sm_inflight :: "(string \<times> int) list"
  sm_pending :: "string list"
  sm_lastAnchorHash :: string
  sm_lastAnchorHeight :: u64

definition new_sync_manager :: sync_manager where
  "new_sync_manager =
     \<lparr>sm_paused = False, sm_failCount = Map.empty, sm_lastFail = Map.empty, sm_anchorOK = Map.empty,
      sm_status = \<lparr>sst_Mode = [], sst_Peers = 0, sst_LastRequestedUnix = 0, sst_LastHeadersCount = 0,
        sst_LastHeaderHashes = [], sst_InFlightBlocks = 0, sst_PendingBlocks = 0, sst_TipHeight = 0\<rparr>,
      sm_inflight = [], sm_pending = [], sm_lastAnchorHash = [], sm_lastAnchorHeight = 0\<rparr>"

definition count_pending :: "sync_manager \<Rightarrow> sync_manager" where
  "count_pending sm = sm\<lparr>sm_status := (sm_status sm)\<lparr>sst_PendingBlocks := int (length (sm_pending sm))\<rparr>\<rparr>"

definition count_inflight :: "sync_manager \<Rightarrow> sync_manager" where
  "count_inflight sm = sm\<lparr>sm_status := (sm_status sm)\<lparr>sst_InFlightBlocks := int (length (sm_inflight sm))\<rparr>\<rparr>"

section \<open>The operations\<close>

text \<open>\<open>exists\<close> holds the hashes that are queued or in flight.\<close>

fun append_new :: "string set \<Rightarrow> string list \<Rightarrow> string list \<Rightarrow> string list" where
  "append_new exists [] pending = pending"
| "append_new exists (h # hashes) pending =
     (if h = [] \<or> h \<in> exists then append_new exists hashes pending
      else append_new (insert h exists) hashes (pending @ [h]))"

definition setHeaders :: "int \<Rightarrow> string list \<Rightarrow> sync_manager \<Rightarrow> sync_manager" where
  "setHeaders cnt hashes sm =
     (let sm = sm\<lparr>sm_status := (sm_status sm)\<lparr>sst_LastHeadersCount := cnt, sst_LastHeaderHashes := hashes\<rparr>\<rparr>;
          exists = set (sm_pending sm) \<union> set (map fst (sm_inflight sm))
      in count_pending (sm\<lparr>sm_pending := append_new exists hashes (sm_pending sm)\<rparr>))"

text \<open>The Unix time, in seconds, of a clock in nanoseconds.\<close>

definition unix_of :: "int \<Rightarrow> int" where
  "unix_of now = now div 1000000000"

definition touchRequest :: "int \<Rightarrow> sync_manager \<Rightarrow> sync_manager" where
  "touchRequest now sm = sm\<lparr>sm_status := (sm_status sm)\<lparr>sst_LastRequestedUnix := unix_of now\<rparr>\<rparr>"

definition addInFlight :: "int \<Rightarrow> string \<Rightarrow> sync_manager \<Rightarrow> sync_manager" where
  "addInFlight now h sm = count_inflight (sm\<lparr>sm_inflight := AList.update h now (sm_inflight sm)\<rparr>)"

definition clearInFlight :: "string \<Rightarrow> sync_manager \<Rightarrow> sync_manager" where
  "clearInFlight h sm = count_inflight (sm\<lparr>sm_inflight := AList.delete h (sm_inflight sm)\<rparr>)"

definition popPending :: "sync_manager \<Rightarrow> string option \<times> sync_manager" where
  "popPending sm =
     (case sm_pending sm of
        [] \<Rightarrow> (None, sm)
      | h # rest \<Rightarrow> (Some h, count_pending (sm\<lparr>sm_pending := rest\<rparr>)))"

definition sm_snapshot :: "u64 \<Rightarrow> int \<Rightarrow> sync_manager \<Rightarrow> sync_status" where
  "sm_snapshot tip peers sm =
     (let s = (sm_status sm)\<lparr>sst_TipHeight := tip, sst_Peers := peers\<rparr>;
          s = (if sst_Mode s = [] then s\<lparr>sst_Mode := ''headers_first''\<rparr> else s)
      in s\<lparr>sst_InFlightBlocks := int (length (sm_inflight sm)), sst_PendingBlocks := int (length (sm_pending sm))\<rparr>)"

definition inflightCount :: "sync_manager \<Rightarrow> int" where
  "inflightCount sm = int (length (sm_inflight sm))"

definition setPeerAnchorOK :: "string \<Rightarrow> bool \<Rightarrow> sync_manager \<Rightarrow> sync_manager" where
  "setPeerAnchorOK peer ok sm = sm\<lparr>sm_anchorOK := (sm_anchorOK sm)(peer \<mapsto> ok)\<rparr>"

definition isPeerAnchorOK :: "string \<Rightarrow> sync_manager \<Rightarrow> bool" where
  "isPeerAnchorOK peer sm = (case sm_anchorOK sm peer of Some v \<Rightarrow> v | None \<Rightarrow> False)"

definition setLocalAnchor :: "u64 \<Rightarrow> string \<Rightarrow> sync_manager \<Rightarrow> sync_manager" where
  "setLocalAnchor h hash sm = sm\<lparr>sm_lastAnchorHeight := h, sm_lastAnchorHash := hash\<rparr>"

definition or_zero :: "int option \<Rightarrow> int" where
  "or_zero v = (case v of Some n \<Rightarrow> n | None \<Rightarrow> 0)"

definition markFail :: "int \<Rightarrow> string \<Rightarrow> sync_manager \<Rightarrow> sync_manager" where
  "markFail now peer sm =
     sm\<lparr>sm_failCount := (sm_failCount sm)(peer \<mapsto> i64 (or_zero (sm_failCount sm peer) + 1)),
        sm_lastFail := (sm_lastFail sm)(peer \<mapsto> unix_of now)\<rparr>"

definition minInt :: "int \<Rightarrow> int \<Rightarrow> int" where
  "minInt a b = (if a < b then a else b)"

text \<open>A shift by a negative count is a panic, \<open>None\<close>. The result is a duration in nanoseconds.\<close>

definition peerBackoff :: "int \<Rightarrow> string \<Rightarrow> sync_manager \<Rightarrow> int option" where
  "peerBackoff now peer sm =
     (let c = or_zero (sm_failCount sm peer); lf = or_zero (sm_lastFail sm peer); s = minInt c 6
      in if c = 0 then Some 0
         else if s < 0 then None
         else let wait = 2 ^ nat s; now = unix_of now
              in if i64 (now - lf) \<ge> wait then Some 0
                 else Some (i64 (i64 (wait - i64 (now - lf)) * 1000000000)))"

definition setPaused :: "bool \<Rightarrow> sync_manager \<Rightarrow> sync_manager" where
  "setPaused v sm = sm\<lparr>sm_paused := v\<rparr>"

text \<open>\<^verbatim>\<open>Time.Sub\<close>: the difference, cut off at the bounds of a duration.\<close>

definition time_Sub :: "int \<Rightarrow> int \<Rightarrow> int" where
  "time_Sub t u = max (- (2 ^ 63)) (min (2 ^ 63 - 1) (t - u))"

text \<open>\<open>ord\<close> is the order in which the loop walks the map; deleting the current entry is allowed.\<close>

definition requeueTimedOut ::
  "((string \<times> int) list \<Rightarrow> (string \<times> int) list) \<Rightarrow> int \<Rightarrow> int \<Rightarrow> sync_manager \<Rightarrow> string list \<times> sync_manager" where
  "requeueTimedOut ord now timeoutSec sm =
     (let late = (\<lambda>(h, t). time_Sub now t > i64 (timeoutSec * 1000000000));
          req = map fst (filter late (ord (sm_inflight sm)));
          sm = count_inflight (sm\<lparr>sm_inflight := filter (Not \<circ> late) (sm_inflight sm)\<rparr>)
      in (req, if req \<noteq> [] then count_pending (sm\<lparr>sm_pending := req @ sm_pending sm\<rparr>) else sm))"

definition prioritizeNearTip :: "int \<Rightarrow> sync_manager \<Rightarrow> sync_manager" where
  "prioritizeNearTip maxFront sm =
     (if maxFront \<le> 0 \<or> int (length (sm_pending sm)) \<le> maxFront then sm else sm)"

section \<open>Peers and requests\<close>

text \<open>
  \<open>ss\<close> are the sessions of the peer-to-peer node and \<open>r\<close> is what \<^verbatim>\<open>rand.Intn\<close> yields; the
  node and its queue exist.
\<close>

definition chooseSyncPeer :: "'d leveldb \<Rightarrow> 'd \<Rightarrow> string list \<Rightarrow> (nat \<Rightarrow> nat) \<Rightarrow> sync_manager \<Rightarrow> string option" where
  "chooseSyncPeer L d ss r sm =
     (if ss = [] then None
      else case GetFinalizedHeight L d of
             (finH, ok, _) \<Rightarrow>
               (let cands = filter (\<lambda>p. \<not> (ok \<and> finH > 0 \<and> \<not> isPeerAnchorOK p sm)) ss
                in if cands = [] then None else Some (cands ! r (length cands))))"

record p2p_msg =
  pm_Type :: string
  pm_ID :: string
  pm_Hash :: string
  pm_Data :: bytes

definition msg_of_type :: "string \<Rightarrow> p2p_msg" where
  "msg_of_type t = \<lparr>pm_Type = t, pm_ID = [], pm_Hash = [], pm_Data = []\<rparr>"

text \<open>
  One round of the worker that asks for headers (lines 100 to 124). Its locator loop may walk the
  whole chain: it is a loop that may not end. \<open>J\<close> encodes the request.
\<close>

partial_function (option) header_locator ::
  "'d leveldb \<Rightarrow> block codec \<Rightarrow> (block \<Rightarrow> hash) \<Rightarrow> 'd \<Rightarrow> u64 \<Rightarrow> u64 \<Rightarrow> string list \<Rightarrow> string list option" where
  "header_locator L J blockHash d h step loc =
     (if length loc < 32
      then (case GetBlockByHeight L J d h of
              (b, okb, _, _) \<Rightarrow>
                (let loc = (if okb then loc @ [Hash_String (blockHash b)] else loc)
                 in if h = 0 then Some loc
                    else let step = (if length loc > 10 then step * 2 else step)
                         in header_locator L J blockHash d (if h < step then 0 else h - step) step loc))
      else Some loc)"

record headers_req =
  hr_From :: u64
  hr_Count :: int
  hr_Locator :: "string list"

definition request_headers ::
  "('d, 'f, 'p, 's) node \<Rightarrow> headers_req codec \<Rightarrow> int \<Rightarrow> 'd \<Rightarrow> sync_manager \<Rightarrow> (p2p_msg list \<times> sync_manager) option" where
  "request_headers N JR now d sm =
     (if sm_paused sm then Some ([], sm)
      else let sm = touchRequest now sm
           in case GetTip (np_L N) (nc_u64 (np_J N)) d of
                (tipH, _, ok, _) \<Rightarrow>
                  (let tipH = (if \<not> ok then 0 else tipH)
                   in case GetHeaderFrontier (np_L N) d of
                        (frontH, _, okF, _) \<Rightarrow>
                          (let start = (if okF \<and> frontH \<ge> tipH then frontH + 1 else tipH + 1)
                           in do { loc \<leftarrow> header_locator (np_L N) (nc_block (np_J N)) (ne_blockHash (np_env N)) d tipH 1 [];
                                   Some ([msg_of_type ''get_anchor'',
                                          (msg_of_type ''get_headers'')\<lparr>pm_Data := marshal_or_nil JR
                                            \<lparr>hr_From = start, hr_Count = 200, hr_Locator = loc\<rparr>\<rparr>], sm) })))"

text \<open>
  One round of a worker that asks for a block (lines 136 to 151), when nothing runs in between. The
  hash is marked as in flight before a peer is chosen; without a peer, or when the peer was asked a
  moment ago, it stays marked.
\<close>

definition request_block ::
  "'d leveldb \<Rightarrow> int \<Rightarrow> int \<Rightarrow> string list \<Rightarrow> (nat \<Rightarrow> nat) \<Rightarrow> 'd \<times> sync_manager
    \<Rightarrow> ((string \<times> p2p_msg) option \<times> 'd \<times> sync_manager) option" where
  "request_block L now maxInFlight ss r s =
     (case s of (d, sm) \<Rightarrow>
        if inflightCount sm \<ge> maxInFlight then Some (None, d, sm)
        else (case popPending sm of
                (None, sm) \<Rightarrow> Some (None, d, sm)
              | (Some h, sm) \<Rightarrow>
                  (let sm = addInFlight now h sm
                   in case chooseSyncPeer L d ss r sm of
                        None \<Rightarrow> Some (None, d, sm)
                      | Some peer \<Rightarrow>
                          do { _ \<leftarrow> peerBackoff now peer sm;
                               if PeerGetBlockRecently L (unix_of now) d peer h 2 then Some (None, d, sm)
                               else Some (Some (peer, (msg_of_type ''get_block'')\<lparr>pm_Hash := h\<rparr>),
                                      MarkPeerGetBlock L (unix_of now) d peer h, sm) })))"

section \<open>\<^verbatim>\<open>enqueueMissingFromHeaderTip\<close>\<close>

partial_function (option) header_walk ::
  "'d leveldb \<Rightarrow> block_header codec \<Rightarrow> 'd \<Rightarrow> u64 \<Rightarrow> string \<Rightarrow> string list \<Rightarrow> string list option" where
  "header_walk L J d start cur sq =
     (case GetHeaderByHash L J d cur of
        (h, ok, _) \<Rightarrow>
          if \<not> ok then Some sq
          else if bh_Height h < start then Some sq
          else let sq = sq @ [cur]
               in if bh_Height h = start then Some sq
                  else header_walk L J d start (Hash_String (bh_PrevHash h)) sq)"

fun fill_queue :: "'d leveldb \<Rightarrow> block codec \<Rightarrow> 'd \<Rightarrow> int \<Rightarrow> int \<Rightarrow> string list \<Rightarrow> sync_manager \<Rightarrow> sync_manager" where
  "fill_queue L J d maxFill filled [] sm = sm"
| "fill_queue L J d maxFill filled (hash # hashes) sm =
     (case GetBlockByHash L J d hash of
        (_, okb, _) \<Rightarrow>
          if okb then fill_queue L J d maxFill filled hashes sm
          else let sm = setHeaders 0 [hash] sm; filled = filled + 1
               in if filled \<ge> maxFill then sm
                  else if sst_PendingBlocks (sm_snapshot 0 0 sm) > 5000 then sm
                  else fill_queue L J d maxFill filled hashes sm)"

definition enqueueMissingFromHeaderTip ::
  "'d leveldb \<Rightarrow> node_codecs \<Rightarrow> int \<Rightarrow> 'd \<Rightarrow> sync_manager \<Rightarrow> sync_manager option" where
  "enqueueMissingFromHeaderTip L J maxFill d sm =
     (case GetTip L (nc_u64 J) d of
        (blockH, _, okB, _) \<Rightarrow>
          (let blockH = (if \<not> okB then 0 else blockH)
           in case GetHeaderTip L d of
                (hdrH, hdrHash, okH, _) \<Rightarrow>
                  if \<not> okH \<or> hdrHash = [] then Some sm
                  else if hdrH \<le> blockH then Some sm
                  else let start = blockH + 1
                       in do { (anc, okA, _) \<leftarrow> GetHeaderAncestorHashAtHeight L (nc_header J) d hdrHash start;
                               if \<not> okA then Some sm
                               else if make_panics 16 (uint (hdrH - start + 1)) then None
                               else do { sq \<leftarrow> header_walk L (nc_header J) d start hdrHash [];
                                         Some (fill_queue L (nc_block J) d maxFill 0 (rev sq) sm) } }))"

section \<open>Interleaved workers\<close>

text \<open>
  The queue with what its workers hold: \<open>qs_held\<close> are the hashes taken from the queue and not yet
  marked as in flight, \<open>qs_want\<close> records the hashes that were announced and not answered since.
\<close>

record queue_state =
  qs_sm :: sync_manager
  qs_held :: "string list"
  qs_want :: "string set"

text \<open>
  The steps of the workers and of the message handler, each one critical section. With \<open>alone\<close> no
  announcement falls between the two steps of a worker.
\<close>

inductive queue_step :: "bool \<Rightarrow> queue_state \<Rightarrow> queue_state \<Rightarrow> bool" for alone :: bool where
  announce: "(alone \<Longrightarrow> qs_held s = []) \<Longrightarrow>
     queue_step alone s (s\<lparr>qs_sm := setHeaders c hs (qs_sm s), qs_want := qs_want s \<union> (set hs - {[]})\<rparr>)"
| take_next: "popPending (qs_sm s) = (Some h, sm) \<Longrightarrow>
     queue_step alone s (s\<lparr>qs_sm := sm, qs_held := h # qs_held s\<rparr>)"
| mark: "h \<in> set (qs_held s) \<Longrightarrow>
     queue_step alone s (s\<lparr>qs_sm := addInFlight now h (qs_sm s), qs_held := remove1 h (qs_held s)\<rparr>)"
| answer: "queue_step alone s (s\<lparr>qs_sm := clearInFlight h (qs_sm s), qs_want := qs_want s - {h}\<rparr>)"
| timeout: "(\<And>xs. mset (ord xs) = mset xs) \<Longrightarrow>
     queue_step alone s (s\<lparr>qs_sm := snd (requeueTimedOut ord now timeoutSec (qs_sm s))\<rparr>)"

inductive queue_reach :: "bool \<Rightarrow> queue_state \<Rightarrow> bool" for alone :: bool where
  start: "queue_reach alone \<lparr>qs_sm = new_sync_manager, qs_held = [], qs_want = {}\<rparr>"
| step: "queue_reach alone s \<Longrightarrow> queue_step alone s s' \<Longrightarrow> queue_reach alone s'"

definition known_hashes :: "queue_state \<Rightarrow> string list" where
  "known_hashes s = sm_pending (qs_sm s) @ map fst (sm_inflight (qs_sm s)) @ qs_held s"

definition queue_inv :: "bool \<Rightarrow> queue_state \<Rightarrow> bool" where
  "queue_inv alone s \<longleftrightarrow>
     qs_want s \<subseteq> set (known_hashes s) \<and> [] \<notin> set (known_hashes s) \<and>
     distinct (map fst (sm_inflight (qs_sm s))) \<and> (alone \<longrightarrow> distinct (known_hashes s)) \<and>
     sst_PendingBlocks (sm_status (qs_sm s)) = int (length (sm_pending (qs_sm s))) \<and>
     sst_InFlightBlocks (sm_status (qs_sm s)) = int (length (sm_inflight (qs_sm s)))"

lemmas queue_defs = queue_inv_def known_hashes_def setHeaders_def popPending_def addInFlight_def clearInFlight_def
  count_pending_def count_inflight_def Let_def

lemma append_new_spec:
  "\<exists>new. append_new exists hs p = p @ new \<and> distinct new \<and> set new = set hs - {[]} - exists"
proof (induction exists hs p rule: append_new.induct)
  case (2 exists h hs p)
  show ?case
  proof (cases "h = [] \<or> h \<in> exists")
    case True
    then show ?thesis using 2(1) by auto
  next
    case False
    then obtain new where "append_new (insert h exists) hs (p @ [h]) = (p @ [h]) @ new"
        "distinct new" "set new = set hs - {[]} - insert h exists"
      using 2(2) by blast
    then show ?thesis using False by (intro exI [of _ "h # new"]) auto
  qed
qed simp

lemma setHeaders_inv:
  assumes "queue_inv alone s" "alone \<Longrightarrow> qs_held s = []"
  shows "queue_inv alone (s\<lparr>qs_sm := setHeaders c hs (qs_sm s), qs_want := qs_want s \<union> (set hs - {[]})\<rparr>)"
proof -
  obtain new where new: "append_new (set (sm_pending (qs_sm s)) \<union> set (map fst (sm_inflight (qs_sm s)))) hs (sm_pending (qs_sm s))
      = sm_pending (qs_sm s) @ new" "distinct new"
      "set new = set hs - {[]} - (set (sm_pending (qs_sm s)) \<union> set (map fst (sm_inflight (qs_sm s))))"
    using append_new_spec by blast
  show ?thesis using assms new by (auto simp: queue_defs)
qed

lemma queue_inv_mset:
  assumes "queue_inv alone s" "mset (known_hashes s') = mset (known_hashes s)" "qs_want s' = qs_want s"
    "distinct (map fst (sm_inflight (qs_sm s')))"
    "sst_PendingBlocks (sm_status (qs_sm s')) = int (length (sm_pending (qs_sm s')))"
    "sst_InFlightBlocks (sm_status (qs_sm s')) = int (length (sm_inflight (qs_sm s')))"
  shows "queue_inv alone s'"
  using assms mset_eq_setD [OF assms(2)] mset_eq_imp_distinct_iff [OF assms(2)] by (simp add: queue_inv_def)

lemma popPending_inv:
  assumes "queue_inv alone s" "popPending (qs_sm s) = (Some h, sm)"
  shows "queue_inv alone (s\<lparr>qs_sm := sm, qs_held := h # qs_held s\<rparr>)"
  using assms(2) by (intro queue_inv_mset [OF assms(1)])
    (use assms(1) in \<open>auto simp: queue_defs split: list.splits\<close>)

lemma addInFlight_inv:
  assumes "queue_inv alone s" "h \<in> set (qs_held s)"
  shows "queue_inv alone (s\<lparr>qs_sm := addInFlight now h (qs_sm s), qs_held := remove1 h (qs_held s)\<rparr>)"
proof -
  have "set (map fst (AList.update h now (sm_inflight (qs_sm s)))) = insert h (set (map fst (sm_inflight (qs_sm s))))"
    by (simp add: dom_map_of_conv_image_fst [symmetric] AList.update_conv')
  moreover have "qs_held s \<noteq> [] \<Longrightarrow> set (qs_held s) \<subseteq> insert h (set (remove1 h (qs_held s)))"
    by (metis in_set_remove1 insertCI subsetI)
  moreover have "distinct (map fst (AList.update h now (sm_inflight (qs_sm s))))"
    using assms(1) by (simp add: queue_inv_def AList.distinct_update)
  ultimately show ?thesis
    using assms set_remove1_subset [of h "qs_held s"] by (auto simp: queue_defs)
qed

lemma clearInFlight_inv:
  assumes "queue_inv alone s"
  shows "queue_inv alone (s\<lparr>qs_sm := clearInFlight h (qs_sm s), qs_want := qs_want s - {h}\<rparr>)"
proof -
  have "set (map fst (AList.delete h (sm_inflight (qs_sm s)))) = set (map fst (sm_inflight (qs_sm s))) - {h}"
    by (auto simp: AList.delete_eq)
  moreover have "distinct (map fst (AList.delete h (sm_inflight (qs_sm s))))"
    using assms by (simp add: queue_inv_def AList.distinct_delete)
  ultimately show ?thesis using assms by (auto simp: queue_defs)
qed

lemma mset_filter_split: "mset (filter P xs) + mset (filter (Not \<circ> P) xs) = mset xs"
  by (simp add: mset_filter comp_def)

lemma requeueTimedOut_inv:
  assumes "queue_inv alone s" "\<And>xs. mset (ord xs) = mset xs"
  shows "queue_inv alone (s\<lparr>qs_sm := snd (requeueTimedOut ord now timeoutSec (qs_sm s))\<rparr>)" (is "queue_inv _ ?s'")
proof -
  define late where "late = (\<lambda>(h :: string, t). time_Sub now t > i64 (timeoutSec * 1000000000))"
  let ?fl = "sm_inflight (qs_sm s)"
  let ?req = "map fst (filter late (ord ?fl))"
  have req: "mset ?req = mset (map fst (filter late ?fl))" by (metis assms(2) mset_filter mset_map)
  have split: "mset (map fst (filter late ?fl)) + mset (map fst (filter (Not \<circ> late) ?fl)) = mset (map fst ?fl)"
    by (metis image_mset_union mset_filter_split mset_map)
  have fl: "sm_inflight (qs_sm ?s') = filter (Not \<circ> late) ?fl" "sm_pending (qs_sm ?s') = ?req @ sm_pending (qs_sm s)"
    "qs_held ?s' = qs_held s"
    by (simp_all add: requeueTimedOut_def late_def count_pending_def count_inflight_def Let_def)
  show ?thesis
  proof (rule queue_inv_mset [OF assms(1)])
    have "mset (known_hashes ?s') = mset ?req + mset (sm_pending (qs_sm s)) + (mset (map fst (filter (Not \<circ> late) ?fl)) + mset (qs_held s))"
      by (simp only: known_hashes_def fl mset_append)
    also have "\<dots> = mset (sm_pending (qs_sm s)) + (mset (map fst ?fl) + mset (qs_held s))"
      unfolding req split [symmetric] by (simp only: ac_simps)
    finally show "mset (known_hashes ?s') = mset (known_hashes s)"
      by (simp only: known_hashes_def mset_append)
    show "distinct (map fst (sm_inflight (qs_sm ?s')))"
      using assms(1) unfolding fl queue_inv_def by (simp add: distinct_map_filter)
  qed (use assms(1) in \<open>simp_all add: requeueTimedOut_def queue_inv_def count_pending_def count_inflight_def Let_def\<close>)
qed

lemma queue_reach_inv: "queue_reach alone s \<Longrightarrow> queue_inv alone s"
proof (induction rule: queue_reach.induct)
  case start
  show ?case by (simp add: queue_inv_def known_hashes_def new_sync_manager_def)
next
  case (step s s')
  from step(2,3) show ?case
    by (cases rule: queue_step.cases)
      (auto intro: setHeaders_inv popPending_inv addInFlight_inv clearInFlight_inv requeueTimedOut_inv)
qed

lemma requeue_all:
  assumes "\<And>xs. mset (ord xs) = mset xs"
    "\<And>h t. (h, t) \<in> set (sm_inflight sm) \<Longrightarrow> time_Sub now t > i64 (timeoutSec * 1000000000)"
  shows "sm_inflight (snd (requeueTimedOut ord now timeoutSec sm)) = []"
    "set (sm_pending (snd (requeueTimedOut ord now timeoutSec sm))) = set (map fst (sm_inflight sm)) \<union> set (sm_pending sm)"
proof -
  have ord: "set (ord (sm_inflight sm)) = set (sm_inflight sm)" using assms(1) mset_eq_setD by blast
  have nil: "ord (sm_inflight sm) = [] \<longleftrightarrow> sm_inflight sm = []" using ord by (metis set_empty)
  show "sm_inflight (snd (requeueTimedOut ord now timeoutSec sm)) = []"
    using assms(2) by (auto simp: requeueTimedOut_def count_pending_def count_inflight_def Let_def filter_empty_conv)
  have "filter (\<lambda>(h, t). time_Sub now t > i64 (timeoutSec * 1000000000)) (ord (sm_inflight sm)) = ord (sm_inflight sm)"
    using assms(2) ord by (auto intro!: filter_True)
  then show "set (sm_pending (snd (requeueTimedOut ord now timeoutSec sm))) = set (map fst (sm_inflight sm)) \<union> set (sm_pending sm)"
    using ord nil by (auto simp: requeueTimedOut_def count_pending_def count_inflight_def Let_def)
qed

text \<open>
  C13. No announced block is forgotten by the download queue, whatever the interleaving of the workers,
  of announcements, answers and timeouts: every hash announced and not answered since is queued, in
  flight or in the hands of a worker, the counters of the status are exact, and once every request
  in flight is older than the timeout, \<^verbatim>\<open>requeueTimedOut\<close> puts all of them back into the queue. If
  no announcement falls between the two steps of a worker, no hash is there twice.
\<close>
theorem sync_no_loss:
  assumes "queue_reach alone s" "\<And>xs. mset (ord xs) = mset xs"
  shows "qs_want s \<subseteq> set (sm_pending (qs_sm s)) \<union> set (map fst (sm_inflight (qs_sm s))) \<union> set (qs_held s) \<and>
    sst_PendingBlocks (sm_status (qs_sm s)) = int (length (sm_pending (qs_sm s))) \<and>
    sst_InFlightBlocks (sm_status (qs_sm s)) = int (length (sm_inflight (qs_sm s))) \<and>
    ((\<forall>(h, t) \<in> set (sm_inflight (qs_sm s)). time_Sub now t > i64 (timeoutSec * 1000000000)) \<longrightarrow>
      qs_want s \<subseteq> set (sm_pending (snd (requeueTimedOut ord now timeoutSec (qs_sm s)))) \<union> set (qs_held s)) \<and>
    (alone \<longrightarrow> distinct (sm_pending (qs_sm s) @ map fst (sm_inflight (qs_sm s)) @ qs_held s))"
proof -
  note inv = queue_reach_inv [OF assms(1), unfolded queue_inv_def known_hashes_def]
  have "set (sm_pending (snd (requeueTimedOut ord now timeoutSec (qs_sm s))))
      = set (map fst (sm_inflight (qs_sm s))) \<union> set (sm_pending (qs_sm s))"
    if "\<forall>(h, t) \<in> set (sm_inflight (qs_sm s)). time_Sub now t > i64 (timeoutSec * 1000000000)"
    using that by (intro requeue_all(2) assms(2)) auto
  then show ?thesis using inv by (simp add: Un_assoc) blast
qed

text \<open>An announcement between the two steps of a worker queues a hash that then is in flight as well.\<close>

definition sample_race :: "queue_state list" where
  "sample_race =
     (let sm0 = setHeaders 1 [''b''] new_sync_manager; sm1 = snd (popPending sm0);
          sm2 = setHeaders 1 [''b''] sm1; sm3 = addInFlight 5 ''b'' sm2
      in [\<lparr>qs_sm = sm0, qs_held = [], qs_want = {''b''}\<rparr>, \<lparr>qs_sm = sm1, qs_held = [''b''], qs_want = {''b''}\<rparr>,
          \<lparr>qs_sm = sm2, qs_held = [''b''], qs_want = {''b''}\<rparr>, \<lparr>qs_sm = sm3, qs_held = [], qs_want = {''b''}\<rparr>])"

lemma sample_pop: "popPending (setHeaders 1 [''b''] new_sync_manager) = (Some ''b'', snd (popPending (setHeaders 1 [''b''] new_sync_manager)))"
  by (simp add: popPending_def setHeaders_def new_sync_manager_def count_pending_def)

lemma sample_reach:
  "queue_reach False (sample_race ! 3)" "queue_reach alone (sample_race ! 1)"
proof -
  have 1: "queue_reach alone (sample_race ! 0)" for alone
    using queue_reach.step [OF queue_reach.start queue_step.announce [where c = 1 and hs = "[''b'']"]]
    by (simp add: sample_race_def Let_def)
  have 2: "queue_reach alone (sample_race ! 1)" for alone
    using queue_reach.step [OF 1 queue_step.take_next [where s = "sample_race ! 0" and h = "''b''" and
      sm = "snd (popPending (setHeaders 1 [''b''] new_sync_manager))"]]
    by (simp add: sample_race_def Let_def sample_pop [symmetric])
  have 3: "queue_reach False (sample_race ! 2)"
    using queue_reach.step [OF 2 queue_step.announce [where s = "sample_race ! 1" and c = 1 and hs = "[''b'']"]]
    by (simp add: sample_race_def Let_def)
  show "queue_reach False (sample_race ! 3)"
    using queue_reach.step [OF 3 queue_step.mark [where h = "''b''" and s = "sample_race ! 2" and now = 5]]
    by (simp add: sample_race_def Let_def)
  show "queue_reach alone (sample_race ! 1)" by (rule 2)
qed

lemma sync_race:
  "\<exists>s h. queue_reach False s \<and> h \<in> set (sm_pending (qs_sm s)) \<and> h \<in> set (map fst (sm_inflight (qs_sm s)))"
  by (intro exI [of _ "sample_race ! 3"] exI [of _ "''b''"] conjI sample_reach)
    (simp_all add: sample_race_def Let_def popPending_def setHeaders_def new_sync_manager_def count_pending_def
      addInFlight_def count_inflight_def)

theorem sync_no_loss_witness:
  "qs_want (sample_race ! 1) = {''b''} \<and> qs_held (sample_race ! 1) = [''b''] \<and>
   qs_want (sample_race ! 1) \<subseteq> set (sm_pending (snd (requeueTimedOut id 0 60 (qs_sm (sample_race ! 1))))) \<union> set (qs_held (sample_race ! 1)) \<and>
   distinct (sm_pending (qs_sm (sample_race ! 1)) @ map fst (sm_inflight (qs_sm (sample_race ! 1))) @ qs_held (sample_race ! 1))"
proof -
  have "sm_inflight (qs_sm (sample_race ! 1)) = []"
    by (simp add: sample_race_def Let_def popPending_def setHeaders_def new_sync_manager_def count_pending_def)
  moreover have "qs_want (sample_race ! 1) = {''b''}" "qs_held (sample_race ! 1) = [''b'']"
    by (simp_all add: sample_race_def Let_def)
  ultimately show ?thesis
    using sync_no_loss [OF sample_reach(2) [of True], of id 0 60] by simp
qed

section \<open>Backoff and the queue of missing blocks\<close>

text \<open>After a failure a peer waits between 0 and 64 seconds, with a clock that does not go back.\<close>

lemma peerBackoff_bounds:
  assumes "or_zero (sm_failCount sm peer) > 0" "0 \<le> or_zero (sm_lastFail sm peer)"
    "or_zero (sm_lastFail sm peer) \<le> unix_of now" "unix_of now < 2 ^ 63"
  shows "\<exists>w. peerBackoff now peer sm = Some w \<and> 0 \<le> w \<and> w \<le> 64 * 1000000000"
proof -
  define c lf where "c = or_zero (sm_failCount sm peer)" and "lf = or_zero (sm_lastFail sm peer)"
  define wt :: int where "wt = 2 ^ nat (minInt c 6)"
  have "2 ^ nat (minInt c 6) \<le> (2 :: int) ^ 6"
    using assms(1) by (intro power_increasing) (auto simp: minInt_def c_def)
  then have wt: "wt \<le> 64" by (simp add: wt_def)
  have diff: "i64 (unix_of now - lf) = unix_of now - lf" using assms(2-4) by (intro i64_id) (simp add: lf_def in_i64_def)
  have s: "\<not> minInt c 6 < 0" "c \<noteq> 0" using assms(1) by (auto simp: minInt_def c_def)
  show ?thesis
  proof (cases "unix_of now - lf \<ge> wt")
    case True
    then have "peerBackoff now peer sm = Some 0" using diff s
      by (simp add: peerBackoff_def Let_def c_def [symmetric] lf_def [symmetric] wt_def [symmetric])
    then show ?thesis by simp
  next
    case False
    let ?n = "wt - (unix_of now - lf)"
    have n: "0 < ?n" "?n \<le> 64" using False wt assms(3) by (simp_all add: lf_def)
    then have "i64 ?n = ?n" "i64 (?n * 1000000000) = ?n * 1000000000" by (auto intro!: i64_id simp: in_i64_def)
    then have "peerBackoff now peer sm = Some (?n * 1000000000)" using False diff s
      by (simp add: peerBackoff_def Let_def c_def [symmetric] lf_def [symmetric] wt_def [symmetric])
    then show ?thesis using n by simp
  qed
qed

text \<open>What \<^verbatim>\<open>enqueueMissingFromHeaderTip\<close> adds to the queue are hashes of its path whose block is missing.\<close>

lemma setHeaders_one:
  "sm_pending (setHeaders c [h] sm) = (if h = [] \<or> h \<in> set (sm_pending sm) \<union> set (map fst (sm_inflight sm))
     then sm_pending sm else sm_pending sm @ [h])"
  "sm_inflight (setHeaders c [h] sm) = sm_inflight sm"
  by (simp_all add: setHeaders_def count_pending_def Let_def)

lemma fill_queue_spec:
  "\<exists>new. sm_pending (fill_queue L J d maxFill filled hs sm) = sm_pending sm @ new \<and>
     set new \<subseteq> {h \<in> set hs. \<not> fst (snd (GetBlockByHash L J d h))}"
proof (induction L J d maxFill filled hs sm rule: fill_queue.induct)
  case (2 L J d maxFill filled h hs sm)
  obtain b ok e where g: "GetBlockByHash L J d h = (b, ok, e)" by (metis prod_cases3)
  let ?sm = "setHeaders 0 [h] sm"
  have one: "\<exists>new. sm_pending ?sm = sm_pending sm @ new \<and> set new \<subseteq> {h}" by (auto simp: setHeaders_one)
  consider "ok" | "\<not> ok" "fill_queue L J d maxFill filled (h # hs) sm = ?sm"
    | "\<not> ok" "fill_queue L J d maxFill filled (h # hs) sm = fill_queue L J d maxFill (filled + 1) hs ?sm"
       "\<not> filled + 1 \<ge> maxFill" "\<not> sst_PendingBlocks (sm_snapshot 0 0 ?sm) > 5000"
    using g by (cases ok; cases "filled + 1 \<ge> maxFill \<or> sst_PendingBlocks (sm_snapshot 0 0 ?sm) > 5000") (auto simp: Let_def)
  then show ?case
  proof cases
    case 1
    then show ?thesis using 2(1) [OF g [symmetric] refl] g by fastforce
  next
    case 2
    then show ?thesis using one g by fastforce
  next
    case 3
    obtain new where new: "sm_pending (fill_queue L J d maxFill (filled + 1) hs ?sm) = sm_pending ?sm @ new"
        "set new \<subseteq> {h \<in> set hs. \<not> fst (snd (GetBlockByHash L J d h))}"
      using 2(2) [OF g [symmetric] refl] 3 by blast
    obtain new0 where "sm_pending ?sm = sm_pending sm @ new0" "set new0 \<subseteq> {h}" using one by blast
    then show ?thesis using new 3 g by (intro exI [of _ "new0 @ new"]) auto
  qed
qed simp

end
