(* ===== verification/Reorg.thy ===== *)
theory Reorg
  imports SyncQueue
begin

text \<open>
  Following the best header chain: the block of the best chain at a height
  (\<^verbatim>\<open>bestchain.go\<close>), the finalized boundary, the fork point and the path to a header tip
  (\<^verbatim>\<open>reorg_best.go\<close>), the comparison of a block with its stored header
  (\<^verbatim>\<open>block_header_match.go\<close>), the transactions of the abandoned branch
  (\<^verbatim>\<open>reorg_txs.go\<close>), and the loops that advance the tip over stored candidates
  (\<^verbatim>\<open>TryAdvanceTip\<close>, \<^verbatim>\<open>TryCommitNext\<close>, \<^verbatim>\<open>TryConvergeToBest\<close> of \<^verbatim>\<open>node.go\<close>).
\<close>

section \<open>What the sources use and do not declare\<close>

text \<open>
  \<open>rx_findForkPointCached\<close> is called and not declared, and so is the field \<^verbatim>\<open>Timestamp\<close> of a
  header; \<open>rx_blk\<close> is the variable \<^verbatim>\<open>blk\<close> that \<^verbatim>\<open>TryAdvanceTip\<close> uses out of scope and
  \<open>rx_txs\<close> the variable \<^verbatim>\<open>txs\<close> of \<^verbatim>\<open>Mempool.Add\<close>. \<open>rx_StrictLinear\<close> and
  \<open>rx_MaxQueueFill\<close> are read from the configuration, which has no such entries.
\<close>

record 'd reorg_ext =
  rx_findForkPointCached :: "'d \<Rightarrow> u64 \<Rightarrow> string \<Rightarrow> u64 \<Rightarrow> string \<Rightarrow> (error + u64 \<times> string) option"
  rx_Timestamp :: "block_header \<Rightarrow> int"
  rx_blk :: block
  rx_txs :: "tx list"
  rx_StrictLinear :: bool
  rx_MaxQueueFill :: int
  rx_cand :: "candidate codec"

section \<open>The best chain and the finalized boundary\<close>

definition BestChainHashAtHeight :: "'d leveldb \<Rightarrow> node_codecs \<Rightarrow> 'd \<Rightarrow> u64 \<Rightarrow> (string \<times> bool) option" where
  "BestChainHashAtHeight L J d target =
     (case GetHeaderTip L d of
        (hdrH, hdrHash, ok, _) \<Rightarrow>
          (let (hdrHash, ok) = (case GetBestChainTip L d of
                                  (tip, okT, _) \<Rightarrow> if okT \<and> tip \<noteq> [] then (tip, True) else (hdrHash, ok))
           in if \<not> ok \<or> hdrHash = [] then Some ([], False)
              else if target > hdrH then Some ([], False)
              else (case GetBestHashAtHeight L d target of
                      (v, okC, _) \<Rightarrow>
                        if okC \<and> v \<noteq> [] then Some (v, True)
                        else do { (anc, okA, _) \<leftarrow> GetHeaderAncestorHashAtHeight L (nc_header J) d hdrHash target;
                                  Some (anc, okA) })))"

definition enforceFinalizedOnCandidate ::
  "'d leveldb \<Rightarrow> node_codecs \<Rightarrow> (block \<Rightarrow> hash) \<Rightarrow> 'd \<Rightarrow> string \<Rightarrow> err option" where
  "enforceFinalizedOnCandidate L J blockHash d candidateTipHash =
     (case GetFinalizedHeight L d of
        (finH, ok, _) \<Rightarrow>
          if \<not> ok \<or> finH = 0 then Some None
          else (case GetBlockByHeight L (nc_block J) d finH of
                  (mainB, okb, _, _) \<Rightarrow>
                    if \<not> okb then Some None
                    else let mainHash = Hash_String (blockHash mainB)
                         in do { (candHash, okc, _) \<leftarrow> GetAncestorHashAtHeight L (nc_block J) blockHash d candidateTipHash finH;
                                 Some (if \<not> okc then None
                                       else if candHash \<noteq> mainHash then Some (Err ''violates_finalized'') else None) }))"

definition BlockMatchesStoredHeader ::
  "'d leveldb \<Rightarrow> node_codecs \<Rightarrow> (block \<Rightarrow> hash) \<Rightarrow> (block_header \<Rightarrow> int) \<Rightarrow> 'd \<Rightarrow> block \<Rightarrow> err" where
  "BlockMatchesStoredHeader L J blockHash Timestamp d b =
     (case GetHeaderByHash L (nc_header J) d (Hash_String (blockHash b)) of
        (hdr, ok, e) \<Rightarrow>
          (let bh = b_Header b
           in case e of
                Some e \<Rightarrow> Some e
              | None \<Rightarrow>
                  if \<not> ok then Some (Err ''missing_header'')
                  else if bh_Height hdr \<noteq> bh_Height bh then Some (Err ''height_mismatch'')
                  else if bh_PrevHash hdr \<noteq> bh_PrevHash bh then Some (Err ''prev_mismatch'')
                  else if bh_Bits hdr \<noteq> bh_Bits bh then Some (Err ''bits_mismatch'')
                  else if Timestamp hdr \<noteq> Timestamp bh then Some (Err ''ts_mismatch'')
                  else if bh_TxRoot hdr \<noteq> bh_TxRoot bh then Some (Err ''txroot_mismatch'')
                  else None))"

section \<open>The fork point and the path from it\<close>

partial_function (option) fork_walk ::
  "'d leveldb \<Rightarrow> node_codecs \<Rightarrow> (block \<Rightarrow> hash) \<Rightarrow> 'd \<Rightarrow> u64 \<Rightarrow> string \<Rightarrow> (error + u64 \<times> string) option" where
  "fork_walk L J blockHash d curH cur =
     (case GetHeaderByHash L (nc_header J) d cur of
        (hdr, ok, e) \<Rightarrow>
          (case e of
             Some e \<Rightarrow> Some (Inl e)
           | None \<Rightarrow>
               if \<not> ok then Some (Inl (Err ''unknown_header''))
               else let h = bh_Height hdr
                    in if h = 0 then Some (Inr (0, []))
                       else (case GetBlockByHeight L (nc_block J) d h of
                               (b, okb, _, _) \<Rightarrow>
                                 if h \<le> curH \<and> okb \<and> Hash_String (blockHash b) = cur then Some (Inr (h, cur))
                                 else fork_walk L J blockHash d curH (Hash_String (bh_PrevHash hdr)))))"

definition findForkPoint ::
  "'d leveldb \<Rightarrow> node_codecs \<Rightarrow> (block \<Rightarrow> hash) \<Rightarrow> 'd \<Rightarrow> u64 \<Rightarrow> string \<Rightarrow> u64 \<Rightarrow> string \<Rightarrow> (error + u64 \<times> string) option" where
  "findForkPoint L J blockHash d curH curHash headH headHash =
     (if curHash = [] then Some (Inr (0, [])) else fork_walk L J blockHash d curH headHash)"

partial_function (option) path_walk_to ::
  "'d leveldb \<Rightarrow> block_header codec \<Rightarrow> 'd \<Rightarrow> u64 \<Rightarrow> u64 \<Rightarrow> string \<Rightarrow> string list \<Rightarrow> (error + string list) option" where
  "path_walk_to L J d fromH toH cur sq =
     (case GetHeaderByHash L J d cur of
        (hdr, ok, e) \<Rightarrow>
          (case e of
             Some e \<Rightarrow> Some (Inl e)
           | None \<Rightarrow>
               if \<not> ok then Some (Inl (Err ''unknown_header''))
               else if bh_Height hdr < fromH then Some (Inr sq)
               else let sq = (if bh_Height hdr \<le> toH then sq @ [cur] else sq)
                    in if bh_Height hdr = fromH then Some (Inr sq)
                       else path_walk_to L J d fromH toH (Hash_String (bh_PrevHash hdr)) sq))"

text \<open>The capacity of \<^verbatim>\<open>make([]string, 0, toH-fromH+1)\<close> is unsigned.\<close>

definition headerPathFromTo ::
  "'d leveldb \<Rightarrow> node_codecs \<Rightarrow> 'd \<Rightarrow> u64 \<Rightarrow> u64 \<Rightarrow> string \<Rightarrow> (error + string list) option" where
  "headerPathFromTo L J d fromH toH tipHash =
     (if toH < fromH then Some (Inr [])
      else if make_panics 16 (uint (toH - fromH + 1)) then None
      else do { r \<leftarrow> path_walk_to L (nc_header J) d fromH toH tipHash [];
                Some (case r of Inl e \<Rightarrow> Inl e | Inr sq \<Rightarrow> Inr (rev sq)) })"

section \<open>\<^verbatim>\<open>ReorgToBestHeaderChain\<close>\<close>

definition collect_txs :: "'d leveldb \<Rightarrow> node_codecs \<Rightarrow> 'd \<Rightarrow> u64 \<Rightarrow> tx list \<Rightarrow> (tx list + tx list) option" where
  "collect_txs L J d h oldTxs =
     (case GetBlockByHeight L (nc_block J) d h of
        (ob, okb, _, _) \<Rightarrow>
          Some (if \<not> okb then Inl oldTxs
                else Inr (oldTxs @ filter (\<lambda>tx. tx_Type tx \<noteq> ''coinbase'') (b_Txs ob))))"

definition advance_step ::
  "('d, 'f, 'p, 's) node \<Rightarrow> 'd reorg_ext \<Rightarrow> string \<Rightarrow> 'd \<Rightarrow> ((error \<times> 'd) + 'd) option" where
  "advance_step N R bh d =
     (let L = np_L N; J = np_J N
      in case GetBlockByHash L (nc_block J) d bh of
           (blk, ok, _) \<Rightarrow>
             if \<not> ok then Some (Inl (Err (''missing_block_'' @ bh), d))
             else (case BlockMatchesStoredHeader L J (ne_blockHash (np_env N)) (rx_Timestamp R) d blk of
                     Some e \<Rightarrow> Some (Inl (e, d))
                   | None \<Rightarrow>
                       do { (e, d) \<leftarrow> nx_ApplyBlock (np_X N) blk d;
                            Some (case e of
                                    Some e \<Rightarrow> Inl (e, d)
                                  | None \<Rightarrow> Inr (snd (SetTip L (nc_u64 J) d (bh_Height (b_Header blk)) bh))) }))"

fun ReinsertTxs :: "('d, 'f, 'p, 's) node \<Rightarrow> tx list \<Rightarrow> int \<Rightarrow> 'd \<Rightarrow> tx list \<Rightarrow> mempool \<Rightarrow> mempool option" where
  "ReinsertTxs N pool now d [] m = Some m"
| "ReinsertTxs N pool now d (tx # txs) m =
     do { (_, _, m) \<leftarrow> mp_Add (np_L N) (ne_hash256 (np_env N)) pool now d tx m; ReinsertTxs N pool now d txs m }"

definition move_to_tip ::
  "('d, 'f, 'p, 's) node \<Rightarrow> 'd reorg_ext \<Rightarrow> int \<Rightarrow> 'f \<Rightarrow> u64 \<Rightarrow> u64 \<Rightarrow> string \<Rightarrow> tx list \<Rightarrow> 'd \<times> mempool \<Rightarrow> (err \<times> 'd \<times> mempool) option" where
  "move_to_tip N R now f forkH hH hHash oldTxs s =
     (case s of (d, m) \<Rightarrow>
        do { (e, d) \<leftarrow> RebuildStateToHeight (np_L N) (np_J N) (np_X N) (np_F N) (np_env N) f d forkH;
             (case e of
                Some e \<Rightarrow> Some (Some e, d, m)
              | None \<Rightarrow>
                  do { r \<leftarrow> headerPathFromTo (np_L N) (np_J N) d (forkH + 1) hH hHash;
                       (case r of
                          Inl e \<Rightarrow> Some (Some e, d, m)
                        | Inr path \<Rightarrow>
                            do { r \<leftarrow> foldE (advance_step N R) path d;
                                 (case r of
                                    Inl (e, d) \<Rightarrow> Some (Some e, d, m)
                                  | Inr d \<Rightarrow> do { m \<leftarrow> ReinsertTxs N (rx_txs R) now d oldTxs m; Some (None, d, m) }) }) }) })"

definition ReorgToBestHeaderChain ::
  "('d, 'f, 'p, 's) node \<Rightarrow> 'd reorg_ext \<Rightarrow> int \<Rightarrow> 'f \<Rightarrow> 'd \<times> mempool \<Rightarrow> (err \<times> 'd \<times> mempool) option" where
  "ReorgToBestHeaderChain N R now f s =
     (case s of (d, m) \<Rightarrow>
        (let L = np_L N; J = np_J N
         in case GetTip L (nc_u64 J) d of
              (curH, curHash, okCur, _) \<Rightarrow>
                (let curH = (if \<not> okCur then 0 else curH); curHash = (if \<not> okCur then [] else curHash)
                 in case GetHeaderTip L d of
                      (hH, hHash, okH, _) \<Rightarrow>
                        if \<not> okH \<or> hHash = [] then Some (Some (Err ''no_header_tip''), d, m)
                        else if curHash \<noteq> [] \<and> curHash = hHash then Some (None, d, m)
                        else do { v \<leftarrow> enforceFinalizedOnCandidate L J (ne_blockHash (np_env N)) d hHash;
                                  (case v of
                                     Some e \<Rightarrow> Some (Some e, d, m)
                                   | None \<Rightarrow>
                                       do { fp \<leftarrow> rx_findForkPointCached R d curH curHash hH hHash;
                                            (case fp of
                                               Inl e \<Rightarrow> Some (Some e, d, m)
                                             | Inr (forkH, forkHash) \<Rightarrow>
                                                 do { txs \<leftarrow> (if curH > forkH then for_u64 (collect_txs L J d) (forkH + 1) curH []
                                                              else Some (Inr []));
                                                      move_to_tip N R now f forkH hH hHash
                                                        (case txs of Inl ts \<Rightarrow> ts | Inr ts \<Rightarrow> ts) (d, m) }) }) })))"

section \<open>Advancing over candidates\<close>

definition del_candidates :: "'d leveldb \<Rightarrow> u64 \<Rightarrow> candidate list \<Rightarrow> 'd \<Rightarrow> 'd" where
  "del_candidates L h cands d = foldl (\<lambda>d c. DelCandidate L d h (ca_Hash c)) d cands"

text \<open>The tip, or height 0 and no hash where there is none.\<close>

definition tip_or_zero :: "'d leveldb \<Rightarrow> node_codecs \<Rightarrow> 'd \<Rightarrow> u64 \<times> string" where
  "tip_or_zero L J d =
     (case GetTip L (nc_u64 J) d of (tipH, tipHash, okTip, _) \<Rightarrow> if \<not> okTip then (0, []) else (tipH, tipHash))"

partial_function (option) advance_loop ::
  "('d, 'f, 'p, 's) node \<Rightarrow> 'd reorg_ext \<Rightarrow> 'd \<times> sync_manager \<Rightarrow> ('d \<times> sync_manager) option" where
  "advance_loop N R s =
     (case s of (d, sm) \<Rightarrow>
        (let L = np_L N; J = np_J N; nextH = fst (tip_or_zero L J d) + 1
         in case ListCandidatesAtHeight L (rx_cand R) d nextH 64 of
              (cands, e) \<Rightarrow>
                if e \<noteq> None \<or> cands = [] then Some (d, sm)
                else (case find (\<lambda>c. ca_PrevHash c = snd (tip_or_zero L J d)) cands of
                        None \<Rightarrow> Some (d, sm)
                      | Some c \<Rightarrow>
                          if ca_Hash c = [] then Some (d, sm)
                          else do { v \<leftarrow> enforceFinalizedOnCandidate L J (ne_blockHash (np_env N)) d (ca_Hash c);
                                    if v \<noteq> None then Some (d, sm)
                                    else do { (e, d) \<leftarrow> nx_ApplyBlock (np_X N) (rx_blk R) d;
                                              if e \<noteq> None then Some (d, sm)
                                              else let d = snd (SetTip L (nc_u64 J) d (bh_Height (b_Header (rx_blk R))) (ca_Hash c))
                                                   in do { sm \<leftarrow> enqueueMissingFromHeaderTip L J (rx_MaxQueueFill R) d sm;
                                                           advance_loop N R (del_candidates L nextH cands d, sm) } } })))"

definition TryAdvanceTip ::
  "('d, 'f, 'p, 's) node \<Rightarrow> 'd reorg_ext \<Rightarrow> 'd \<times> sync_manager \<Rightarrow> ('d \<times> sync_manager) option" where
  "TryAdvanceTip N R s =
     (case s of (d, sm) \<Rightarrow>
        (case GetFinalizedHeight (np_L N) d of
           (finH, okF, _) \<Rightarrow>
             do { d \<leftarrow> (if okF \<and> finH > 0
                        then do { r \<leftarrow> for_u64 (\<lambda>h d. Some (Inr (del_candidates (np_L N) h
                                           (fst (ListCandidatesAtHeight (np_L N) (rx_cand R) d h 200)) d)) :: (unit + 'd) option)
                                         0 finH (DeleteHeadersBelowHeight (np_L N) d finH);
                                  case r of Inl _ \<Rightarrow> None | Inr d \<Rightarrow> Some d }
                        else Some d);
                  if \<not> rx_StrictLinear R then Some (d, sm) else advance_loop N R (d, sm) }))"

partial_function (option) TryCommitNext ::
  "('d, 'f, 'p, 's) node \<Rightarrow> 'd reorg_ext \<Rightarrow> 'd \<times> sync_manager \<Rightarrow> ('d \<times> sync_manager) option" where
  "TryCommitNext N R s =
     (case s of (d, sm) \<Rightarrow>
        (let L = np_L N; J = np_J N; tipHash = snd (tip_or_zero L J d); nextH = fst (tip_or_zero L J d) + 1
         in do { (want, okW) \<leftarrow> BestChainHashAtHeight L J d nextH;
                 (let cands = fst (ListCandidatesAtHeight L (rx_cand R) d nextH 256)
                  in case find (\<lambda>c. ca_PrevHash c = tipHash \<and> \<not> (okW \<and> want \<noteq> [] \<and> ca_Hash c \<noteq> want)) cands of
                       None \<Rightarrow> Some (d, sm)
                     | Some c \<Rightarrow>
                         if ca_Hash c = [] then Some (d, sm)
                         else do { v \<leftarrow> enforceFinalizedOnCandidate L J (ne_blockHash (np_env N)) d (ca_Hash c);
                                   if v \<noteq> None then Some (d, sm)
                                   else (case GetBlockByHash L (nc_block J) d (ca_Hash c) of
                                           (blk, okB, _) \<Rightarrow>
                                             if \<not> okB then Some (d, sm)
                                             else if BlockMatchesStoredHeader L J (ne_blockHash (np_env N)) (rx_Timestamp R) d blk \<noteq> None
                                             then Some (d, sm)
                                             else do { (e, d) \<leftarrow> nx_ApplyBlock (np_X N) blk d;
                                                       if e \<noteq> None then Some (d, sm)
                                                       else let d = snd (SetTip L (nc_u64 J) d (bh_Height (b_Header blk)) (ca_Hash c));
                                                                d = del_candidates L nextH cands d
                                                            in do { sm \<leftarrow> enqueueMissingFromHeaderTip L J (rx_MaxQueueFill R) d sm;
                                                                    TryCommitNext N R (d, sm) } }) }) }))"

definition TryConvergeToBest ::
  "('d, 'f, 'p, 's) node \<Rightarrow> 'd reorg_ext \<Rightarrow> int \<Rightarrow> 'f \<Rightarrow> 'd \<times> sync_manager \<times> mempool \<Rightarrow> (err \<times> 'd \<times> sync_manager \<times> mempool) option" where
  "TryConvergeToBest N R now f s =
     (case s of (d, sm, m) \<Rightarrow>
        do { sm \<leftarrow> enqueueMissingFromHeaderTip (np_L N) (np_J N) (rx_MaxQueueFill R) d sm;
             (d, sm) \<leftarrow> TryCommitNext N R (d, sm);
             (case GetTip (np_L N) (nc_u64 (np_J N)) d of
                (_, curHash, okC, _) \<Rightarrow>
                  (case GetHeaderTip (np_L N) d of
                     (_, bestHash, okH, _) \<Rightarrow>
                       if okC \<and> okH \<and> curHash \<noteq> [] \<and> bestHash \<noteq> [] \<and> curHash \<noteq> bestHash
                       then do { (e, d, m) \<leftarrow> ReorgToBestHeaderChain N R now f (d, m); Some (e, d, sm, m) }
                       else Some (None, d, sm, m))) })"

end
