(* ===== verification/ReorgProps.thy ===== *)
theory ReorgProps
  imports Reorg SubmitProps
begin

text \<open>
  Properties of the walks over headers and of a reorganisation: the path to a header tip is
  the branch from the fork, and a branch that is known to leave the main chain below the recorded
  finalized height is refused, with the store unchanged.
\<close>

section \<open>Paths along headers\<close>

text \<open>
  \<open>hdr_path look c n cs\<close>: \<open>cs\<close> are the hashes from \<open>c\<close> down to its ancestor at height \<open>n\<close>. The two
  walks that collect such a path share the laws of the locale \<open>path_collector\<close>: \<open>walk n c sq\<close> goes on at
  the parent while the height is above \<open>n\<close> and ends at \<open>n\<close>, with the hashes seen appended to \<open>sq\<close>.
\<close>

inductive hdr_path :: "(string \<Rightarrow> (u64 \<times> string \<times> string) option \<times> err) \<Rightarrow> string \<Rightarrow> u64 \<Rightarrow> string list \<Rightarrow> bool"
  for look where
  path_end: "look c = (Some (n, r, p), None) \<Longrightarrow> hdr_path look c n [c]"
| path_up: "look c = (Some (h, r, p), None) \<Longrightarrow> n < h \<Longrightarrow> hdr_path look p n cs \<Longrightarrow> hdr_path look c n (c # cs)"

inductive_cases hdr_pathE: "hdr_path look c n cs"

locale path_collector =
  fixes look :: "string \<Rightarrow> (u64 \<times> string \<times> string) option \<times> err"
    and highest :: u64
    and walk :: "u64 \<Rightarrow> string \<Rightarrow> string list \<Rightarrow> 'r option"
    and fin :: "string list \<Rightarrow> 'r option"
  assumes walk_end: "look c = (Some (n, r, p), None) \<Longrightarrow> n \<le> highest \<Longrightarrow> walk n c sq = fin (sq @ [c])"
    and walk_up: "look c = (Some (h, r, p), None) \<Longrightarrow> h \<le> highest \<Longrightarrow> n < h \<Longrightarrow> walk n c sq = walk n p (sq @ [c])"
begin

lemma walk_path:
  assumes "hdr_path look c n cs" "descending look" "look c = (Some (h, r, p), None)" "h \<le> highest"
  shows "walk n c sq = fin (sq @ cs)"
  using assms
proof (induction arbitrary: h r p sq)
  case (path_end c n r p)
  then show ?case using walk_end by auto
next
  case (path_up c h' r' p' n cs)
  then have eq: "h' = h" "p' = p" by simp_all
  obtain h1 r1 p1 where look: "look p = (Some (h1, r1, p1), None)"
    using path_up.hyps(3) unfolding eq by (auto elim: hdr_pathE)
  have "h \<noteq> 0" using path_up.hyps(2) unfolding eq by auto
  then have "h1 < h" using path_up.prems(1,2) look unfolding descending_def eq by blast
  then have "walk n p (sq @ [c]) = fin ((sq @ [c]) @ cs)"
    using path_up.IH [of h1 r1 p1 "sq @ [c]"] path_up.prems(1,3) look unfolding eq by simp
  then show ?case using walk_up [OF path_up.prems(2,3)] path_up.hyps(2) unfolding eq by simp
qed

end

interpretation queue_path: path_collector "hdr_look L J d" "- 1" "header_walk L J d" Some for L J d
proof
  fix c n r p sq
  assume "hdr_look L J d c = (Some (n, r, p), None)"
  then show "header_walk L J d n c sq = Some (sq @ [c])"
    by (subst header_walk.simps) (auto simp: hdr_look_def Let_def split: prod.splits if_splits)
next
  fix c h r p n sq
  assume "hdr_look L J d c = (Some (h, r, p), None)" "n < h"
  then show "header_walk L J d n c sq = header_walk L J d n p (sq @ [c])"
    by (subst header_walk.simps) (auto simp: hdr_look_def Let_def split: prod.splits if_splits)
qed

interpretation reorg_path: path_collector "hdr_look L J d" toH "\<lambda>n. path_walk_to L J d n toH" "\<lambda>sq. Some (Inr sq)"
  for L J d toH
proof
  fix c n r p sq
  assume "hdr_look L J d c = (Some (n, r, p), None)" "n \<le> toH"
  then show "path_walk_to L J d n toH c sq = Some (Inr (sq @ [c]))"
    by (subst path_walk_to.simps) (auto simp: hdr_look_def Let_def split: prod.splits if_splits)
next
  fix c h r p n sq
  assume "hdr_look L J d c = (Some (h, r, p), None)" "h \<le> toH" "n < h"
  then show "path_walk_to L J d n toH c sq = path_walk_to L J d n toH p (sq @ [c])"
    by (subst path_walk_to.simps) (auto simp: hdr_look_def Let_def split: prod.splits if_splits)
qed

text \<open>An ancestor at height \<open>n\<close> gives a path, so both walks return it.\<close>

lemma anc_path:
  assumes "anc look c a" "descending look" "look a = (Some (n, r, p), None)"
  shows "\<exists>cs. hdr_path look c n cs \<and> last cs = a"
  using assms
proof induction
  case (anc_refl c)
  then show ?case by (intro exI [of _ "[c]"]) (auto intro: path_end)
next
  case (anc_step c h r0 p0 a)
  then obtain cs where cs: "hdr_path look p0 n cs" "last cs = a" by blast
  obtain h1 r1 p1 where look: "look p0 = (Some (h1, r1, p1), None)"
    using anc_known [OF anc_step.hyps(3) anc_step.prems(2)] by blast
  then have "h1 < h" using anc_step.prems(1) anc_step.hyps unfolding descending_def by blast
  moreover have "n \<le> h1" using anc_height_le [OF anc_step.hyps(3) anc_step.prems(1) look anc_step.prems(2)] .
  ultimately have "hdr_path look c n (c # cs)" using anc_step.hyps(1) cs(1) by (intro path_up) auto
  moreover have "cs \<noteq> []" using cs(1) by (auto elim: hdr_pathE)
  ultimately show ?case using cs(2) by (intro exI [of _ "c # cs"]) simp
qed

lemma headerPathFromTo_path:
  assumes "hdr_path (hdr_look L (nc_header J) d) tip n cs" "descending (hdr_look L (nc_header J) d)"
    "hdr_look L (nc_header J) d tip = (Some (h, r, p), None)" "n \<le> h" "uint (h - n + 1) < 2 ^ 44"
  shows "headerPathFromTo L J d n h tip = Some (Inr (rev cs))"
  using reorg_path.walk_path [OF assms(1-3), of h "[]"] assms(4,5) by (simp add: headerPathFromTo_def make_panics_def)

lemma hdr_path_Cons: "hdr_path look c n cs \<Longrightarrow> \<exists>xs. cs = c # xs"
  by (auto elim: hdr_pathE)

section \<open>A reorganisation and the finalized height\<close>

text \<open>The candidate has a stored ancestor at the finalized height that is not the block of the main chain there.\<close>

definition leaves_finalized ::
  "(string \<Rightarrow> (u64 \<times> string \<times> string) option \<times> err) \<Rightarrow> u64 \<Rightarrow> string \<Rightarrow> string \<Rightarrow> bool" where
  "leaves_finalized look finH mainHash tip \<longleftrightarrow>
     (\<exists>a r p. anc look tip a \<and> look a = (Some (finH, r, p), None) \<and> r \<noteq> mainHash)"

lemma enforceFinalized_exact:
  assumes "descending (blk_look L (nc_block J) blockHash d)" "GetFinalizedHeight L d = (finH, True, e)" "finH \<noteq> 0"
    "GetBlockByHeight L (nc_block J) d finH = (mainB, True, x, e')"
  shows "enforceFinalizedOnCandidate L J blockHash d tip =
    Some (if leaves_finalized (blk_look L (nc_block J) blockHash d) finH (Hash_String (blockHash mainB)) tip
          then Some (Err ''violates_finalized'') else None)"
proof -
  let ?look = "blk_look L (nc_block J) blockHash d" and ?main = "Hash_String (blockHash mainB)"
  obtain r ok e2 where w: "GetAncestorHashAtHeight L (nc_block J) blockHash d tip finH = Some (r, ok, e2)"
    using blk_walk.walk_returns [OF assms(1)] by blast
  have "leaves_finalized ?look finH ?main tip \<longleftrightarrow> ok \<and> r \<noteq> ?main"
  proof
    assume "leaves_finalized ?look finH ?main tip"
    then obtain a r' p where "anc ?look tip a" "?look a = (Some (finH, r', p), None)" "r' \<noteq> ?main"
      unfolding leaves_finalized_def by blast
    then show "ok \<and> r \<noteq> ?main" using blk_walk.walk_complete [OF _ assms(1), of tip a] w by auto
  next
    assume ok: "ok \<and> r \<noteq> ?main"
    then show "leaves_finalized ?look finH ?main tip"
      using blk_walk.walk_sound [OF assms(1), of tip finH r e2] w unfolding leaves_finalized_def by fastforce
  qed
  then show ?thesis using assms(2-4) w by (simp add: enforceFinalizedOnCandidate_def Let_def)
qed

text \<open>
  C14. A reorganisation does not leave the finalized block. In a store in which a parent is lower than
  its child, with a finalized height on record and the block of the main chain at it: a header tip
  whose stored ancestor at the finalized height is another block is refused by
  \<^verbatim>\<open>ReorgToBestHeaderChain\<close>, whatever the functions that no source declares do, and the store and the
  mempool are unchanged. The boundary check passes every other tip, also one whose ancestor at that
  height is not known.
\<close>

theorem reorg_respects_finalized:
  assumes "descending (blk_look (np_L N) (nc_block (np_J N)) (ne_blockHash (np_env N)) d)"
    "GetFinalizedHeight (np_L N) d = (finH, True, e)" "finH \<noteq> 0"
    "GetBlockByHeight (np_L N) (nc_block (np_J N)) d finH = (mainB, True, x, e')"
    "GetTip (np_L N) (nc_u64 (np_J N)) d = (curH, curHash, okCur, e1)"
    "GetHeaderTip (np_L N) d = (hH, hHash, True, e2)" "hHash \<noteq> []" "curHash \<noteq> hHash"
  shows "if leaves_finalized (blk_look (np_L N) (nc_block (np_J N)) (ne_blockHash (np_env N)) d) finH
              (Hash_String (ne_blockHash (np_env N) mainB)) hHash
    then ReorgToBestHeaderChain N R now f (d, m) = Some (Some (Err ''violates_finalized''), d, m)
    else enforceFinalizedOnCandidate (np_L N) (np_J N) (ne_blockHash (np_env N)) d hHash = Some None"
  using enforceFinalized_exact [OF assms(1-4), of hHash] assms(5-8) by (simp add: ReorgToBestHeaderChain_def Let_def)

text \<open>A node at height 1 on block \<open>a\<close>, which is final, with another block \<open>c\<close> of that height as its header tip.\<close>

definition reorg_block :: block where
  "reorg_block = zero_block\<lparr>b_Header := zero_header\<lparr>bh_Height := 1\<rparr>\<rparr>"

definition reorg_env :: "(unit, unit) node_env" where
  "reorg_env = sample_env\<lparr>ne_blockHash := (\<lambda>b. if bh_Nonce (b_Header b) = 0 then zero_hash else replicate 32 (CHR 0x01))\<rparr>"

definition reorg_node :: "((bytes \<times> bytes) list, unit, unit, unit) node" where
  "reorg_node = sample_node\<lparr>np_fin := sample_fin_node\<lparr>fn_env := reorg_env\<rparr>,
     np_J := sample_chain_codecs\<lparr>nc_block := table_codec zero_block
       [(''A'', reorg_block), (''C'', reorg_block\<lparr>b_Header := (b_Header reorg_block)\<lparr>bh_Nonce := 1\<rparr>\<rparr>)]\<rparr>\<rparr>"

definition reorg_store :: "(bytes \<times> bytes) list" where
  "reorg_store = [(keyTipHeight, ''1''), (keyTipBlockID, ''a''), (keyHeaderTipH, PutUint64 1), (keyHeaderTipHash, ''c''),
     (keyBlockByHash ''a'', ''A''), (keyBlockByHash ''c'', ''C''), (keyHashByHeight 1, ''a''), (keyFinalized, PutUint64 1)]"

definition reorg_rest :: "((bytes \<times> bytes) list) reorg_ext" where
  "reorg_rest = \<lparr>rx_findForkPointCached = (\<lambda>_ _ _ _ _. Some (Inr (0, []))), rx_Timestamp = bh_TimeUnix,
     rx_blk = zero_block, rx_txs = [], rx_StrictLinear = True, rx_MaxQueueFill = 10,
     rx_cand = no_codec \<lparr>ca_Height = 0, ca_Hash = [], ca_PrevHash = []\<rparr>\<rparr>"

lemma reorg_node_simps [simp]:
  "np_L reorg_node = alist_db" "np_env reorg_node = reorg_env"
  "nc_u64 (np_J reorg_node) = table_codec 0 [(''0'', 0), (''1'', 1)]"
  "nc_block (np_J reorg_node) = table_codec zero_block
     [(''A'', reorg_block), (''C'', reorg_block\<lparr>b_Header := (b_Header reorg_block)\<lparr>bh_Nonce := 1\<rparr>\<rparr>)]"
  by (simp_all add: reorg_node_def sample_node_def sample_chain_codecs_def sample_fin_node_def)

lemmas store_eval = db_lookup_eq [OF alist_db_laws] ldb_Get_eq [OF alist_db_laws]

lemma long_hash: "Hash_String h \<noteq> ''a''" "Hash_String h \<noteq> ''c''" if "length h = 32"
  using Hash_String_length [of h] that by (auto simp del: Hash_String_length)

lemmas reorg_keys = key_defs keyHeaderTipH_def keyHeaderTipHash_def keyFinalized_def

lemma reorg_store_eval:
  "GetTip alist_db (nc_u64 (np_J reorg_node)) reorg_store = (1, ''a'', True, None)"
  "GetHeaderTip alist_db reorg_store = (1, ''c'', True, None)"
  "GetFinalizedHeight alist_db reorg_store = (1, True, None)"
  "GetBlockByHeight alist_db (nc_block (np_J reorg_node)) reorg_store 1 = (reorg_block, True, ''a'', None)"
  by (simp_all add: GetTip_def GetHeaderTip_def GetFinalizedHeight_def get_u64_8_def GetBlockByHash_def GetBlockByHeight_def
      GetHashByHeight_def get_string_def get_json_def store_eval reorg_store_def table_codec_def reorg_keys get_or_nil_def be_int_PutUint64)

lemma reorg_look:
  "blk_look alist_db (nc_block (np_J reorg_node)) (ne_blockHash reorg_env) reorg_store h =
     (if h = ''a'' then Some (1, Hash_String zero_hash, Hash_String zero_hash)
      else if h = ''c'' then Some (1, Hash_String (replicate 32 (CHR 0x01)), Hash_String zero_hash) else None, None)"
  by (simp add: blk_look_def GetBlockByHash_def get_json_def store_eval reorg_store_def table_codec_def reorg_keys reorg_env_def
      reorg_block_def zero_header_def)

theorem reorg_respects_finalized_witness:
  "ReorgToBestHeaderChain reorg_node reorg_rest 0 () (reorg_store, NewMempool (cfg_Mempool sample_config)) =
     Some (Some (Err ''violates_finalized''), reorg_store, NewMempool (cfg_Mempool sample_config))"
proof -
  let ?look = "blk_look (np_L reorg_node) (nc_block (np_J reorg_node)) (ne_blockHash (np_env reorg_node)) reorg_store"
  have z: "Hash_String zero_hash \<noteq> ''a''" "Hash_String zero_hash \<noteq> ''c''" by (simp_all add: long_hash zero_hash_def)
  have desc: "descending ?look" by (auto simp: descending_def reorg_look z simp del: reorg_node_simps(4))
  have main: "ne_blockHash reorg_env reorg_block = zero_hash" by (simp add: reorg_env_def reorg_block_def zero_header_def)
  have "Hash_String (replicate 32 (CHR 0x01)) \<noteq> Hash_String zero_hash" by code_simp
  then have leaves: "leaves_finalized ?look 1 (Hash_String (ne_blockHash (np_env reorg_node) reorg_block)) ''c''"
    unfolding leaves_finalized_def
    by (intro exI [of _ "''c''"] exI [of _ "Hash_String (replicate 32 (CHR 0x01))"] exI [of _ "Hash_String zero_hash"])
      (simp add: reorg_look main anc_refl del: reorg_node_simps(4))
  show ?thesis
    using desc leaves reorg_respects_finalized [of reorg_node reorg_store 1 None reorg_block "''a''" None 1 "''a''" True None 1 "''c''" None]
      reorg_store_eval by (simp del: reorg_node_simps(4))
qed

end
