(* ===== verification/Otap.thy ===== *)
theory Otap
  imports Crypto Sha256
begin

text \<open>
  One-time addresses: \<^verbatim>\<open>core/crypto/otap/otap.go\<close> and \<^verbatim>\<open>memo.go\<close>, with the part of
  \<^verbatim>\<open>encoding/base64\<close> they use. A sender derives the address \<open>P\<close> and the hint \<open>R\<close> from the
  recipient's public keys; the recipient finds the output with the scan key and derives the key that
  spends it. The group is that of the theory on signatures; \<^verbatim>\<open>chacha20poly1305\<close> and
  \<^verbatim>\<open>hkdf\<close> of \<^verbatim>\<open>golang.org/x/crypto\<close> are the fields of the record \<open>aead\<close>.
\<close>

section \<open>Keys and outputs\<close>

record registry_keys =
  rk_ScanPub :: string
  rk_SpendPub :: string

record private_keys =
  pk_ScanPriv :: string
  pk_SpendPriv :: string

record otap_output =
  oo_P :: string
  oo_R :: string
  oo_Tag :: string

definition DomainSep :: string where "DomainSep = ''ReserveOS:OTAP:v1''"

definition decodePoint :: "('p, 's) edwards \<Rightarrow> string \<Rightarrow> error + 'p" where
  "decodePoint E hexComp =
     (case hex_DecodeString hexComp of
        Inl e \<Rightarrow> Inl e
      | Inr b \<Rightarrow>
          if length b \<noteq> 32 then Inl (Err ''point must be 32 bytes'')
          else (case pt_SetBytes E b of None \<Rightarrow> Inl (Err ''edwards25519: invalid point encoding'') | Some p \<Rightarrow> Inr p))"

definition decodeScalar :: "('p, 's) edwards \<Rightarrow> string \<Rightarrow> error + 's" where
  "decodeScalar E hexStr =
     (case hex_DecodeString hexStr of
        Inl e \<Rightarrow> Inl e
      | Inr b \<Rightarrow>
          if length b \<noteq> 32 then Inl (Err ''scalar must be 32 bytes'')
          else (case sc_SetCanonicalBytes E b of None \<Rightarrow> Inl (Err ''invalid scalar encoding'') | Some s \<Rightarrow> Inr s))"

definition tag16 :: "bytes \<Rightarrow> string" where
  "tag16 K = hex_EncodeToString (take 2 (Sum256 (K @ ''tag'')))"

definition hToScalar :: "('p, 's) edwards \<Rightarrow> bytes \<Rightarrow> string \<Rightarrow> string \<Rightarrow> error + 's" where
  "hToScalar E K chainID context =
     (let sum = Sum512 (DomainSep @ ''|'' @ chainID @ ''|'' @ context @ ''|'' @ K)
      in if length sum \<noteq> 64 then Inl (Err ''bad sha512 length'')
         else case sc_SetUniformBytes E sum of
                None \<Rightarrow> Inl (Err ''edwards25519: invalid SetUniformBytes input length'')
              | Some sc \<Rightarrow> Inr sc)"

text \<open>The random bytes are arguments, as for signatures. A failure returns the zero values.\<close>

definition GenerateKeys ::
  "('p, 's) edwards \<Rightarrow> error + bytes \<Rightarrow> error + bytes \<Rightarrow> error + registry_keys \<times> private_keys" where
  "GenerateKeys E rnd1 rnd2 =
     (case randomScalar E rnd1 of
        Inl e \<Rightarrow> Inl e
      | Inr s \<Rightarrow>
          (case randomScalar E rnd2 of
             Inl e \<Rightarrow> Inl e
           | Inr v \<Rightarrow>
               Inr (\<lparr>rk_ScanPub = hex_EncodeToString (pt_Bytes E (ScalarBaseMult E s)),
                     rk_SpendPub = hex_EncodeToString (pt_Bytes E (ScalarBaseMult E v))\<rparr>,
                    \<lparr>pk_ScanPriv = hex_EncodeToString (sc_Bytes E s), pk_SpendPriv = hex_EncodeToString (sc_Bytes E v)\<rparr>)))"

definition BuildOutput ::
  "('p, 's) edwards \<Rightarrow> error + bytes \<Rightarrow> string \<Rightarrow> string \<Rightarrow> registry_keys \<Rightarrow> error + otap_output \<times> bytes" where
  "BuildOutput E rnd chainID context reg =
     (case decodePoint E (rk_ScanPub reg) of
        Inl e \<Rightarrow> Inl e
      | Inr S \<Rightarrow>
          (case decodePoint E (rk_SpendPub reg) of
             Inl e \<Rightarrow> Inl e
           | Inr V \<Rightarrow>
               (case randomScalar E rnd of
                  Inl e \<Rightarrow> Inl e
                | Inr r \<Rightarrow>
                    (let R = ScalarBaseMult E r; K = pt_ScalarMult E r S
                     in case hToScalar E (pt_Bytes E K) chainID context of
                          Inl e \<Rightarrow> Inl e
                        | Inr k \<Rightarrow>
                            (let kG = ScalarBaseMult E k; P = pt_Add E V kG
                             in Inr (\<lparr>oo_P = hex_EncodeToString (pt_Bytes E P), oo_R = hex_EncodeToString (pt_Bytes E R),
                                      oo_Tag = tag16 (pt_Bytes E K)\<rparr>, pt_Bytes E K))))))"

text \<open>\<open>Inr None\<close>: no error and no match. \<^verbatim>\<open>Detect\<close> repeats the body without the scalar.\<close>

definition DetectWithK ::
  "('p, 's) edwards \<Rightarrow> string \<Rightarrow> string \<Rightarrow> otap_output \<Rightarrow> string \<Rightarrow> string \<Rightarrow> error + (bytes \<times> 's) option" where
  "DetectWithK E chainID context out sPrivHex VpubHex =
     (case decodeScalar E sPrivHex of
        Inl e \<Rightarrow> Inl e
      | Inr s \<Rightarrow>
          (case decodePoint E (oo_R out) of
             Inl e \<Rightarrow> Inl e
           | Inr R \<Rightarrow>
               (case decodePoint E VpubHex of
                  Inl e \<Rightarrow> Inl e
                | Inr V \<Rightarrow>
                    (case decodePoint E (oo_P out) of
                       Inl e \<Rightarrow> Inl e
                     | Inr P \<Rightarrow>
                         (let K = pt_ScalarMult E s R
                          in case hToScalar E (pt_Bytes E K) chainID context of
                               Inl e \<Rightarrow> Inl e
                             | Inr k \<Rightarrow>
                                 (let kG = ScalarBaseMult E k; Pp = pt_Add E V kG
                                  in if \<not> pt_Equal E Pp P then Inr None else Inr (Some (pt_Bytes E K, k))))))))"

definition Detect ::
  "('p, 's) edwards \<Rightarrow> string \<Rightarrow> string \<Rightarrow> otap_output \<Rightarrow> string \<Rightarrow> string \<Rightarrow> error + bytes option" where
  "Detect E chainID context out sPrivHex VpubHex =
     (case decodeScalar E sPrivHex of
        Inl e \<Rightarrow> Inl e
      | Inr s \<Rightarrow>
          (case decodePoint E (oo_R out) of
             Inl e \<Rightarrow> Inl e
           | Inr R \<Rightarrow>
               (case decodePoint E VpubHex of
                  Inl e \<Rightarrow> Inl e
                | Inr V \<Rightarrow>
                    (case decodePoint E (oo_P out) of
                       Inl e \<Rightarrow> Inl e
                     | Inr P \<Rightarrow>
                         (let K = pt_ScalarMult E s R
                          in case hToScalar E (pt_Bytes E K) chainID context of
                               Inl e \<Rightarrow> Inl e
                             | Inr k \<Rightarrow>
                                 (let kG = ScalarBaseMult E k; Pp = pt_Add E V kG
                                  in if \<not> pt_Equal E Pp P then Inr None else Inr (Some (pt_Bytes E K))))))))"

definition OneTimePriv :: "('p, 's) edwards \<Rightarrow> string \<Rightarrow> 's \<Rightarrow> error + 's" where
  "OneTimePriv E vPrivHex k =
     (case decodeScalar E vPrivHex of Inl e \<Rightarrow> Inl e | Inr v \<Rightarrow> Inr (sc_Add E v k))"

definition DecodePointHex :: "('p, 's) edwards \<Rightarrow> string \<Rightarrow> error + 'p" where
  "DecodePointHex E hexStr = decodePoint E hexStr"

section \<open>\<^verbatim>\<open>base64.StdEncoding\<close>\<close>

definition b64_alphabet :: string where
  "b64_alphabet = ''ABCDEFGHIJKLMNOPQRSTUVWXYZabcdefghijklmnopqrstuvwxyz0123456789+/''"

definition b64_char :: "nat \<Rightarrow> char" where
  "b64_char i = b64_alphabet ! (i mod 64)"

text \<open>Three bytes are four digits of six bits; the last group is padded with \<^verbatim>\<open>=\<close>.\<close>

fun b64_EncodeToString :: "bytes \<Rightarrow> string" where
  "b64_EncodeToString [] = []"
| "b64_EncodeToString [a] =
     (let v = of_char a * 65536 in [b64_char (v div 262144), b64_char (v div 4096), CHR ''='', CHR ''=''])"
| "b64_EncodeToString [a, b] =
     (let v = of_char a * 65536 + of_char b * 256
      in [b64_char (v div 262144), b64_char (v div 4096), b64_char (v div 64), CHR ''=''])"
| "b64_EncodeToString (a # b # c # s) =
     (let v = of_char a * 65536 + of_char b * 256 + of_char c
      in b64_char (v div 262144) # b64_char (v div 4096) # b64_char (v div 64) # b64_char v # b64_EncodeToString s)"

definition b64_digit :: "char \<Rightarrow> nat option" where
  "b64_digit c = (let i = length (takeWhile (\<lambda>x. x \<noteq> c) b64_alphabet) in if i < 64 then Some i else None)"

text \<open>
  The decoder skips line ends wherever they are; padding may only follow two or three digits and
  ends the input. Bits that the padding leaves unused are not looked at. The error, which in the
  library also says at which byte it was met, is the same for all corrupt inputs.
\<close>

definition b64_corrupt :: error where
  "b64_corrupt = Err ''illegal base64 data''"

fun b64_decode :: "string \<Rightarrow> error + bytes" where
  "b64_decode [] = Inr []"
| "b64_decode (p # q # r # t # s) =
     (case b64_digit p of
        None \<Rightarrow> Inl b64_corrupt
      | Some a \<Rightarrow>
          (case b64_digit q of
             None \<Rightarrow> Inl b64_corrupt
           | Some b \<Rightarrow>
               (case b64_digit r of
                  None \<Rightarrow>
                    if r = CHR ''='' \<and> t = CHR ''='' \<and> s = []
                    then Inr [char_of ((a * 262144 + b * 4096) div 65536)] else Inl b64_corrupt
                | Some c \<Rightarrow>
                    (case b64_digit t of
                       None \<Rightarrow>
                         if t = CHR ''='' \<and> s = []
                         then (let v = a * 262144 + b * 4096 + c * 64 in Inr [char_of (v div 65536), char_of (v div 256 mod 256)])
                         else Inl b64_corrupt
                     | Some d \<Rightarrow>
                         (let v = a * 262144 + b * 4096 + c * 64 + d
                          in case b64_decode s of
                               Inl e \<Rightarrow> Inl e
                             | Inr bs \<Rightarrow> Inr (char_of (v div 65536) # char_of (v div 256 mod 256) # char_of (v mod 256) # bs))))))"
| "b64_decode s = Inl b64_corrupt"

definition b64_DecodeString :: "string \<Rightarrow> error + bytes" where
  "b64_DecodeString s = b64_decode (filter (\<lambda>c. c \<noteq> CHR 0x0A \<and> c \<noteq> CHR 0x0D) s)"

section \<open>Memos: \<^verbatim>\<open>memo.go\<close>\<close>

text \<open>
  \<open>ae_hkdf secret info\<close> are the first 32 bytes of the key stream of \<^verbatim>\<open>hkdf.New\<close> on SHA-256 without salt;
  the other fields are \<^verbatim>\<open>chacha20poly1305.New\<close>, \<^verbatim>\<open>Seal\<close> and \<^verbatim>\<open>Open\<close> of the
  cipher it returns.
\<close>

record 'c aead =
  ae_hkdf :: "bytes \<Rightarrow> bytes \<Rightarrow> error + bytes"
  ae_New :: "bytes \<Rightarrow> error + 'c"
  ae_Seal :: "'c \<Rightarrow> bytes \<Rightarrow> bytes \<Rightarrow> bytes \<Rightarrow> bytes"
  ae_Open :: "'c \<Rightarrow> bytes \<Rightarrow> bytes \<Rightarrow> bytes \<Rightarrow> error + bytes"

definition deriveMemoKey :: "'c aead \<Rightarrow> bytes \<Rightarrow> error + bytes" where
  "deriveMemoKey A K = ae_hkdf A (Sum256 K) ''ReserveOS:OTAP:memo''"

text \<open>\<open>rnd\<close>: the twelve bytes read for the nonce, or the error of the random source.\<close>

definition EncryptMemo :: "'c aead \<Rightarrow> error + bytes \<Rightarrow> bytes \<Rightarrow> bytes \<Rightarrow> bytes \<Rightarrow> error + string" where
  "EncryptMemo A rnd K plaintext aad =
     (case deriveMemoKey A K of
        Inl e \<Rightarrow> Inl e
      | Inr memoKey \<Rightarrow>
          (case ae_New A memoKey of
             Inl e \<Rightarrow> Inl e
           | Inr c \<Rightarrow>
               (case rnd of
                  Inl e \<Rightarrow> Inl e
                | Inr nonce \<Rightarrow> Inr (b64_EncodeToString (nonce @ ae_Seal A c nonce plaintext aad)))))"

definition DecryptMemo :: "'c aead \<Rightarrow> bytes \<Rightarrow> string \<Rightarrow> bytes \<Rightarrow> error + bytes" where
  "DecryptMemo A K enc aad =
     (case deriveMemoKey A K of
        Inl e \<Rightarrow> Inl e
      | Inr memoKey \<Rightarrow>
          (case ae_New A memoKey of
             Inl e \<Rightarrow> Inl e
           | Inr c \<Rightarrow>
               (case b64_DecodeString enc of
                  Inl e \<Rightarrow> Inl e
                | Inr b \<Rightarrow>
                    if length b < 12 then Inl (Err ''enc_memo too short'')
                    else ae_Open A c (take 12 b) (drop 12 b) aad)))"

section \<open>Round trips\<close>

lemma b64_alphabet_ok:
  "length b64_alphabet = 64" "distinct b64_alphabet"
  "CHR 0x0A \<notin> set b64_alphabet" "CHR 0x0D \<notin> set b64_alphabet" "CHR ''='' \<notin> set b64_alphabet"
  by (simp_all add: b64_alphabet_def)

lemma b64_digit_char [simp]: "b64_digit (b64_char i) = Some (i mod 64)"
  "b64_char i \<noteq> CHR 0x0A" "b64_char i \<noteq> CHR 0x0D"
proof -
  let ?i = "i mod 64"
  have "takeWhile (\<lambda>x. x \<noteq> b64_alphabet ! ?i) b64_alphabet = take ?i b64_alphabet"
    by (rule takeWhile_eq_take_P_nth) (auto simp: nth_eq_iff_index_eq b64_alphabet_ok)
  then show "b64_digit (b64_char i) = Some (i mod 64)"
    by (simp add: b64_digit_def b64_char_def b64_alphabet_ok)
  have "b64_char i \<in> set b64_alphabet" by (simp add: b64_char_def b64_alphabet_ok)
  then show "b64_char i \<noteq> CHR 0x0A" "b64_char i \<noteq> CHR 0x0D" using b64_alphabet_ok(3,4) by metis+
qed

lemma b64_pad: "b64_digit (CHR ''='') = None"
proof -
  have "takeWhile (\<lambda>x. x \<noteq> CHR ''='') b64_alphabet = b64_alphabet"
    using b64_alphabet_ok(5) by (simp only: takeWhile_eq_all_conv) metis
  then show ?thesis unfolding b64_digit_def by (simp only: b64_alphabet_ok(1) Let_def) simp
qed

lemma b64_no_newline: "filter (\<lambda>c. c \<noteq> CHR 0x0A \<and> c \<noteq> CHR 0x0D) (b64_EncodeToString b) = b64_EncodeToString b"
  by (induction b rule: b64_EncodeToString.induct) (simp_all add: Let_def)

text \<open>The digits of \<open>v\<close> to the base 64 give back \<open>v\<close>.\<close>

lemma b64_join:
  fixes v :: nat
  assumes "v < 16777216"
  shows "v div 262144 * 262144 + v div 4096 mod 64 * 4096 + v div 64 mod 64 * 64 + v mod 64 = v" "v div 262144 mod 64 = v div 262144"
proof -
  have "v div 262144 < 64" using assms by (simp add: less_mult_imp_div_less)
  then show "v div 262144 mod 64 = v div 262144" by simp
  have "v div 4096 = v div 262144 * 64 + (v div 4096) mod 64"
    using div_mult_mod_eq [of "v div 4096" 64] by (simp add: div_mult2_eq [symmetric])
  moreover have "v div 64 = v div 4096 * 64 + (v div 64) mod 64"
    using div_mult_mod_eq [of "v div 64" 64] by (simp add: div_mult2_eq [symmetric])
  moreover have "v = v div 64 * 64 + v mod 64" by simp
  ultimately show "v div 262144 * 262144 + v div 4096 mod 64 * 4096 + v div 64 mod 64 * 64 + v mod 64 = v" by linarith
qed

lemma three_bytes:
  fixes x y z :: nat
  assumes "x < 256" "y < 256" "z < 256"
  defines "v \<equiv> x * 65536 + y * 256 + z"
  shows "v < 16777216" "v div 65536 = x" "v div 256 mod 256 = y" "v mod 256 = z"
proof -
  show "v < 16777216" using assms by simp
  have v: "v = (x * 256 + y) * 256 + z" by (simp add: v_def)
  then have d: "v div 256 = x * 256 + y" using assms by simp
  have "v div 65536 = v div 256 div 256" by (simp add: div_mult2_eq [symmetric])
  then show "v div 65536 = x" using assms d by simp
  show "v div 256 mod 256 = y" using assms(2) d by simp
  show "v mod 256 = z" unfolding v using assms(3) by (simp only: mod_mult_self3 mod_less)
qed

lemma b64_split:
  fixes a b c :: char
  defines "v \<equiv> of_char a * 65536 + of_char b * 256 + of_char c :: nat"
  shows "v < 16777216" "char_of (v div 65536) = a" "char_of (v div 256 mod 256) = b" "char_of (v mod 256) = c"
  unfolding v_def using three_bytes [of "of_char a" "of_char b" "of_char c"] by simp_all

lemma b64_decode_encode: "b64_decode (b64_EncodeToString b) = Inr b"
proof (induction b rule: b64_EncodeToString.induct)
  case (2 a)
  define v :: nat where "v = of_char a * 65536"
  have v: "v < 16777216" "char_of (v div 65536) = a"
    using b64_split(1,2) [of a "CHR 0x00" "CHR 0x00"] by (simp_all add: v_def)
  have "v = 64 * (of_char a * 1024)" "v div 64 = 64 * (of_char a * 16)" by (simp_all add: v_def)
  then have "v mod 64 = 0" "v div 64 mod 64 = 0" by (simp_all only: mod_mult_self1_is_0)
  then have "v div 262144 * 262144 + v div 4096 mod 64 * 4096 = v" using b64_join(1) [OF v(1)] by linarith
  with v(2) b64_join(2) [OF v(1)] show ?case by (simp add: Let_def b64_pad v_def [symmetric])
next
  case (3 a b)
  define v :: nat where "v = of_char a * 65536 + of_char b * 256"
  have v: "v < 16777216" "char_of (v div 65536) = a" "char_of (v div 256 mod 256) = b"
    using b64_split(1-3) [of a b "CHR 0x00"] by (simp_all add: v_def)
  have "v = 64 * (of_char a * 1024 + of_char b * 4)" by (simp add: v_def)
  then have "v mod 64 = 0" by (simp only: mod_mult_self1_is_0)
  then have "v div 262144 * 262144 + v div 4096 mod 64 * 4096 + v div 64 mod 64 * 64 = v"
    using b64_join(1) [OF v(1)] by linarith
  with v(2,3) b64_join(2) [OF v(1)] show ?case by (simp add: Let_def b64_pad v_def [symmetric])
next
  case (4 a b c s)
  define v :: nat where "v = of_char a * 65536 + of_char b * 256 + of_char c"
  have "v < 16777216" "char_of (v div 65536) = a" "char_of (v div 256 mod 256) = b" "char_of (v mod 256) = c"
    using b64_split [of a b c] by (simp_all add: v_def)
  with b64_join [of v] 4 show ?case by (simp add: Let_def v_def [symmetric])
qed simp

lemma b64_roundtrip [simp]: "b64_DecodeString (b64_EncodeToString b) = Inr b"
  by (simp add: b64_DecodeString_def b64_no_newline b64_decode_encode)

text \<open>
  The group of scalars is commutative: the scalars of the package are integers modulo a prime.
\<close>

definition edwards_comm :: "('p, 's) edwards \<Rightarrow> bool" where
  "edwards_comm E \<longleftrightarrow> (\<forall>a b. sc_Multiply E a b = sc_Multiply E b a)"

lemma decodePoint_hex [simp]:
  "edwards_laws E \<Longrightarrow> decodePoint E (hex_EncodeToString (pt_Bytes E P)) = Inr P"
  by (simp add: decodePoint_def edwards_laws_def)

lemma decodeScalar_hex [simp]:
  "edwards_laws E \<Longrightarrow> decodeScalar E (hex_EncodeToString (sc_Bytes E s)) = Inr s"
  by (simp add: decodeScalar_def edwards_laws_def)

lemma randomScalar_ok: "edwards_laws E \<Longrightarrow> length buf = 64 \<Longrightarrow> \<exists>s. randomScalar E (Inr buf) = Inr s"
  by (fastforce simp: randomScalar_def edwards_laws_def split: option.split)

lemma hToScalar_ok: "edwards_laws E \<Longrightarrow> \<exists>k. hToScalar E K chainID context = Inr k"
  by (fastforce simp: hToScalar_def Let_def edwards_laws_def split: option.split)

lemma shared_secret:
  assumes "edwards_laws E" "edwards_comm E"
  shows "pt_ScalarMult E s (ScalarBaseMult E r) = pt_ScalarMult E r (ScalarBaseMult E s)"
  using assms unfolding edwards_laws_def edwards_comm_def by metis

text \<open>The result of a detection and the derived key, for an output built for the keys \<open>s\<close> and \<open>v\<close>.\<close>

lemma BuildOutput_detected:
  assumes "edwards_laws E" "edwards_comm E" "length rb = 64"
    "rk_ScanPub reg = hex_EncodeToString (pt_Bytes E (ScalarBaseMult E s))"
    "rk_SpendPub reg = hex_EncodeToString (pt_Bytes E (ScalarBaseMult E v))"
  obtains out K k where "BuildOutput E (Inr rb) chainID context reg = Inr (out, K)"
    "DetectWithK E chainID context out (hex_EncodeToString (sc_Bytes E s)) (rk_SpendPub reg) = Inr (Some (K, k))"
    "Detect E chainID context out (hex_EncodeToString (sc_Bytes E s)) (rk_SpendPub reg) = Inr (Some K)"
    "oo_P out = hex_EncodeToString (pt_Bytes E (ScalarBaseMult E (sc_Add E v k)))"
    "OneTimePriv E (hex_EncodeToString (sc_Bytes E v)) k = Inr (sc_Add E v k)"
proof -
  obtain r where r: "randomScalar E (Inr rb) = Inr r" using randomScalar_ok [OF assms(1,3)] by blast
  let ?K = "pt_ScalarMult E r (ScalarBaseMult E s)"
  obtain k where k: "hToScalar E (pt_Bytes E ?K) chainID context = Inr k" using hToScalar_ok [OF assms(1)] by blast
  have P: "pt_Add E (ScalarBaseMult E v) (ScalarBaseMult E k) = ScalarBaseMult E (sc_Add E v k)"
    and eq: "pt_Equal E A A" for A
    using assms(1) by (simp_all add: edwards_laws_def)
  show ?thesis
    by (rule that [of "\<lparr>oo_P = hex_EncodeToString (pt_Bytes E (ScalarBaseMult E (sc_Add E v k))),
          oo_R = hex_EncodeToString (pt_Bytes E (ScalarBaseMult E r)), oo_Tag = tag16 (pt_Bytes E ?K)\<rparr>" "pt_Bytes E ?K" k])
      (simp_all add: BuildOutput_def DetectWithK_def Detect_def OneTimePriv_def assms(1,4,5) r k P eq shared_secret [OF assms(1,2)] Let_def)
qed

text \<open>
  C15. One-time addresses work from end to end. For freshly generated keys, whatever the randomness:
  an output built for the public keys is detected with the scan key, by both detection functions
  and with the sender's shared secret; the one-time key derived from the spend key exists, and a
  claim signed with it verifies under the address \<open>P\<close> of the output. (The laws are those of the
  group package: encodings decode, scalars act on the multiples of the generator as integers modulo
  its order do, and their multiplication commutes.)
\<close>
theorem otap_roundtrip:
  assumes "edwards_laws E" "edwards_comm E" "length b1 = 64" "length b2 = 64" "length rb = 64" "length sb = 64"
  shows "\<exists>reg priv out K k x P sigHex.
    GenerateKeys E (Inr b1) (Inr b2) = Inr (reg, priv) \<and>
    BuildOutput E (Inr rb) chainID context reg = Inr (out, K) \<and>
    Detect E chainID context out (pk_ScanPriv priv) (rk_SpendPub reg) = Inr (Some K) \<and>
    DetectWithK E chainID context out (pk_ScanPriv priv) (rk_SpendPub reg) = Inr (Some (K, k)) \<and>
    OneTimePriv E (pk_SpendPriv priv) k = Inr x \<and> DecodePointHex E (oo_P out) = Inr P \<and>
    schnorr_Sign E (Inr sb) x P msg = (sigHex, None) \<and> schnorr_Verify E P msg sigHex"
proof -
  obtain s v where sv: "randomScalar E (Inr b1) = Inr s" "randomScalar E (Inr b2) = Inr v"
    using randomScalar_ok [OF assms(1)] assms(3,4) by blast
  define reg where "reg = \<lparr>rk_ScanPub = hex_EncodeToString (pt_Bytes E (ScalarBaseMult E s)),
    rk_SpendPub = hex_EncodeToString (pt_Bytes E (ScalarBaseMult E v))\<rparr>"
  have gen: "GenerateKeys E (Inr b1) (Inr b2) = Inr (reg,
      \<lparr>pk_ScanPriv = hex_EncodeToString (sc_Bytes E s), pk_SpendPriv = hex_EncodeToString (sc_Bytes E v)\<rparr>)"
    by (simp add: GenerateKeys_def sv reg_def)
  obtain out K k where out: "BuildOutput E (Inr rb) chainID context reg = Inr (out, K)"
    "DetectWithK E chainID context out (hex_EncodeToString (sc_Bytes E s)) (rk_SpendPub reg) = Inr (Some (K, k))"
    "Detect E chainID context out (hex_EncodeToString (sc_Bytes E s)) (rk_SpendPub reg) = Inr (Some K)"
    "oo_P out = hex_EncodeToString (pt_Bytes E (ScalarBaseMult E (sc_Add E v k)))"
    "OneTimePriv E (hex_EncodeToString (sc_Bytes E v)) k = Inr (sc_Add E v k)"
    by (rule BuildOutput_detected [OF assms(1,2,5), of reg s v chainID "context"]) (simp_all add: reg_def)
  from schnorr_signs [OF assms(1,6) refl] out assms(1) gen show ?thesis
    by (fastforce simp: DecodePointHex_def)
qed

text \<open>The small group of the theory on signatures.\<close>

lemma toy_edwards_comm: "edwards_comm toy_edwards"
  by (simp add: edwards_comm_def toy_edwards_def)

theorem otap_roundtrip_witness:
  "\<exists>reg priv out K k x P sigHex.
    GenerateKeys toy_edwards (Inr (replicate 64 (CHR ''a''))) (Inr (replicate 64 (CHR ''b''))) = Inr (reg, priv) \<and>
    BuildOutput toy_edwards (Inr (replicate 64 (CHR ''c''))) ''reserve-test'' ''default'' reg = Inr (out, K) \<and>
    Detect toy_edwards ''reserve-test'' ''default'' out (pk_ScanPriv priv) (rk_SpendPub reg) = Inr (Some K) \<and>
    DetectWithK toy_edwards ''reserve-test'' ''default'' out (pk_ScanPriv priv) (rk_SpendPub reg) = Inr (Some (K, k)) \<and>
    OneTimePriv toy_edwards (pk_SpendPriv priv) k = Inr x \<and> DecodePointHex toy_edwards (oo_P out) = Inr P \<and>
    schnorr_Sign toy_edwards (Inr (replicate 64 (CHR ''d''))) x P ''msg'' = (sigHex, None) \<and>
    schnorr_Verify toy_edwards P ''msg'' sigHex"
  by (rule otap_roundtrip [OF toy_edwards_laws toy_edwards_comm]) simp_all

section \<open>Memos\<close>

text \<open>What the two packages promise: 32 bytes of key stream, a cipher for every 32-byte key, and that a sealed text opens.\<close>

definition aead_laws :: "'c aead \<Rightarrow> bool" where
  "aead_laws A \<longleftrightarrow>
     (\<forall>secret info. \<exists>key. ae_hkdf A secret info = Inr key \<and> length key = 32) \<and>
     (\<forall>key. length key = 32 \<longrightarrow> (\<exists>c. ae_New A key = Inr c)) \<and>
     (\<forall>c nonce p aad. length nonce = 12 \<longrightarrow> ae_Open A c nonce (ae_Seal A c nonce p aad) aad = Inr p)"

lemma memo_decrypts:
  assumes "aead_laws A" "length nonce = 12"
  shows "\<exists>enc. EncryptMemo A (Inr nonce) K p aad = Inr enc \<and> DecryptMemo A K enc aad = Inr p"
proof -
  obtain key where "deriveMemoKey A K = Inr key" "length key = 32"
    using assms(1) unfolding aead_laws_def deriveMemoKey_def by blast
  moreover from this assms(1) obtain c where "ae_New A key = Inr c" by (auto simp: aead_laws_def)
  ultimately show ?thesis
    using assms by (simp add: EncryptMemo_def DecryptMemo_def aead_laws_def)
qed

text \<open>A cipher for evaluation: the text with the key and the nonce in front.\<close>

definition toy_aead :: "bytes aead" where
  "toy_aead = \<lparr>ae_hkdf = (\<lambda>secret info. Inr (take 32 (secret @ info @ replicate 32 (CHR 0x00)))),
     ae_New = (\<lambda>key. if length key = 32 then Inr key else Inl (Err ''chacha20poly1305: bad key length'')),
     ae_Seal = (\<lambda>c nonce p aad. c @ nonce @ p),
     ae_Open = (\<lambda>c nonce ct aad. if take (length c + length nonce) ct = c @ nonce then Inr (drop (length c + length nonce) ct)
                 else Inl (Err ''chacha20poly1305: message authentication failed''))\<rparr>"

lemma toy_aead_laws: "aead_laws toy_aead"
  by (auto simp: aead_laws_def toy_aead_def min_def)

end
