(* ===== verification/AesGcm.thy ===== *)
theory AesGcm
  imports Prelude
begin

text \<open>
  What the key vault uses of the Go standard library's \<^verbatim>\<open>crypto/aes\<close> and
  \<^verbatim>\<open>crypto/cipher\<close>: the block cipher for keys of 16, 24 and 32 bytes and the Galois counter
  mode with nonces of 12 bytes and tags of 16, as the standards FIPS 197 and SP 800-38D define them.
  The substitution box is computed from its definition, inversion in the field followed by an affine map.
\<close>

unbundle bit_operations_syntax

section \<open>Bytes and the field\<close>

type_synonym u8 = "8 word"

definition u8s :: "bytes \<Rightarrow> u8 list" where
  "u8s b = map (\<lambda>c. of_nat (of_char c)) b"

definition chars :: "u8 list \<Rightarrow> bytes" where
  "chars b = map (\<lambda>w. char_of (unat w)) b"

definition xtime :: "u8 \<Rightarrow> u8" where
  "xtime b = push_bit 1 b XOR (if bit b 7 then 27 else 0)"

fun gmul_loop :: "nat \<Rightarrow> u8 \<Rightarrow> u8 \<Rightarrow> u8 \<Rightarrow> u8" where
  "gmul_loop 0 a b p = p"
| "gmul_loop (Suc n) a b p = gmul_loop n (xtime a) (drop_bit 1 b) (if bit b 0 then p XOR a else p)"

definition gmul :: "u8 \<Rightarrow> u8 \<Rightarrow> u8" where
  "gmul a b = gmul_loop 8 a b 0"

text \<open>The inverse of \<open>a\<close> is its power 254, computed by repeated squaring; that of 0 is 0.\<close>

definition ginv :: "u8 \<Rightarrow> u8" where
  "ginv a =
     (let a2 = gmul a a; a4 = gmul a2 a2; a8 = gmul a4 a4; a16 = gmul a8 a8; a32 = gmul a16 a16;
          a64 = gmul a32 a32; a128 = gmul a64 a64
      in gmul a2 (gmul a4 (gmul a8 (gmul a16 (gmul a32 (gmul a64 a128))))))"

definition SubByte :: "u8 \<Rightarrow> u8" where
  "SubByte a =
     (let b = ginv a
      in b XOR word_rotl 1 b XOR word_rotl 2 b XOR word_rotl 3 b XOR word_rotl 4 b XOR 99)"

section \<open>The block cipher\<close>

definition xors :: "u8 list \<Rightarrow> u8 list \<Rightarrow> u8 list" where
  "xors a b = map2 (\<lambda>x y. x XOR y) a b"

text \<open>The key schedule: words of four bytes, \<open>nk\<close> of them in the key; \<open>rc\<close> is the round constant.\<close>

fun expand :: "nat \<Rightarrow> nat \<Rightarrow> nat \<Rightarrow> u8 \<Rightarrow> u8 list list \<Rightarrow> u8 list list" where
  "expand nk 0 i rc ws = ws"
| "expand nk (Suc n) i rc ws =
     (let temp = last ws;
          first = i mod nk = 0;
          temp = (if first then xors (map SubByte (rotate1 temp)) [rc, 0, 0, 0]
                  else if nk > 6 \<and> i mod nk = 4 then map SubByte temp else temp)
      in expand nk n (i + 1) (if first then xtime rc else rc) (ws @ [xors (ws ! (i - nk)) temp]))"

definition groups4 :: "u8 list \<Rightarrow> u8 list list" where
  "groups4 b = map (\<lambda>i. take 4 (drop (4 * i) b)) [0..<length b div 4]"

definition round_keys :: "u8 list \<Rightarrow> u8 list list" where
  "round_keys key =
     (let nk = length key div 4; ws = expand nk (4 * (nk + 7) - nk) nk 1 (groups4 key)
      in map (\<lambda>i. concat (take 4 (drop (4 * i) ws))) [0..<nk + 7])"

text \<open>A block is a list of sixteen bytes, column after column.\<close>

definition ShiftRows :: "u8 list \<Rightarrow> u8 list" where
  "ShiftRows s = map (\<lambda>i. s ! ((i mod 4 + 4 * ((i div 4 + i mod 4) mod 4)))) [0..<16]"

definition MixColumns :: "u8 list \<Rightarrow> u8 list" where
  "MixColumns s =
     map (\<lambda>i. let c = 4 * (i div 4); a = (\<lambda>k. s ! (c + (i + k) mod 4))
              in xtime (a 0) XOR (xtime (a 1) XOR a 1) XOR a 2 XOR a 3) [0..<16]"

fun aes_rounds :: "u8 list list \<Rightarrow> u8 list \<Rightarrow> u8 list" where
  "aes_rounds [] s = s"
| "aes_rounds [k] s = xors (ShiftRows (map SubByte s)) k"
| "aes_rounds (k # ks) s = aes_rounds ks (xors (MixColumns (ShiftRows (map SubByte s))) k)"

definition aes_Encrypt :: "bytes \<Rightarrow> u8 list \<Rightarrow> u8 list" where
  "aes_Encrypt key block = (case round_keys (u8s key) of [] \<Rightarrow> block | k # ks \<Rightarrow> aes_rounds ks (xors block k))"

definition aes_NewCipher :: "bytes \<Rightarrow> error + (u8 list \<Rightarrow> u8 list)" where
  "aes_NewCipher key =
     (if length key = 16 \<or> length key = 24 \<or> length key = 32 then Inr (aes_Encrypt key)
      else Inl (Err (''crypto/aes: invalid key size '' @ dec_nat (length key))))"

section \<open>Galois counter mode\<close>

definition word128 :: "u8 list \<Rightarrow> 128 word" where
  "word128 b = foldl (\<lambda>w x. push_bit 8 w OR ucast x) 0 b"

definition bytes128 :: "128 word \<Rightarrow> u8 list" where
  "bytes128 w = map (\<lambda>i. ucast (drop_bit (8 * (15 - i)) w)) [0..<16]"

fun ghash_mul :: "nat \<Rightarrow> 128 word \<Rightarrow> 128 word \<Rightarrow> 128 word \<Rightarrow> 128 word" where
  "ghash_mul 0 x v z = z"
| "ghash_mul (Suc n) x v z =
     ghash_mul n x (if bit v 0 then drop_bit 1 v XOR push_bit 120 225 else drop_bit 1 v) (if bit x n then z XOR v else z)"

definition pad16 :: "u8 list \<Rightarrow> u8 list" where
  "pad16 b = b @ replicate ((16 - length b mod 16) mod 16) 0"

function blocks16 :: "u8 list \<Rightarrow> u8 list list" where
  "blocks16 b = (if b = [] then [] else take 16 b # blocks16 (drop 16 b))"
  by pat_completeness auto
termination by (relation "measure length") auto

declare blocks16.simps [simp del]

definition len64 :: "u8 list \<Rightarrow> u8 list" where
  "len64 b = u8s (PutUint64 (of_nat (8 * length b)))"

definition ghash :: "128 word \<Rightarrow> u8 list \<Rightarrow> u8 list \<Rightarrow> 128 word" where
  "ghash h aad ct =
     foldl (\<lambda>y b. ghash_mul 128 (y XOR word128 b) h 0) 0 (blocks16 (pad16 aad @ pad16 ct @ len64 aad @ len64 ct))"

text \<open>The counter is the last four bytes of the block; the first block of text uses the second value.\<close>

definition counter_block :: "u8 list \<Rightarrow> u32 \<Rightarrow> u8 list" where
  "counter_block nonce c = nonce @ map (\<lambda>i. ucast (drop_bit (8 * (3 - i)) c)) [0..<4]"

definition key_stream :: "(u8 list \<Rightarrow> u8 list) \<Rightarrow> u8 list \<Rightarrow> nat \<Rightarrow> u8 list" where
  "key_stream E nonce n = concat (map (\<lambda>i. E (counter_block nonce (of_nat (i + 2)))) [0..<(n + 15) div 16])"

definition gcm_tag :: "(u8 list \<Rightarrow> u8 list) \<Rightarrow> u8 list \<Rightarrow> u8 list \<Rightarrow> u8 list \<Rightarrow> u8 list" where
  "gcm_tag E nonce aad ct =
     xors (bytes128 (ghash (word128 (E (replicate 16 0))) aad ct)) (E (counter_block nonce 1))"

definition gcm_Seal :: "(u8 list \<Rightarrow> u8 list) \<Rightarrow> bytes \<Rightarrow> bytes \<Rightarrow> bytes \<Rightarrow> bytes" where
  "gcm_Seal E nonce plaintext aad =
     (let ct = xors (u8s plaintext) (key_stream E (u8s nonce) (length plaintext))
      in chars (ct @ gcm_tag E (u8s nonce) (u8s aad) ct))"

definition gcm_Open :: "(u8 list \<Rightarrow> u8 list) \<Rightarrow> bytes \<Rightarrow> bytes \<Rightarrow> bytes \<Rightarrow> error + bytes" where
  "gcm_Open E nonce ciphertext aad =
     (if length ciphertext < 16 then Inl (Err ''cipher: message authentication failed'')
      else let ct = take (length ciphertext - 16) (u8s ciphertext); tag = drop (length ciphertext - 16) (u8s ciphertext)
           in if gcm_tag E (u8s nonce) (u8s aad) ct \<noteq> tag then Inl (Err ''cipher: message authentication failed'')
              else Inr (chars (xors ct (key_stream E (u8s nonce) (length ct)))))"

section \<open>What is sealed opens\<close>

lemma chars_u8s [simp]: "u8s (chars b) = b" "chars (u8s b') = b'" "length (u8s b') = length b'" "length (chars b) = length b"
proof -
  have "of_nat (unat w mod 256) = (w :: u8)" for w
    using unsigned_less [of w, where ?'a = nat] by simp
  then show "u8s (chars b) = b" by (simp add: u8s_def chars_def comp_def)
  have "char_of (unat (of_nat (of_char c) :: u8)) = c" for c
    by (simp add: unat_of_nat)
  then show "chars (u8s b') = b'" by (simp add: u8s_def chars_def comp_def)
qed (simp_all add: u8s_def chars_def)

lemma xors_xors: "length a \<le> length k \<Longrightarrow> xors (xors a k) k = a"
  by (induction a k rule: list_induct2') (simp_all add: xors_def xor.assoc)

lemma length_xors [simp]: "length (xors a k) = min (length a) (length k)"
  by (simp add: xors_def)

lemma length_key_stream:
  assumes "\<And>b. length b = 16 \<Longrightarrow> length (E b) = 16" "length nonce = 12"
  shows "n \<le> length (key_stream E nonce n)"
proof -
  have "length (E (counter_block nonce c)) = 16" for c by (rule assms(1)) (simp add: counter_block_def assms(2))
  then have "length (key_stream E nonce n) = 16 * ((n + 15) div 16)"
    by (simp add: key_stream_def length_concat comp_def sum_list_triv)
  then show ?thesis by simp
qed

lemma gcm_Open_Seal:
  assumes E: "\<And>b. length b = 16 \<Longrightarrow> length (E b) = 16" and "length nonce = 12"
  shows "gcm_Open E nonce (gcm_Seal E nonce p aad) aad = Inr p"
proof -
  let ?k = "key_stream E (u8s nonce) (length p)"
  have k: "length (u8s p) \<le> length ?k" using length_key_stream [of E "u8s nonce" "length p", OF E] assms(2) by simp
  have tag: "length (gcm_tag E (u8s nonce) a c) = 16" for a c
    using E [of "counter_block (u8s nonce) 1"] assms(2) by (simp add: gcm_tag_def bytes128_def counter_block_def)
  show ?thesis using k by (simp add: gcm_Seal_def gcm_Open_def Let_def tag xors_xors min_absorb1)
qed

lemma length_aes_rounds: "length s = 16 \<Longrightarrow> \<forall>k \<in> set ks. length k = 16 \<Longrightarrow> length (aes_rounds ks s) = 16"
  by (induction ks s rule: aes_rounds.induct) (simp_all add: ShiftRows_def MixColumns_def)

lemma length_expand:
  "\<lbrakk>\<forall>w \<in> set ws. length w = 4; length ws = i; 0 < nk; nk \<le> i\<rbrakk> \<Longrightarrow>
     length (expand nk n i rc ws) = i + n \<and> (\<forall>w \<in> set (expand nk n i rc ws). length w = 4)"
proof (induction nk n i rc ws rule: expand.induct)
  case (2 nk n i rc ws)
  define temp where "temp = (if i mod nk = 0 then xors (map SubByte (rotate1 (last ws))) [rc, 0, 0, 0]
      else if nk > 6 \<and> i mod nk = 4 then map SubByte (last ws) else last ws)"
  have "ws \<noteq> []" "ws ! (i - nk) \<in> set ws" using "2.prems" by auto
  then have l: "length (last ws) = 4" "length (ws ! (i - nk)) = 4" using "2.prems"(1) by auto
  then have t: "length temp = 4" by (simp add: temp_def)
  have e: "expand nk (Suc n) i rc ws =
      expand nk n (i + 1) (if i mod nk = 0 then xtime rc else rc) (ws @ [xors (ws ! (i - nk)) temp])"
    by (simp add: temp_def Let_def)
  from "2.IH" [OF refl refl refl] "2.prems" l t show ?case unfolding e by (simp add: temp_def Let_def)
qed simp

lemma length_round_keys:
  assumes "length key = 32"
  shows "\<forall>k \<in> set (round_keys key). length k = 16"
proof -
  define ws where "ws = expand 8 52 8 1 (groups4 key)"
  have "\<forall>w \<in> set (groups4 key). length w = 4" "length (groups4 key) = 8" using assms by (auto simp: groups4_def)
  from length_expand [OF this, of 8 52 1] have ws: "length ws = 60" "\<And>w. w \<in> set ws \<Longrightarrow> length w = 4" by (auto simp: ws_def)
  have "length (concat (take 4 (drop (4 * i) ws))) = 16" if "i < 15" for i
  proof -
    have "map length (take 4 (drop (4 * i) ws)) = replicate 4 4"
      using ws that by (intro replicate_eqI) (auto dest!: in_set_takeD in_set_dropD)
    then show ?thesis by (simp add: length_concat sum_list_replicate)
  qed
  then show ?thesis using assms by (simp add: round_keys_def Let_def flip: ws_def)
qed

lemma length_aes_Encrypt: "length key = 32 \<Longrightarrow> length b = 16 \<Longrightarrow> length (aes_Encrypt key b) = 16"
  using length_round_keys [of "u8s key"] by (auto simp: aes_Encrypt_def intro!: length_aes_rounds split: list.split)

end
