(* ===== verification/Vault.thy ===== *)
theory Vault
  imports AesGcm Sha256 Snapshots "HOL-Library.Finite_Map"
begin

text \<open>
  The encrypted key vault, \<^verbatim>\<open>internal/reservekeyvault/keyvault.go\<close>: a file holding the text
  \<^verbatim>\<open>KVAULT1:\<close>, a nonce and the AES-256-GCM encryption of a JSON object, whose key is a hash
  of an environment variable. A Go \<^verbatim>\<open>map[string]any\<close> is a finite map to JSON values. The
  operating system is a record of operations; \<^verbatim>\<open>maybeRotateLocked\<close>, which the repository
  calls and does not declare, is the argument \<open>rot\<close>; the random bytes are the argument \<open>rnd\<close>.
\<close>

section \<open>Data\<close>

datatype json = JNull | JBool bool | JNum rat | JString string | JArray "json list" | JObject "(string, json) fmap"

type_synonym json_obj = "(string, json) fmap"

record open_options =
  oo_RotationDays :: int
  oo_Path :: string
  oo_KEKEnv :: string

record vault =
  va_rotationDays :: int
  va_path :: string
  va_key :: bytes
  va_data :: json_obj

record 'f vault_os =
  vo_Getenv :: "string \<Rightarrow> string"
  vo_MkdirAll :: "'f \<Rightarrow> string \<Rightarrow> err \<times> 'f"
  vo_NotExist :: "'f \<Rightarrow> string \<Rightarrow> bool"
  vo_ReadFile :: "'f \<Rightarrow> string \<Rightarrow> error + bytes"
  vo_WriteFile :: "'f \<Rightarrow> string \<Rightarrow> bytes \<Rightarrow> err \<times> 'f"

definition filepath_Dir :: "string \<Rightarrow> string" where
  "filepath_Dir p = filepath_Clean (rev (dropWhile (\<lambda>c. c \<noteq> CHR ''/'') (rev p)))"

definition io_ReadFull :: "bytes \<Rightarrow> nat \<Rightarrow> error + bytes" where
  "io_ReadFull rnd n =
     (if n \<le> length rnd then Inr (take n rnd)
      else Inl (Err (if rnd = [] then ''EOF'' else ''unexpected EOF'')))"

section \<open>The file\<close>

definition deriveKey :: "string \<Rightarrow> string \<Rightarrow> bytes" where
  "deriveKey kek keyID = Sum256 (kek @ ''|'' @ keyID)"

definition persistLocked ::
  "json_obj option codec \<Rightarrow> 'f vault_os \<Rightarrow> bytes \<Rightarrow> vault \<Rightarrow> 'f \<Rightarrow> err \<times> 'f" where
  "persistLocked J OS rnd v f =
     (case jc_Marshal J (Some (va_data v)) of
        Inl e \<Rightarrow> (Some e, f)
      | Inr b \<Rightarrow>
          (case aes_NewCipher (va_key v) of
             Inl e \<Rightarrow> (Some e, f)
           | Inr block \<Rightarrow>
               (case io_ReadFull rnd 12 of
                  Inl e \<Rightarrow> (Some e, f)
                | Inr nonce \<Rightarrow>
                    let ct = gcm_Seal block nonce b []
                    in vo_WriteFile OS f (va_path v) (''KVAULT1:'' @ nonce @ ct))))"

definition readDecrypted :: "'f vault_os \<Rightarrow> 'f \<Rightarrow> string \<Rightarrow> bytes \<Rightarrow> error + bytes" where
  "readDecrypted OS f path key =
     (case vo_ReadFile OS f path of
        Inl e \<Rightarrow> Inl e
      | Inr inp \<Rightarrow>
          if length inp < length ''KVAULT1:'' + 12 then Inl (Err ''invalid keyvault file'')
          else if take 8 inp \<noteq> ''KVAULT1:'' then Inl (Err ''invalid keyvault header'')
          else (case aes_NewCipher key of
                  Inl e \<Rightarrow> Inl e
                | Inr block \<Rightarrow> gcm_Open block (take 12 (drop 8 inp)) (drop 20 inp) []))"

section \<open>The vault\<close>

text \<open>
  The JSON text \<^verbatim>\<open>null\<close> decodes into a nil map (\<open>None\<close> in the codec's type), and the assignment
  \<^verbatim>\<open>obj["kv"] = ...\<close> panics on it: the result \<open>None\<close>.
\<close>

definition OpenOrInit ::
  "json_obj option codec \<Rightarrow> (string \<Rightarrow> vault \<Rightarrow> 'f \<Rightarrow> vault \<times> 'f) \<Rightarrow> 'f vault_os \<Rightarrow> bytes \<Rightarrow> open_options \<Rightarrow> 'f
     \<Rightarrow> ((error + vault) \<times> 'f) option" where
  "OpenOrInit J rot OS rnd opt f =
     (let kek = vo_Getenv OS (oo_KEKEnv opt)
      in if kek = [] then Some (Inl (Err (''missing keymaster env: '' @ oo_KEKEnv opt)), f)
         else
           let key = deriveKey kek ''k1'';
               f = snd (vo_MkdirAll OS f (filepath_Dir (oo_Path opt)))
           in if vo_NotExist OS f (oo_Path opt) then
                let v = \<lparr>va_rotationDays = oo_RotationDays opt, va_path = oo_Path opt, va_key = key,
                         va_data = fmap_of_list [(''version'', JNum 1), (''kv'', JObject fmempty)]\<rparr>
                in (case persistLocked J OS rnd v f of
                      (Some e, f) \<Rightarrow> Some (Inl e, f)
                    | (None, f) \<Rightarrow> Some (Inr v, f))
              else
                (case readDecrypted OS f (oo_Path opt) key of
                   Inl e \<Rightarrow> Some (Inl e, f)
                 | Inr plain \<Rightarrow>
                     (case jc_Unmarshal J plain of
                        (_, Some e) \<Rightarrow> Some (Inl e, f)
                      | (None, None) \<Rightarrow> None
                      | (Some obj, None) \<Rightarrow>
                          let obj = (if fmlookup obj ''kv'' = None then fmupd ''kv'' (JObject fmempty) obj else obj);
                              (v, f) = rot kek \<lparr>va_rotationDays = oo_RotationDays opt, va_path = oo_Path opt,
                                                va_key = key, va_data = obj\<rparr> f
                          in Some (Inr v, f))))"

definition vault_kv :: "vault \<Rightarrow> json_obj option" where
  "vault_kv v = (case fmlookup (va_data v) ''kv'' of Some (JObject kv) \<Rightarrow> Some kv | _ \<Rightarrow> None)"

definition GetString :: "vault \<Rightarrow> string \<Rightarrow> string \<times> bool" where
  "GetString v key =
     (case vault_kv v of
        None \<Rightarrow> ([], False)
      | Some kv \<Rightarrow> (case fmlookup kv key of Some (JString s) \<Rightarrow> (s, True) | _ \<Rightarrow> ([], False)))"

definition SetString ::
  "json_obj option codec \<Rightarrow> 'f vault_os \<Rightarrow> bytes \<Rightarrow> vault \<Rightarrow> string \<Rightarrow> string \<Rightarrow> 'f \<Rightarrow> err \<times> vault \<times> 'f" where
  "SetString J OS rnd v key value f =
     (let kv = (case vault_kv v of None \<Rightarrow> fmempty | Some kv \<Rightarrow> kv);
          v = v\<lparr>va_data := fmupd ''kv'' (JObject (fmupd key (JString value) kv)) (va_data v)\<rparr>;
          (e, f) = persistLocked J OS rnd v f
      in (e, v, f))"

section \<open>What is set is read back\<close>

text \<open>What the vault relies on in the operating system: a file written is there with its contents, and
  making directories leaves an existing file as it is.\<close>

definition vault_os_laws :: "'f vault_os \<Rightarrow> bool" where
  "vault_os_laws OS \<longleftrightarrow>
     (\<forall>f p b f'. vo_WriteFile OS f p b = (None, f') \<longrightarrow> \<not> vo_NotExist OS f' p \<and> vo_ReadFile OS f' p = Inr b) \<and>
     (\<forall>f p b d. \<not> vo_NotExist OS f p \<longrightarrow> vo_ReadFile OS f p = Inr b \<longrightarrow>
        \<not> vo_NotExist OS (snd (vo_MkdirAll OS f d)) p \<and> vo_ReadFile OS (snd (vo_MkdirAll OS f d)) p = Inr b)"

lemma vault_os_lawsD:
  assumes "vault_os_laws OS"
  shows "vo_WriteFile OS f p b = (None, f') \<Longrightarrow> \<not> vo_NotExist OS f' p \<and> vo_ReadFile OS f' p = Inr b"
    "\<lbrakk>\<not> vo_NotExist OS f p; vo_ReadFile OS f p = Inr b\<rbrakk> \<Longrightarrow>
       \<not> vo_NotExist OS (snd (vo_MkdirAll OS f d)) p \<and> vo_ReadFile OS (snd (vo_MkdirAll OS f d)) p = Inr b"
  using assms by (auto simp: vault_os_laws_def)

lemma aes_NewCipher_32: "length key = 32 \<Longrightarrow> aes_NewCipher key = Inr (aes_Encrypt key)"
  by (simp add: aes_NewCipher_def)

text \<open>A vault that was persisted is decrypted to the JSON text it was persisted as.\<close>

lemma persist_then_read:
  assumes "vault_os_laws OS" "length (va_key v) = 32" "persistLocked J OS rnd v f = (None, f')"
  obtains b where "jc_Marshal J (Some (va_data v)) = Inr b"
    "\<And>d. readDecrypted OS (snd (vo_MkdirAll OS f' d)) (va_path v) (va_key v) = Inr b"
    "\<And>d. \<not> vo_NotExist OS (snd (vo_MkdirAll OS f' d)) (va_path v)"
proof -
  let ?E = "aes_Encrypt (va_key v)"
  from assms(2,3) obtain b where b: "jc_Marshal J (Some (va_data v)) = Inr b" and n: "12 \<le> length rnd"
    and w: "vo_WriteFile OS f (va_path v) (''KVAULT1:'' @ take 12 rnd @ gcm_Seal ?E (take 12 rnd) b []) = (None, f')"
    by (auto simp: persistLocked_def aes_NewCipher_32 io_ReadFull_def Let_def split: sum.splits if_splits)
  note r = vault_os_lawsD(1) [OF assms(1) w]
  have "gcm_Open ?E (take 12 rnd) (gcm_Seal ?E (take 12 rnd) b []) [] = Inr b"
    using n by (intro gcm_Open_Seal length_aes_Encrypt [OF assms(2)]) simp_all
  then have "readDecrypted OS (snd (vo_MkdirAll OS f' d)) (va_path v) (va_key v) = Inr b" for d
    using vault_os_lawsD(2) [OF assms(1), of f' "va_path v" _ d] r n
    by (simp add: readDecrypted_def aes_NewCipher_32 [OF assms(2)] min_absorb2)
  with b show thesis using that vault_os_lawsD(2) [OF assms(1)] r by blast
qed

text \<open>
  \<^verbatim>\<open>maybeRotateLocked\<close> changes the key identifier, and with it the key, once the age of the vault exceeds
  \<^verbatim>\<open>rotation_days\<close> (\<^verbatim>\<open>README.md\<close>, 1.0.9); before that it may add its metadata, and path, key and
  entries stay. The round trip is that of a vault whose rotation is not due when it is opened:
  \<^verbatim>\<open>OpenOrInit\<close> derives its key for the identifier \<^verbatim>\<open>k1\<close> at every start, so it does not decrypt a vault
  under another one.
\<close>

definition no_rotation_due :: "(string \<Rightarrow> vault \<Rightarrow> 'f \<Rightarrow> vault \<times> 'f) \<Rightarrow> bool" where
  "no_rotation_due rot \<longleftrightarrow> (\<forall>kek v f. let v' = fst (rot kek v f)
     in va_path v' = va_path v \<and> va_key v' = va_key v \<and> fmlookup (va_data v') ''kv'' = fmlookup (va_data v) ''kv'')"

lemma no_rotation_dueD:
  assumes "no_rotation_due rot" "rot kek v f = (v', f')"
  shows "va_path v' = va_path v" "va_key v' = va_key v" "GetString v' k = GetString v k"
  using assms unfolding no_rotation_due_def Let_def by (metis fst_conv GetString_def vault_kv_def)+

lemma OpenOrInit_vault:
  assumes "OpenOrInit J rot OS rnd opt f = Some (Inr v, f1)" "no_rotation_due rot"
  shows "vo_Getenv OS (oo_KEKEnv opt) \<noteq> []" "va_path v = oo_Path opt"
    "va_key v = deriveKey (vo_Getenv OS (oo_KEKEnv opt)) ''k1''"
  using assms(1)
  by (auto simp: OpenOrInit_def Let_def split: if_splits prod.splits option.splits sum.splits
      dest: no_rotation_dueD(1,2) [OF assms(2)])

lemma SetString_GetString:
  assumes "SetString J OS rnd v k x f = (e, v', f')"
  shows "GetString v' k' = (if k' = k then (x, True) else GetString v k')" "vault_kv v' \<noteq> None"
    "va_path v' = va_path v" "va_key v' = va_key v" "persistLocked J OS rnd v' f = (e, f')"
proof -
  define kv where "kv = (case vault_kv v of None \<Rightarrow> fmempty | Some kv \<Rightarrow> kv)"
  define u where "u = v\<lparr>va_data := fmupd ''kv'' (JObject (fmupd k (JString x) kv)) (va_data v)\<rparr>"
  have "SetString J OS rnd v k x f = (fst (persistLocked J OS rnd u f), u, snd (persistLocked J OS rnd u f))"
    by (simp add: SetString_def Let_def u_def kv_def case_prod_beta)
  then have v': "v' = u" and p: "persistLocked J OS rnd u f = (e, f')" using assms by (auto simp: prod_eq_iff)
  have kv': "vault_kv u = Some (fmupd k (JString x) kv)" by (simp add: vault_kv_def u_def)
  show "GetString v' k' = (if k' = k then (x, True) else GetString v k')"
    unfolding v' GetString_def kv' by (simp add: kv_def split: option.split)
  show "vault_kv v' \<noteq> None" unfolding v' kv' by simp
  show "va_path v' = va_path v" "va_key v' = va_key v" by (simp_all add: v' u_def)
  show "persistLocked J OS rnd v' f = (e, f')" using p by (simp add: v')
qed

text \<open>
  C17. The vault keeps its entries across restarts, as long as no rotation of its key is due: after \<^verbatim>\<open>SetString\<close> has returned without an error on a
  vault that \<^verbatim>\<open>OpenOrInit\<close> returned, \<^verbatim>\<open>OpenOrInit\<close> with the same options succeeds on the file system it
  left, decrypting the file with AES-256-GCM under the key derived from the environment, and the vault it
  returns answers the value for that key and, for every other key, what the vault answered before the
  update. While the environment variable is unset it returns an error and touches nothing.
\<close>
theorem vault_roundtrip:
  assumes "vault_os_laws OS" "no_rotation_due rot" "no_rotation_due rot'"
    "OpenOrInit J rot OS rnd opt f = Some (Inr v, f1)"
    "SetString J OS rnd' v k x f2 = (None, v', f3)" "codec_ok J (Some (va_data v'))"
  shows "(\<exists>w f4. OpenOrInit J rot' OS rnd'' opt f3 = Some (Inr w, f4) \<and>
            (\<forall>k'. GetString w k' = (if k' = k then (x, True) else GetString v k'))) \<and>
         OpenOrInit J rot' (OS\<lparr>vo_Getenv := (\<lambda>_. [])\<rparr>) rnd'' opt f3 =
           Some (Inl (Err (''missing keymaster env: '' @ oo_KEKEnv opt)), f3)"
proof (intro conjI)
  note opened = OpenOrInit_vault [OF assms(4,2)] and upd = SetString_GetString [OF assms(5)]
  have "length (va_key v') = 32" using opened(3) upd(4) by (simp add: deriveKey_def)
  from persist_then_read [OF assms(1) this upd(5)] obtain b where b: "jc_Marshal J (Some (va_data v')) = Inr b"
    and r: "\<And>d. readDecrypted OS (snd (vo_MkdirAll OS f3 d)) (va_path v') (va_key v') = Inr b"
      "\<And>d. \<not> vo_NotExist OS (snd (vo_MkdirAll OS f3 d)) (va_path v')" by blast
  have u: "jc_Unmarshal J b = (Some (va_data v'), None)" using assms(6) b by (auto simp: codec_ok_def)
  have kv: "fmlookup (va_data v') ''kv'' \<noteq> None" using upd(2) by (auto simp: vault_kv_def split: option.splits)
  let ?v = "\<lparr>va_rotationDays = oo_RotationDays opt, va_path = oo_Path opt, va_key = va_key v', va_data = va_data v'\<rparr>"
  obtain w f4 where w: "rot' (vo_Getenv OS (oo_KEKEnv opt)) ?v (snd (vo_MkdirAll OS f3 (filepath_Dir (oo_Path opt)))) = (w, f4)"
    by fastforce
  have "OpenOrInit J rot' OS rnd'' opt f3 = Some (Inr w, f4)"
    using opened upd(3,4) r u kv w by (auto simp: OpenOrInit_def Let_def)
  moreover have "GetString w k' = (if k' = k then (x, True) else GetString v k')" for k'
    using no_rotation_dueD(3) [OF assms(3) w, of k'] upd(1) [of k'] by (simp add: GetString_def vault_kv_def)
  ultimately show "\<exists>w f4. OpenOrInit J rot' OS rnd'' opt f3 = Some (Inr w, f4) \<and>
      (\<forall>k'. GetString w k' = (if k' = k then (x, True) else GetString v k'))" by blast
qed (simp add: OpenOrInit_def Let_def)

definition sample_vault_os :: "(string \<rightharpoonup> bytes) vault_os" where
  "sample_vault_os = \<lparr>vo_Getenv = (\<lambda>k. if k = ''KEK'' then ''secret'' else []), vo_MkdirAll = (\<lambda>f d. (None, f)),
     vo_NotExist = (\<lambda>f p. f p = None),
     vo_ReadFile = (\<lambda>f p. case f p of None \<Rightarrow> Inl (Err ''no such file'') | Some b \<Rightarrow> Inr b),
     vo_WriteFile = (\<lambda>f p b. (None, f(p \<mapsto> b)))\<rparr>"

definition sample_options :: open_options where
  "sample_options = \<lparr>oo_RotationDays = 90, oo_Path = ''keys/vault'', oo_KEKEnv = ''KEK''\<rparr>"

definition sample_vault_data :: "json_obj \<Rightarrow> json_obj" where
  "sample_vault_data kv = fmupd ''kv'' (JObject kv) (fmap_of_list [(''version'', JNum 1), (''kv'', JObject fmempty)])"

definition sample_vault_json :: "json_obj option codec" where
  "sample_vault_json = table_codec None
     [(''0'', Some (fmap_of_list [(''version'', JNum 1), (''kv'', JObject fmempty)])),
      (''1'', Some (sample_vault_data (fmupd ''seed'' (JString ''abc'') fmempty)))]"

theorem vault_roundtrip_witness:
  "let opt = (\<lambda>f. OpenOrInit sample_vault_json (\<lambda>kek v f. (v, f)) sample_vault_os (replicate 12 CHR ''n'') sample_options f)
   in \<exists>v f1 v' f2 w f3. opt Map.empty = Some (Inr v, f1) \<and>
     SetString sample_vault_json sample_vault_os (replicate 12 CHR ''m'') v ''seed'' ''abc'' f1 = (None, v', f2) \<and>
     opt f2 = Some (Inr w, f3) \<and> GetString w ''seed'' = (''abc'', True)"
proof -
  let ?J = sample_vault_json and ?rot = "\<lambda>kek v (f :: string \<rightharpoonup> bytes). (v :: vault, f)"
  let ?n = "replicate 12 CHR ''n''" and ?m = "replicate 12 CHR ''m''"
  have laws: "vault_os_laws sample_vault_os" "no_rotation_due ?rot"
    by (auto simp: vault_os_laws_def sample_vault_os_def no_rotation_due_def)
  define d0 where "d0 = fmap_of_list [(''version'', JNum 1), (''kv'', JObject fmempty)]"
  have d0: "fmupd ''version'' (JNum 1) (fmupd ''kv'' (JObject fmempty) fmempty) = d0" by (simp add: d0_def)
  define v0 where "v0 = \<lparr>va_rotationDays = 90, va_path = ''keys/vault'', va_key = deriveKey ''secret'' ''k1'', va_data = d0\<rparr>"
  have kv0: "fmlookup d0 ''kv'' = Some (JObject fmempty)" by (simp add: d0_def fmlookup_of_list)
  have kv1: "fmlookup (sample_vault_data (fmupd ''seed'' (JString ''abc'') fmempty)) ''kv'' =
      Some (JObject (fmupd ''seed'' (JString ''abc'') fmempty))" by (simp add: sample_vault_data_def)
  have ne: "d0 \<noteq> sample_vault_data (fmupd ''seed'' (JString ''abc'') fmempty)"
  proof
    assume "d0 = sample_vault_data (fmupd ''seed'' (JString ''abc'') fmempty)"
    with kv0 kv1 have "fmlookup (fmempty :: json_obj) ''seed'' = fmlookup (fmupd ''seed'' (JString ''abc'') fmempty) ''seed''" by simp
    then show False by simp
  qed
  have J: "jc_Marshal ?J (Some d0) = Inr ''0''" "codec_ok ?J (Some (sample_vault_data (fmupd ''seed'' (JString ''abc'') fmempty)))"
    using ne by (simp_all add: sample_vault_json_def table_codec_def codec_ok_def d0)
  have key: "length (deriveKey ''secret'' ''k1'') = 32" by (simp add: deriveKey_def)
  obtain f1 where f1: "persistLocked ?J sample_vault_os ?n v0 Map.empty = (None, f1)"
    using J(1) key by (simp add: persistLocked_def v0_def aes_NewCipher_32 io_ReadFull_def sample_vault_os_def Let_def)
  have o: "OpenOrInit ?J ?rot sample_vault_os ?n sample_options Map.empty = Some (Inr v0, f1)"
    using f1 by (simp add: OpenOrInit_def sample_options_def sample_vault_os_def Let_def v0_def d0)
  define v1 where "v1 = v0\<lparr>va_data := sample_vault_data (fmupd ''seed'' (JString ''abc'') fmempty)\<rparr>"
  obtain b where "jc_Marshal ?J (Some (va_data v1)) = Inr b" using J(2) by (auto simp: codec_ok_def v1_def)
  then obtain f2 where f2: "persistLocked ?J sample_vault_os ?m v1 f1 = (None, f2)"
    using key by (simp add: persistLocked_def v0_def v1_def aes_NewCipher_32 io_ReadFull_def sample_vault_os_def Let_def)
  have s: "SetString ?J sample_vault_os ?m v0 ''seed'' ''abc'' f1 = (None, v1, f2)"
    using f2 kv0 by (simp add: SetString_def vault_kv_def v0_def v1_def sample_vault_data_def Let_def d0)
  have "codec_ok ?J (Some (va_data v1))" using J(2) by (simp add: v1_def)
  from vault_roundtrip [OF laws laws(2) o s this, of ?n] o s show ?thesis unfolding Let_def by fastforce
qed

end
