(* ===== verification/Slots.thy ===== *)
theory Slots
  imports ChainStore Crypto "HOL-Library.Sublist"
begin

text \<open>
  The storage daemon, \<^verbatim>\<open>services/storage-daemon/storaged\<close>: the tables of
  \<^verbatim>\<open>migrate.go\<close> and the handlers of \<^verbatim>\<open>server.go\<close> that allocate, confirm and annotate
  address slots. The state is the content of the two tables; a statement of the sources is its
  effect on them, a violated \<^verbatim>\<open>UNIQUE\<close> constraint makes the insert fail, and the transaction
  of \<^verbatim>\<open>handleAllocSlot\<close> is rolled back unless it is committed. Failures of the database
  itself are not modelled.
\<close>

section \<open>Requests and answers\<close>

record http_req =
  rq_Method :: string
  rq_Body :: bytes

record http_resp =
  rs_Status :: int
  rs_Body :: bytes

definition status_only :: "int \<Rightarrow> http_resp" where
  "status_only n = \<lparr>rs_Status = n, rs_Body = []\<rparr>"

definition status_body :: "int \<Rightarrow> bytes \<Rightarrow> http_resp" where
  "status_body n b = \<lparr>rs_Status = n, rs_Body = b\<rparr>"

text \<open>\<^verbatim>\<open>json.NewEncoder(w).Encode(v)\<close>, which ends with a newline; an error writes nothing.\<close>

definition json_body :: "'a codec \<Rightarrow> 'a \<Rightarrow> http_resp" where
  "json_body J v = (case jc_Marshal J v of Inl _ \<Rightarrow> status_only 200 | Inr b \<Rightarrow> status_body 200 (b @ [CHR 0x0A]))"

section \<open>The tables\<close>

record slot =
  sl_slot_id :: int
  sl_account_id :: "string option"
  sl_purpose :: string
  sl_derivation_index :: int
  sl_created_at :: int
  sl_expires_at :: "int option"
  sl_status :: string
  sl_address_hash :: "bytes option"
  sl_confirmed_height :: "int option"
  sl_confirmed_txid :: "string option"
  sl_confirmed_at :: "int option"

text \<open>\<open>sd_seq\<close> is the last number \<^verbatim>\<open>AUTOINCREMENT\<close> gave out.\<close>

record slots_db =
  sd_counters :: "string \<rightharpoonup> int"
  sd_slots :: "slot list"
  sd_seq :: int

definition empty_slots :: slots_db where
  "empty_slots = \<lparr>sd_counters = Map.empty, sd_slots = [], sd_seq = 0\<rparr>"

section \<open>The handlers\<close>

record alloc_slot_req =
  aq_AccountID :: "string option"
  aq_Purpose :: string
  aq_ExpiresAt :: "int option"

record alloc_slot_resp =
  ap_SlotID :: int
  ap_DerivationIndex :: u64
  ap_ExpiresAt :: "int option"

definition counter_name :: "alloc_slot_req \<Rightarrow> string" where
  "counter_name req =
     (let counterName = ''addr_index:'';
          counterName = (case aq_AccountID req of Some a \<Rightarrow> counterName @ a | None \<Rightarrow> counterName @ ''default'')
      in counterName @ '':'' @ aq_Purpose req)"

text \<open>\<^verbatim>\<open>INSERT INTO address_slots\<close>, with \<^verbatim>\<open>UNIQUE(purpose, derivation_index)\<close>.\<close>

definition insert_slot :: "slot \<Rightarrow> slots_db \<Rightarrow> slots_db option" where
  "insert_slot s db =
     (if list_ex (\<lambda>t. sl_purpose t = sl_purpose s \<and> sl_derivation_index t = sl_derivation_index s) (sd_slots db) then None
      else let n = sd_seq db + 1 in Some (db\<lparr>sd_slots := sd_slots db @ [s\<lparr>sl_slot_id := n\<rparr>], sd_seq := n\<rparr>))"

definition alloc_slot :: "int \<Rightarrow> alloc_slot_req \<Rightarrow> slots_db \<Rightarrow> (alloc_slot_resp \<times> slots_db) option" where
  "alloc_slot now req db =
     (let counterName = counter_name req;
          cur = (case sd_counters db counterName of None \<Rightarrow> 0 | Some v \<Rightarrow> v);
          deriv = u64_of_int cur;
          db = db\<lparr>sd_counters := (sd_counters db)(counterName \<mapsto> cur + 1)\<rparr>
      in do { db \<leftarrow> insert_slot \<lparr>sl_slot_id = 0, sl_account_id = aq_AccountID req, sl_purpose = aq_Purpose req,
                       sl_derivation_index = int_of_u64 deriv, sl_created_at = now, sl_expires_at = aq_ExpiresAt req,
                       sl_status = ''allocated'', sl_address_hash = None, sl_confirmed_height = None, sl_confirmed_txid = None,
                       sl_confirmed_at = None\<rparr> db;
              Some (\<lparr>ap_SlotID = sd_seq db, ap_DerivationIndex = deriv, ap_ExpiresAt = aq_ExpiresAt req\<rparr>, db) })"

definition handleAllocSlot ::
  "alloc_slot_req codec \<Rightarrow> alloc_slot_resp codec \<Rightarrow> int \<Rightarrow> http_req \<Rightarrow> slots_db \<Rightarrow> http_resp \<times> slots_db" where
  "handleAllocSlot J JR now r db =
     (if rq_Method r \<noteq> ''POST'' then (status_only 405, db)
      else case jc_Unmarshal J (rq_Body r) of
             (_, Some _) \<Rightarrow> (status_only 400, db)
           | (req, None) \<Rightarrow>
               if aq_Purpose req = [] then (status_body 400 ''{\"error\":\"missing purpose\"}'', db)
               else (case alloc_slot now req db of
                       None \<Rightarrow> (status_only 500, db)
                     | Some (resp, db) \<Rightarrow> (json_body JR resp, db)))"

record mark_confirmed_req =
  mq_SlotID :: int
  mq_Height :: int
  mq_TxID :: string
  mq_ConfirmedAt :: int

definition update_slot :: "int \<Rightarrow> (slot \<Rightarrow> slot) \<Rightarrow> slots_db \<Rightarrow> slots_db" where
  "update_slot i f db = db\<lparr>sd_slots := map (\<lambda>s. if sl_slot_id s = i then f s else s) (sd_slots db)\<rparr>"

definition handleMarkConfirmed :: "mark_confirmed_req codec \<Rightarrow> http_req \<Rightarrow> slots_db \<Rightarrow> http_resp \<times> slots_db" where
  "handleMarkConfirmed J r db =
     (if rq_Method r \<noteq> ''POST'' then (status_only 405, db)
      else case jc_Unmarshal J (rq_Body r) of
             (_, Some _) \<Rightarrow> (status_only 400, db)
           | (req, None) \<Rightarrow>
               (status_body 200 ''{\"ok\":true}'',
                update_slot (mq_SlotID req) (\<lambda>s. s\<lparr>sl_status := ''confirmed'', sl_confirmed_height := Some (mq_Height req),
                  sl_confirmed_txid := Some (mq_TxID req), sl_confirmed_at := Some (mq_ConfirmedAt req)\<rparr>) db))"

record slot_set_hash_req =
  hq_SlotID :: int
  hq_AddressHash :: string

definition handleSlotSetHash :: "slot_set_hash_req codec \<Rightarrow> http_req \<Rightarrow> slots_db \<Rightarrow> http_resp \<times> slots_db" where
  "handleSlotSetHash J r db =
     (if rq_Method r \<noteq> ''POST'' then (status_only 405, db)
      else case jc_Unmarshal J (rq_Body r) of
             (_, Some _) \<Rightarrow> (status_only 400, db)
           | (req, None) \<Rightarrow>
               (case hex_DecodeString (hq_AddressHash req) of
                  Inl _ \<Rightarrow> (status_only 400, db)
                | Inr hb \<Rightarrow>
                    if length hb \<noteq> 32 then (status_only 400, db)
                    else (status_body 200 ''{\"ok\":true}'', update_slot (hq_SlotID req) (\<lambda>s. s\<lparr>sl_address_hash := Some hb\<rparr>) db)))"

section \<open>Who can allocate\<close>

definition slot_account :: "slot \<Rightarrow> string" where
  "slot_account s = (case sl_account_id s of Some a \<Rightarrow> a | None \<Rightarrow> ''default'')"

definition req_account :: "alloc_slot_req \<Rightarrow> string" where
  "req_account req = (case aq_AccountID req of Some a \<Rightarrow> a | None \<Rightarrow> ''default'')"

definition slots_of :: "slots_db \<Rightarrow> string \<Rightarrow> slot list" where
  "slots_of db p = filter (\<lambda>s. sl_purpose s = p) (sd_slots db)"

definition name_of :: "string \<Rightarrow> string \<Rightarrow> string" where
  "name_of a p = ''addr_index:'' @ a @ '':'' @ p"

definition plain :: "string \<Rightarrow> bool" where
  "plain p \<longleftrightarrow> CHR '':'' \<notin> set p"

lemma counter_name_eq: "counter_name req = name_of (req_account req) (aq_Purpose req)"
  by (simp add: counter_name_def name_of_def req_account_def split: option.split)

text \<open>A purpose without a colon and the account can be read off the name of the counter.\<close>

lemma name_of_inj:
  assumes "plain p" "plain q"
  shows "name_of a p = name_of b q \<longleftrightarrow> a = b \<and> p = q"
proof
  assume "name_of a p = name_of b q"
  then have "rev p @ CHR '':'' # rev a = rev q @ CHR '':'' # rev b"
    by (simp add: name_of_def) (metis append.assoc append_Cons append_Nil rev.simps(2) rev_append)
  moreover have "takeWhile (\<lambda>c. c \<noteq> CHR '':'') (rev x @ CHR '':'' # y) = rev x" if "plain x" for x y
    using that by (subst takeWhile_append2) (auto simp: plain_def)
  ultimately have "rev p = rev q" using assms by metis
  with \<open>rev p @ CHR '':'' # rev a = rev q @ CHR '':'' # rev b\<close> show "a = b \<and> p = q" by simp
qed simp

text \<open>
  With a colon in a purpose two pairs of an account and a purpose share a counter. The account
  \<open>a:b\<close> then gets index 1 of the purpose \<open>c\<close>, which leaves index 0 to another account: the purpose has
  two owners.
\<close>

lemma colon_two_owners:
  "\<exists>x1 d1 x2 d2 x3 d3.
     alloc_slot 0 \<lparr>aq_AccountID = Some ''a'', aq_Purpose = ''b:c'', aq_ExpiresAt = None\<rparr> empty_slots = Some (x1, d1) \<and>
     alloc_slot 0 \<lparr>aq_AccountID = Some ''a:b'', aq_Purpose = ''c'', aq_ExpiresAt = None\<rparr> d1 = Some (x2, d2) \<and>
     alloc_slot 0 \<lparr>aq_AccountID = Some ''z'', aq_Purpose = ''c'', aq_ExpiresAt = None\<rparr> d2 = Some (x3, d3) \<and>
     map (\<lambda>s. (slot_account s, sl_derivation_index s)) (slots_of d3 ''c'') = [(''a:b'', 1), (''z'', 0)]"
  by (simp add: alloc_slot_def insert_slot_def empty_slots_def counter_name_def slots_of_def slot_account_def Let_def i64_small)

text \<open>The databases the handlers can produce, from requests with plain purposes.\<close>

inductive slots_reach ::
  "alloc_slot_req codec \<Rightarrow> alloc_slot_resp codec \<Rightarrow> mark_confirmed_req codec \<Rightarrow> slot_set_hash_req codec \<Rightarrow> slots_db \<Rightarrow> bool"
  for J JR JM JH where
  reach_empty: "slots_reach J JR JM JH empty_slots"
| reach_alloc: "slots_reach J JR JM JH db \<Longrightarrow> plain (aq_Purpose (fst (jc_Unmarshal J (rq_Body r)))) \<Longrightarrow>
    slots_reach J JR JM JH (snd (handleAllocSlot J JR now r db))"
| reach_confirm: "slots_reach J JR JM JH db \<Longrightarrow> slots_reach J JR JM JH (snd (handleMarkConfirmed JM r db))"
| reach_hash: "slots_reach J JR JM JH db \<Longrightarrow> slots_reach J JR JM JH (snd (handleSlotSetHash JH r db))"

text \<open>
  A counter counts the slots of its purpose, which are numbered from 0 and all belong to its account.
\<close>

definition slots_inv :: "slots_db \<Rightarrow> bool" where
  "slots_inv db \<longleftrightarrow>
     (\<forall>name v. sd_counters db name = Some v \<longrightarrow> (\<exists>a p. name = name_of a p \<and> plain p \<and> slots_of db p \<noteq> [] \<and>
        v = int (length (slots_of db p)) \<and> (\<forall>s \<in> set (slots_of db p). slot_account s = a))) \<and>
     (\<forall>s \<in> set (sd_slots db). plain (sl_purpose s) \<and> sd_counters db (name_of (slot_account s) (sl_purpose s)) \<noteq> None) \<and>
     (\<forall>p. map sl_derivation_index (slots_of db p) = map int [0..<length (slots_of db p)])"

lemma slots_invD:
  assumes "slots_inv db" "plain p" "sd_counters db (name_of a p) = Some v"
  shows "slots_of db p \<noteq> []" "v = int (length (slots_of db p))" "s \<in> set (slots_of db p) \<Longrightarrow> slot_account s = a"
proof -
  obtain a' p' where *: "name_of a p = name_of a' p'" "plain p'" "slots_of db p' \<noteq> []"
      "v = int (length (slots_of db p'))" "\<forall>s \<in> set (slots_of db p'). slot_account s = a'"
    using assms(1,3) unfolding slots_inv_def by blast
  then have "a' = a" "p' = p" using name_of_inj [OF assms(2) *(2)] by simp_all
  with * show "slots_of db p \<noteq> []" "v = int (length (slots_of db p))" "s \<in> set (slots_of db p) \<Longrightarrow> slot_account s = a" by blast+
qed

lemma slots_inv_slot:
  assumes "slots_inv db" "s \<in> set (slots_of db p)"
  shows "plain p" "\<exists>v. sd_counters db (name_of (slot_account s) p) = Some v"
  using assms by (auto simp: slots_inv_def slots_of_def)

lemma slots_index:
  assumes "slots_inv db"
  shows "sl_derivation_index ` set (slots_of db p) = int ` {0..<length (slots_of db p)}"
proof -
  have "set (map sl_derivation_index (slots_of db p)) = set (map int [0..<length (slots_of db p)])"
    using assms unfolding slots_inv_def by metis
  then show ?thesis by simp
qed

lemma update_slot_inv:
  assumes "slots_inv db" "\<And>s. sl_account_id (f s) = sl_account_id s" "\<And>s. sl_purpose (f s) = sl_purpose s"
    "\<And>s. sl_derivation_index (f s) = sl_derivation_index s"
  shows "slots_inv (update_slot i f db)"
proof -
  define g where "g = (\<lambda>s. if sl_slot_id s = i then f s else s)"
  have ac: "slot_account (g s) = slot_account s" "sl_purpose (g s) = sl_purpose s" "sl_derivation_index (g s) = sl_derivation_index s" for s
    by (simp_all add: slot_account_def assms g_def)
  have slots: "sd_slots (update_slot i f db) = map g (sd_slots db)" "sd_counters (update_slot i f db) = sd_counters db"
    by (simp_all add: update_slot_def g_def)
  have of: "slots_of (update_slot i f db) p = map g (slots_of db p)" for p
    by (simp add: slots_of_def slots filter_map comp_def ac)
  show ?thesis
    using assms(1) unfolding slots_inv_def of slots by (simp add: ac comp_def)
qed

text \<open>What an allocation does in such a database: it succeeds for the owner of the purpose only.\<close>

lemma alloc_slot_cases:
  assumes "slots_inv db" "plain (aq_Purpose req)" "length (slots_of db (aq_Purpose req)) < 2 ^ 63"
  defines "n \<equiv> length (slots_of db (aq_Purpose req))"
  shows "alloc_slot now req db =
    (if \<exists>s \<in> set (slots_of db (aq_Purpose req)). slot_account s \<noteq> req_account req then None
     else Some (\<lparr>ap_SlotID = sd_seq db + 1, ap_DerivationIndex = of_nat n, ap_ExpiresAt = aq_ExpiresAt req\<rparr>,
       db\<lparr>sd_counters := (sd_counters db)(counter_name req \<mapsto> int n + 1),
        sd_slots := sd_slots db @ [\<lparr>sl_slot_id = sd_seq db + 1, sl_account_id = aq_AccountID req, sl_purpose = aq_Purpose req,
          sl_derivation_index = int n, sl_created_at = now, sl_expires_at = aq_ExpiresAt req, sl_status = ''allocated'',
          sl_address_hash = None, sl_confirmed_height = None, sl_confirmed_txid = None, sl_confirmed_at = None\<rparr>],
        sd_seq := sd_seq db + 1\<rparr>))"
proof -
  let ?p = "aq_Purpose req" and ?c = "sd_counters db (counter_name req)"
  have clash: "list_ex (\<lambda>t. sl_purpose t = ?p \<and> sl_derivation_index t = int i) (sd_slots db) \<longleftrightarrow> i < n" for i
  proof -
    have "list_ex (\<lambda>t. sl_purpose t = ?p \<and> sl_derivation_index t = int i) (sd_slots db) \<longleftrightarrow>
        int i \<in> sl_derivation_index ` set (slots_of db ?p)"
      by (auto simp: list_ex_iff slots_of_def image_iff)
    then show ?thesis using slots_index [OF assms(1), of ?p] by (auto simp: n_def)
  qed
  show ?thesis
  proof (cases ?c)
    case None
    have foreign: "slot_account s \<noteq> req_account req" if "s \<in> set (slots_of db ?p)" for s
      using slots_inv_slot(2) [OF assms(1) that] None by (auto simp: counter_name_eq)
    have z: "i64 0 = 0" "u64_of_int 0 = 0" "int_of_u64 0 = 0" by (simp_all add: u64_of_int_def int_of_u64_def in_i64_def)
    show ?thesis
    proof (cases "slots_of db ?p = []")
      case True
      then have "n = 0" by (simp add: n_def)
      then show ?thesis using None True clash [of 0] z by (simp add: alloc_slot_def insert_slot_def Let_def)
    next
      case False
      then have "0 < n" "\<exists>s \<in> set (slots_of db ?p). slot_account s \<noteq> req_account req"
        using foreign by (auto simp: n_def) (metis foreign list.set_intros(1) neq_Nil_conv)
      then show ?thesis using None clash [of 0] z by (simp add: alloc_slot_def insert_slot_def Let_def)
    qed
  next
    case (Some v)
    note own = slots_invD [OF assms(1,2) Some [unfolded counter_name_eq]]
    have v: "v = int n" "in_i64 v" using own(2) assms(3) by (simp_all add: n_def in_i64_def)
    then have "i64 (int n) = int n" "u64_of_int (int n) = of_nat n" by (simp_all add: u64_of_int_def)
    moreover from this have "int_of_u64 (of_nat n) = int n" by (metis int_of_u64_of_int)
    ultimately have "i64 (int n) = int n" "u64_of_int (int n) = of_nat n" "int_of_u64 (of_nat n) = int n" by blast+
    then show ?thesis using Some own(3) clash [of n] v(1) by (auto simp: alloc_slot_def insert_slot_def Let_def)
  qed
qed

lemma slots_reach_mono:
  "length (sd_slots db) \<le> length (sd_slots (snd (handleAllocSlot J JR now r db)))"
  "length (sd_slots (snd (handleMarkConfirmed JM r db))) = length (sd_slots db)"
  "length (sd_slots (snd (handleSlotSetHash JH r db))) = length (sd_slots db)"
  by (auto simp: handleAllocSlot_def handleMarkConfirmed_def handleSlotSetHash_def alloc_slot_def insert_slot_def update_slot_def Let_def
      split: prod.splits option.splits sum.splits if_splits Option.bind_splits)

lemma alloc_slot_inv:
  assumes "slots_inv db" "plain (aq_Purpose req)" "length (slots_of db (aq_Purpose req)) < 2 ^ 63"
    "alloc_slot now req db = Some (resp, db')"
  shows "slots_inv db'"
proof -
  let ?p = "aq_Purpose req" and ?a = "req_account req" and ?n = "length (slots_of db (aq_Purpose req))"
  have own: "slot_account s = ?a" if "s \<in> set (slots_of db ?p)" for s
    using assms(4) alloc_slot_cases [OF assms(1-3), of now] that by (auto split: if_splits)
  from assms(4) alloc_slot_cases [OF assms(1-3), of now] obtain s where
    db': "sd_counters db' = (sd_counters db)(name_of ?a ?p \<mapsto> int ?n + 1)" "sd_slots db' = sd_slots db @ [s]"
    and s: "sl_purpose s = ?p" "sl_derivation_index s = int ?n" "slot_account s = ?a"
    by (auto simp: counter_name_eq slot_account_def req_account_def split: if_splits)
  have of: "slots_of db' q = (if q = ?p then slots_of db ?p @ [s] else slots_of db q)" for q
    by (simp add: slots_of_def db'(2) s(1))
  have other: "name_of a q \<noteq> name_of ?a ?p" if "plain q" "q \<noteq> ?p" for a q
    using name_of_inj [OF that(1) assms(2)] that(2) by simp
  show ?thesis
    unfolding slots_inv_def
  proof (intro conjI allI impI ballI)
    fix name v assume v: "sd_counters db' name = Some v"
    show "\<exists>a p. name = name_of a p \<and> plain p \<and> slots_of db' p \<noteq> [] \<and> v = int (length (slots_of db' p)) \<and>
        (\<forall>s \<in> set (slots_of db' p). slot_account s = a)"
    proof (cases "name = name_of ?a ?p")
      case True
      then show ?thesis using v own s assms(2) by (intro exI [of _ ?a] exI [of _ ?p]) (auto simp: db'(1) of)
    next
      case False
      with v have old: "sd_counters db name = Some v" by (simp add: db'(1))
      then obtain a q where q: "name = name_of a q" "plain q" using assms(1) unfolding slots_inv_def by blast
      note inv = slots_invD [OF assms(1) q(2) old [unfolded q(1)]]
      have "q \<noteq> ?p" using inv(1,3) own False q(1) by (metis list.set_intros(1) neq_Nil_conv)
      then show ?thesis using inv q by (intro exI [of _ a] exI [of _ q]) (simp add: of)
    qed
  next
    fix t assume "t \<in> set (sd_slots db')"
    then show "plain (sl_purpose t)" using assms(1,2) s(1) by (auto simp: db'(2) slots_inv_def)
  next
    fix t assume "t \<in> set (sd_slots db')"
    then show "sd_counters db' (name_of (slot_account t) (sl_purpose t)) \<noteq> None"
      using assms(1) s by (auto simp: db' slots_inv_def)
  next
    fix q
    show "map sl_derivation_index (slots_of db' q) = map int [0..<length (slots_of db' q)]"
      using assms(1) s(2) by (simp add: of slots_inv_def)
  qed
qed

lemma length_slots_of: "length (slots_of db p) \<le> length (sd_slots db)"
  by (simp add: slots_of_def)

lemma slots_reach_inv:
  assumes "slots_reach J JR JM JH db" "length (sd_slots db) < 2 ^ 63"
  shows "slots_inv db"
  using assms
proof induction
  case reach_empty
  show ?case by (simp add: slots_inv_def empty_slots_def slots_of_def)
next
  case (reach_alloc db r now)
  then have len: "length (sd_slots db) < 2 ^ 63" using slots_reach_mono(1) [of db J JR now r] by simp
  with reach_alloc have inv: "slots_inv db" by blast
  have "length (slots_of db p) < 2 ^ 63" for p using length_slots_of [of db p] len by simp
  with inv reach_alloc.hyps(2) show ?case
    by (auto simp: handleAllocSlot_def split: prod.splits option.splits dest: alloc_slot_inv [OF inv])
next
  case (reach_confirm db r)
  then have "slots_inv db" by (simp add: slots_reach_mono)
  then show ?case by (auto simp: handleMarkConfirmed_def split: prod.splits option.splits intro!: update_slot_inv)
next
  case (reach_hash db r)
  then have "slots_inv db" by (simp add: slots_reach_mono)
  then show ?case
    by (auto simp: handleSlotSetHash_def split: prod.splits option.splits sum.splits intro!: update_slot_inv)
qed

text \<open>
  C18. A purpose without a colon belongs to the first account that asked for it. In every database that
  the handlers reach from the empty one when no request for a slot has a colon in its purpose (with one, a
  purpose can have two owners, \<open>colon_two_owners\<close>): all slots of a purpose belong to
  one account; a request of that account, or the first one for the purpose, gets the next index,
  counted from 0; and every request of another account is answered with an internal error and
  leaves the database as it is, although the counters are kept per account.
\<close>
theorem slots_one_owner:
  assumes "slots_reach J JR JM JH db" "length (sd_slots db) < 2 ^ 63"
    "rq_Method r = ''POST''" "jc_Unmarshal J (rq_Body r) = (req, None)" "aq_Purpose req \<noteq> []" "plain (aq_Purpose req)"
  shows "(\<forall>s \<in> set (sd_slots db). \<forall>t \<in> set (sd_slots db). sl_purpose s = sl_purpose t \<longrightarrow> slot_account s = slot_account t) \<and>
    ((\<exists>s \<in> set (slots_of db (aq_Purpose req)). slot_account s \<noteq> req_account req) \<longrightarrow>
       handleAllocSlot J JR now r db = (status_only 500, db)) \<and>
    ((\<forall>s \<in> set (slots_of db (aq_Purpose req)). slot_account s = req_account req) \<longrightarrow>
       (\<exists>db'. handleAllocSlot J JR now r db = (json_body JR \<lparr>ap_SlotID = sd_seq db + 1,
            ap_DerivationIndex = of_nat (length (slots_of db (aq_Purpose req))), ap_ExpiresAt = aq_ExpiresAt req\<rparr>, db') \<and>
          length (slots_of db' (aq_Purpose req)) = Suc (length (slots_of db (aq_Purpose req)))))"
proof (intro conjI impI ballI)
  note inv = slots_reach_inv [OF assms(1,2)]
  have "length (slots_of db (aq_Purpose req)) < 2 ^ 63" using length_slots_of [of db "aq_Purpose req"] assms(2) by simp
  note cases = alloc_slot_cases [OF inv assms(6) this, of now]
  { fix s t assume st: "s \<in> set (sd_slots db)" "t \<in> set (sd_slots db)" "sl_purpose s = sl_purpose t"
    then have mem: "s \<in> set (slots_of db (sl_purpose t))" "t \<in> set (slots_of db (sl_purpose t))" by (simp_all add: slots_of_def)
    obtain v where "sd_counters db (name_of (slot_account t) (sl_purpose t)) = Some v"
      using slots_inv_slot(2) [OF inv mem(2)] by blast
    from slots_invD(3) [OF inv slots_inv_slot(1) [OF inv mem(2)] this mem(1)] show "slot_account s = slot_account t" . }
  { assume "\<exists>s \<in> set (slots_of db (aq_Purpose req)). slot_account s \<noteq> req_account req"
    then show "handleAllocSlot J JR now r db = (status_only 500, db)"
      using cases assms(3-5) by (simp add: handleAllocSlot_def) }
  { assume "\<forall>s \<in> set (slots_of db (aq_Purpose req)). slot_account s = req_account req"
    then show "\<exists>db'. handleAllocSlot J JR now r db = (json_body JR \<lparr>ap_SlotID = sd_seq db + 1,
            ap_DerivationIndex = of_nat (length (slots_of db (aq_Purpose req))), ap_ExpiresAt = aq_ExpiresAt req\<rparr>, db') \<and>
          length (slots_of db' (aq_Purpose req)) = Suc (length (slots_of db (aq_Purpose req)))"
      using cases assms(3-5) by (simp add: handleAllocSlot_def slots_of_def) }
qed

definition sample_slot_reqs :: "alloc_slot_req codec" where
  "sample_slot_reqs = table_codec \<lparr>aq_AccountID = None, aq_Purpose = [], aq_ExpiresAt = None\<rparr>
     [(''1'', \<lparr>aq_AccountID = Some ''alice'', aq_Purpose = ''receive'', aq_ExpiresAt = None\<rparr>),
      (''2'', \<lparr>aq_AccountID = Some ''bob'', aq_Purpose = ''receive'', aq_ExpiresAt = None\<rparr>)]"

definition sample_slots :: slots_db where
  "sample_slots = snd (handleAllocSlot sample_slot_reqs (table_codec \<lparr>ap_SlotID = 0, ap_DerivationIndex = 0, ap_ExpiresAt = None\<rparr> [])
     0 \<lparr>rq_Method = ''POST'', rq_Body = ''1''\<rparr> empty_slots)"

theorem slots_one_owner_witness:
  "handleAllocSlot sample_slot_reqs (table_codec \<lparr>ap_SlotID = 0, ap_DerivationIndex = 0, ap_ExpiresAt = None\<rparr> []) 9
     \<lparr>rq_Method = ''POST'', rq_Body = ''2''\<rparr> sample_slots = (status_only 500, sample_slots)"
proof -
  let ?JR = "table_codec \<lparr>ap_SlotID = 0, ap_DerivationIndex = 0, ap_ExpiresAt = None\<rparr> []"
  let ?JM = "table_codec \<lparr>mq_SlotID = 0, mq_Height = 0, mq_TxID = [], mq_ConfirmedAt = 0\<rparr> []"
  let ?JH = "table_codec \<lparr>hq_SlotID = 0, hq_AddressHash = []\<rparr> []"
  have req: "jc_Unmarshal sample_slot_reqs ''1'' = (\<lparr>aq_AccountID = Some ''alice'', aq_Purpose = ''receive'', aq_ExpiresAt = None\<rparr>, None)"
    "jc_Unmarshal sample_slot_reqs ''2'' = (\<lparr>aq_AccountID = Some ''bob'', aq_Purpose = ''receive'', aq_ExpiresAt = None\<rparr>, None)"
    by (simp_all add: sample_slot_reqs_def table_codec_def)
  have "slots_reach sample_slot_reqs ?JR ?JM ?JH sample_slots"
    unfolding sample_slots_def by (rule reach_alloc [OF reach_empty]) (simp add: req plain_def)
  moreover have "\<exists>s. sd_slots sample_slots = [s] \<and> sl_purpose s = ''receive'' \<and> sl_account_id s = Some ''alice''"
    by (simp add: sample_slots_def handleAllocSlot_def req alloc_slot_def insert_slot_def empty_slots_def Let_def)
  ultimately show ?thesis
    using slots_one_owner [of sample_slot_reqs ?JR ?JM ?JH sample_slots "\<lparr>rq_Method = ''POST'', rq_Body = ''2''\<rparr>" _ 9] req(2)
    by (auto simp: slots_of_def slot_account_def req_account_def plain_def)
qed

end
