(* ===== verification/SyncRound.thy ===== *)
theory SyncRound
  imports SubmitProps
begin

text \<open>
  A round of the block synchronisation over HTTP, \<^verbatim>\<open>core/node/sync.go\<close>: the peer that
  claims the greatest height is asked for headers after the local tip; where these do not lead to more
  work, for the headers after the last common block, provided that it agrees on the finalized block;
  the blocks are then fetched by hash and submitted. The network is a state \<open>n\<close>, so that
  the same request may be answered differently each time; an answer is its status and its body.
  \<^verbatim>\<open>reorgFromPeer\<close>, which the sources call and do not declare, is an argument.
\<close>

section \<open>Requests\<close>

record 'n network =
  net_Get :: "string \<Rightarrow> 'n \<Rightarrow> (error + int \<times> bytes) \<times> 'n"
  net_Post :: "string \<Rightarrow> bytes \<Rightarrow> 'n \<Rightarrow> (error + int \<times> bytes) \<times> 'n"

record chain_info =
  ci_ChainID :: string
  ci_Height :: u64
  ci_Tip :: string
  ci_TipWork :: u64

record locate_resp =
  lr_Found :: bool
  lr_Hash :: string
  lr_Height :: u64

record headers_answer =
  ha_From :: u64
  ha_Count :: int
  ha_Headers :: "block_header list"

record block_resp =
  br_Height :: u64
  br_Hash :: string
  br_Block :: block

record block_by_hash_resp =
  bb_Hash :: string
  bb_Block :: block

record sync_codecs =
  sj_info :: "chain_info codec"
  sj_locator :: "string list codec"
  sj_locate :: "locate_resp codec"
  sj_headers :: "headers_answer codec"
  sj_block :: "block_resp codec"
  sj_byhash :: "block_by_hash_resp codec"

text \<open>What all requests do with the answer: an error, a status other than 200, or a body to decode.\<close>

definition decode_answer :: "'a codec \<Rightarrow> (error + int \<times> bytes) \<Rightarrow> error + 'a" where
  "decode_answer J r =
     (case r of
        Inl e \<Rightarrow> Inl e
      | Inr (status, body) \<Rightarrow>
          if status \<noteq> 200 then Inl (Err ''bad status'')
          else (case jc_Unmarshal J body of (_, Some e) \<Rightarrow> Inl e | (out, None) \<Rightarrow> Inr out))"

definition http_get :: "'n network \<Rightarrow> 'a codec \<Rightarrow> string \<Rightarrow> 'n \<Rightarrow> (error + 'a) \<times> 'n" where
  "http_get W J url n = (case net_Get W url n of (r, n) \<Rightarrow> (decode_answer J r, n))"

definition itoaI :: "int \<Rightarrow> string" where
  "itoaI v = (if v \<le> 0 then ''0'' else itoaU (u64_of_int v))"

definition fetchChainInfo :: "'n network \<Rightarrow> sync_codecs \<Rightarrow> string \<Rightarrow> 'n \<Rightarrow> (error + chain_info) \<times> 'n" where
  "fetchChainInfo W J peer = http_get W (sj_info J) (peer @ ''/chain/info'')"

definition postLocate :: "'n network \<Rightarrow> sync_codecs \<Rightarrow> string \<Rightarrow> string list \<Rightarrow> 'n \<Rightarrow> (error + locate_resp) \<times> 'n" where
  "postLocate W J peer locator n =
     (case net_Post W (peer @ ''/chain/locate'') (marshal_or_nil (sj_locator J) locator) n of
        (r, n) \<Rightarrow> (decode_answer (sj_locate J) r, n))"

definition fetchHeaders :: "'n network \<Rightarrow> sync_codecs \<Rightarrow> string \<Rightarrow> u64 \<Rightarrow> int \<Rightarrow> 'n \<Rightarrow> (error + headers_answer) \<times> 'n" where
  "fetchHeaders W J peer from cnt =
     http_get W (sj_headers J) (peer @ ''/chain/headers?from='' @ itoaU from @ ''&count='' @ itoaI cnt)"

definition fetchBlockByHeight :: "'n network \<Rightarrow> sync_codecs \<Rightarrow> string \<Rightarrow> u64 \<Rightarrow> 'n \<Rightarrow> (error + block_resp) \<times> 'n" where
  "fetchBlockByHeight W J peer height = http_get W (sj_block J) (peer @ ''/chain/block?height='' @ itoaU height)"

definition fetchBlockByHash :: "'n network \<Rightarrow> sync_codecs \<Rightarrow> string \<Rightarrow> string \<Rightarrow> 'n \<Rightarrow> (error + block_by_hash_resp) \<times> 'n" where
  "fetchBlockByHash W J peer hashHex = http_get W (sj_byhash J) (peer @ ''/chain/block_by_hash?hash='' @ hashHex)"

section \<open>The steps of a round\<close>

text \<open>The choice of the peer: its name, its height and its tip.\<close>

fun best_peer ::
  "'n network \<Rightarrow> sync_codecs \<Rightarrow> string \<Rightarrow> string list \<Rightarrow> string \<times> u64 \<times> string \<Rightarrow> 'n \<Rightarrow> (string \<times> u64 \<times> string) \<times> 'n" where
  "best_peer W J chainID [] best n = (best, n)"
| "best_peer W J chainID (p # ps) best n =
     (case fetchChainInfo W J p n of
        (Inl e, n) \<Rightarrow> best_peer W J chainID ps best n
      | (Inr ci, n) \<Rightarrow>
          if ci_ChainID ci \<noteq> chainID then best_peer W J chainID ps best n
          else if ci_Height ci > fst (snd best) then best_peer W J chainID ps (p, ci_Height ci, ci_Tip ci) n
          else best_peer W J chainID ps best n)"

text \<open>The headers that meet their target, up to the first whose parent has no recorded work: their
  hashes (that header's included), and the work of the last one recorded.\<close>

fun score_headers ::
  "('d, 'f, 'p, 's) node \<Rightarrow> block_header list \<Rightarrow> string list \<Rightarrow> u64 \<Rightarrow> 'd \<Rightarrow> (string list \<times> u64 \<times> 'd) option" where
  "score_headers N [] hashSeq work d = Some (hashSeq, work, d)"
| "score_headers N (hdr # headers) hashSeq work d =
     (let h = Header_Hash hdr
      in if \<not> MeetsTarget h (bh_Bits hdr) then Some (hashSeq, work, d)
         else let hashHex = Hash_String h; hashSeq = hashSeq @ [hashHex]
              in do { (parentWork, okW, e) \<leftarrow> GetWork (np_L N) d (Hash_String (bh_PrevHash hdr));
                      if e \<noteq> None \<or> \<not> okW then Some (hashSeq, work, d)
                      else do { wAdd \<leftarrow> Work64 (bh_Bits hdr);
                                let cum = Cumulative parentWork wAdd;
                                    d = snd (PutHeader_any (np_L N) (nc_header (np_J N)) d hashHex hdr);
                                    d = snd (PutWork (np_L N) d hashHex cum)
                                in score_headers N headers hashSeq cum d } })"

text \<open>The blocks are fetched and submitted up to the first failure: which failure it was, if any.\<close>

datatype fetch_failure = FetchFailed error | SubmitFailed error

fun fetch_submit ::
  "('d, 'f, 'p, 's) node \<Rightarrow> 'n network \<Rightarrow> sync_codecs \<Rightarrow> int \<Rightarrow> 'f \<Rightarrow> string \<Rightarrow> string list \<Rightarrow> 'n \<times> 'd
     \<Rightarrow> (fetch_failure option \<times> 'n \<times> 'd) option" where
  "fetch_submit N W J now f peer [] (n, d) = Some (None, n, d)"
| "fetch_submit N W J now f peer (hh # hashSeq) (n, d) =
     (case fetchBlockByHash W J peer hh n of
        (Inl e, n) \<Rightarrow> Some (Some (FetchFailed e), n, d)
      | (Inr br, n) \<Rightarrow>
          do { (e, d) \<leftarrow> SubmitBlock N now f d \<lparr>b_Header = b_Header (bb_Block br), b_Txs = b_Txs (bb_Block br)\<rparr>;
               case e of
                 Some e \<Rightarrow> Some (Some (SubmitFailed e), n, d)
               | None \<Rightarrow> fetch_submit N W J now f peer hashSeq (n, d) })"

text \<open>The second path: the headers after the last common block of the two chains.\<close>

definition sync_located ::
  "('d, 'f, 'p, 's) node \<Rightarrow> 'n network \<Rightarrow> sync_codecs \<Rightarrow> (string \<Rightarrow> u64 \<Rightarrow> 'd \<Rightarrow> err \<times> 'd) \<Rightarrow> int \<Rightarrow> 'f
     \<Rightarrow> string \<Rightarrow> u64 \<Rightarrow> u64 \<Rightarrow> u64 \<Rightarrow> 'n \<times> 'd \<Rightarrow> (err \<times> 'n \<times> 'd) option" where
  "sync_located N W J reorg now f bestPeer bestHeight curWork finH s =
     (case s of (n, d) \<Rightarrow>
       (case BuildBlockLocator (np_L N) (np_J N) d 32 of
          (_, Some e) \<Rightarrow> Some (Some e, n, d)
        | (locator, None) \<Rightarrow>
            (case postLocate W J bestPeer locator n of
               (Inl e, n) \<Rightarrow> Some (None, n, d)
             | (Inr loc, n) \<Rightarrow>
                 if \<not> lr_Found loc then Some (None, n, d)
                 else if lr_Height loc < finH then Some (Some (Err ''ancestor below finalized''), n, d)
                 else
                   let count = int_of_u64 (bestHeight - lr_Height loc);
                       count = (if count > sy_MaxBlocksPerRound (cfg_Sync (np_cfg N)) then sy_MaxBlocksPerRound (cfg_Sync (np_cfg N)) else count)
                   in case fetchHeaders W J bestPeer (lr_Height loc + 1) count n of
                        (Inl e, n) \<Rightarrow> Some (Some e, n, d)
                      | (Inr hdrs, n) \<Rightarrow>
                          if ha_Headers hdrs = [] then Some (None, n, d)
                          else do { (hashSeq, work, d) \<leftarrow> score_headers N (ha_Headers hdrs) [] 0 d;
                                    if work \<le> curWork then Some (None, n, d)
                                    else do { (r, n, d) \<leftarrow> fetch_submit N W J now f bestPeer hashSeq (n, d);
                                              Some (case r of
                                                      None \<Rightarrow> (None, n, d)
                                                    | Some (FetchFailed e) \<Rightarrow> (Some e, n, d)
                                                    | Some (SubmitFailed e) \<Rightarrow>
                                                        (case reorg bestPeer bestHeight d of
                                                           (None, d) \<Rightarrow> (None, n, d)
                                                         | (Some _, d) \<Rightarrow> (Some e, n, d))) } })))"

text \<open>The agreement on the finalized block, or on the genesis block while nothing is finalized.\<close>

definition sync_anchored ::
  "('d, 'f, 'p, 's) node \<Rightarrow> 'n network \<Rightarrow> sync_codecs \<Rightarrow> (string \<Rightarrow> u64 \<Rightarrow> 'd \<Rightarrow> err \<times> 'd) \<Rightarrow> int \<Rightarrow> 'f
     \<Rightarrow> string \<Rightarrow> u64 \<Rightarrow> u64 \<Rightarrow> 'n \<times> 'd \<Rightarrow> (err \<times> 'n \<times> 'd) option" where
  "sync_anchored N W J reorg now f bestPeer bestHeight curWork s =
     (case s of (n, d) \<Rightarrow>
       let compare = (\<lambda>finH finHash.
             (case fetchBlockByHeight W J bestPeer finH n of
                (Inl e, n) \<Rightarrow> Some (Some e, n, d)
              | (Inr pb, n) \<Rightarrow>
                  if br_Hash pb \<noteq> finHash then Some (Some (Err ''peer finalized anchor mismatch''), n, d)
                  else sync_located N W J reorg now f bestPeer bestHeight curWork finH (n, d)))
       in case GetFinalized (np_L N) (nc_u64 (np_J N)) d of
            (_, _, _, Some e) \<Rightarrow> Some (Some e, n, d)
          | (finH, finHash, okFin, None) \<Rightarrow>
              if okFin then compare finH finHash
              else (case GetBlockByHeight (np_L N) (nc_block (np_J N)) d 0 of
                      (_, okb, ghash, _) \<Rightarrow>
                        if \<not> okb then Some (Some (Err ''missing genesis''), n, d) else compare 0 ghash))"

section \<open>The round\<close>

text \<open>The first path; \<open>None\<close> in the first component: it did not lead to more work.\<close>

definition sync_fast ::
  "('d, 'f, 'p, 's) node \<Rightarrow> 'n network \<Rightarrow> sync_codecs \<Rightarrow> int \<Rightarrow> 'f \<Rightarrow> string \<Rightarrow> u64 \<Rightarrow> u64 \<Rightarrow> u64 \<Rightarrow> 'n \<times> 'd
     \<Rightarrow> (bool \<times> 'n \<times> 'd) option" where
  "sync_fast N W J now f bestPeer bestHeight localH curWork s =
     (case s of (n, d) \<Rightarrow>
       let need = int_of_u64 (bestHeight - localH);
           need = (if need > sy_MaxBlocksPerRound (cfg_Sync (np_cfg N)) then sy_MaxBlocksPerRound (cfg_Sync (np_cfg N)) else need)
       in case fetchHeaders W J bestPeer (localH + 1) need n of
            (Inl e, n) \<Rightarrow> Some (False, n, d)
          | (Inr hdrs, n) \<Rightarrow>
              if ha_Headers hdrs = [] then Some (False, n, d)
              else do { (hashSeq, work, d) \<leftarrow> score_headers N (ha_Headers hdrs) [] 0 d;
                        if work > curWork \<and> hashSeq \<noteq> []
                        then do { (_, n, d) \<leftarrow> fetch_submit N W J now f bestPeer hashSeq (n, d); Some (True, n, d) }
                        else Some (False, n, d) })"

definition syncOnce ::
  "('d, 'f, 'p, 's) node \<Rightarrow> 'n network \<Rightarrow> sync_codecs \<Rightarrow> (string \<Rightarrow> u64 \<Rightarrow> 'd \<Rightarrow> err \<times> 'd) \<Rightarrow> int \<Rightarrow> 'f
     \<Rightarrow> 'n \<times> 'd \<Rightarrow> (err \<times> 'n \<times> 'd) option" where
  "syncOnce N W J reorg now f s =
     (case s of (n, d) \<Rightarrow>
       (case best_peer W J (g_ChainID (np_genesis N)) (sy_Peers (cfg_Sync (np_cfg N))) ([], 0, []) n of
          ((bestPeer, bestHeight, bestTipHash), n) \<Rightarrow>
            if bestPeer = [] then Some (None, n, d)
            else (case GetTip (np_L N) (nc_u64 (np_J N)) d of
                    (localH, _, ok, e) \<Rightarrow>
                      if e \<noteq> None \<or> \<not> ok then Some (e, n, d)
                      else if bestHeight \<le> localH then Some (None, n, d)
                      else do { (w, okTW, _) \<leftarrow> GetTipWork (np_L N) d;
                                let curWork = (if \<not> okTW then 0 else w)
                                in do { (finished, n, d) \<leftarrow> sync_fast N W J now f bestPeer bestHeight localH curWork (n, d);
                                        if finished then Some (None, n, d)
                                        else if bestTipHash = [] then Some (None, n, d)
                                        else sync_anchored N W J reorg now f bestPeer bestHeight curWork (n, d) } })))"

section \<open>The round follows a heavier branch\<close>

text \<open>A list of blocks on top of one another, the first on \<open>tip\<close> at height \<open>n\<close>, each meeting its own
  target; the work of the branch; the last block of a prefix.\<close>

fun on_top :: "string \<Rightarrow> u64 \<Rightarrow> block list \<Rightarrow> bool" where
  "on_top tip n [] \<longleftrightarrow> True"
| "on_top tip n (b # bs) \<longleftrightarrow> block_parent b = tip \<and> bh_Height (b_Header b) = n + 1 \<and> n + 1 \<noteq> 0 \<and>
     MeetsTarget (Header_Hash (b_Header b)) (bh_Bits (b_Header b)) \<and> on_top (block_id b) (n + 1) bs"

definition add_work :: "u64 \<Rightarrow> block \<Rightarrow> u64" where
  "add_work w b = Cumulative w (the (Work64 (bh_Bits (b_Header b))))"

definition top_of :: "string \<Rightarrow> block list \<Rightarrow> string" where
  "top_of tip bs = (if bs = [] then tip else block_id (last bs))"

definition scored_key :: "string set \<Rightarrow> bytes \<Rightarrow> bool" where
  "scored_key H k \<longleftrightarrow> (\<exists>h \<in> H. k = keyWork h \<or> k = keyHeaderByHash h)"

lemma scored_key_simps [simp]:
  "\<not> scored_key H keyTipWork" "\<not> scored_key H keyTipHeight" "\<not> scored_key H keyTipBlockID"
  "scored_key H (keyWork x) \<longleftrightarrow> x \<in> H" "acct_key k \<Longrightarrow> \<not> scored_key H k"
  by (auto simp: scored_key_def key_defs acct_key_def)

text \<open>One header scored.\<close>

lemma score_step:
  assumes "ldb_laws (np_L N) V" "MeetsTarget (Header_Hash hdr) (bh_Bits hdr)"
    "V d (keyWork (Hash_String (bh_PrevHash hdr))) = Some (PutUint64 w)"
  shows "\<exists>d1. score_headers N (hdr # hs) ids w0 d =
      score_headers N hs (ids @ [Hash_String (Header_Hash hdr)]) (Cumulative w (the (Work64 (bh_Bits hdr)))) d1 \<and>
    changes (scored_key {Hash_String (Header_Hash hdr)}) V d d1 \<and>
    V d1 (keyWork (Hash_String (Header_Hash hdr))) = Some (PutUint64 (Cumulative w (the (Work64 (bh_Bits hdr)))))"
proof -
  define h where "h = Hash_String (Header_Hash hdr)"
  obtain wk where wk: "Work64 (bh_Bits hdr) = Some wk" using Work64_total by blast
  have g: "GetWork (np_L N) d (Hash_String (bh_PrevHash hdr)) = Some (w, True, None)"
    by (simp add: GetWork_def get_u64_def db_lookup_eq [OF assms(1)] assms(3))
  define d0 where "d0 = snd (PutHeader_any (np_L N) (nc_header (np_J N)) d h hdr)"
  have d0: "V d0 k = V d k" if "k \<noteq> keyHeaderByHash h" for k
    using that by (auto simp: d0_def PutHeader_any_def put_json_def ldb_Put_view [OF assms(1)] split: sum.split)
  have v: "V (snd (PutWork (np_L N) d0 h c)) = (V d0)(keyWork h \<mapsto> PutUint64 c)" for c
    by (simp add: PutWork_def put_u64_def ldb_Put_view [OF assms(1)])
  have "score_headers N (hdr # hs) ids w0 d = score_headers N hs (ids @ [h]) (Cumulative w wk) (snd (PutWork (np_L N) d0 h (Cumulative w wk)))"
    using assms(2) g wk by (simp add: Let_def h_def d0_def)
  moreover have "changes (scored_key {h}) V d (snd (PutWork (np_L N) d0 h (Cumulative w wk)))"
    using d0 by (auto simp: changes_def v scored_key_def)
  ultimately show ?thesis using wk v unfolding h_def by auto
qed

lemma score_branch:
  assumes "ldb_laws (np_L N) V"
  shows "\<lbrakk>on_top tip n bs; V d (keyWork tip) = Some (PutUint64 w)\<rbrakk> \<Longrightarrow>
    \<exists>d'. score_headers N (map b_Header bs) ids w0 d =
        Some (ids @ map block_id bs, if bs = [] then w0 else foldl add_work w bs, d') \<and>
      changes (scored_key (block_id ` set bs)) V d d'"
proof (induction bs arbitrary: tip n d w ids w0)
  case Nil
  then show ?case by auto
next
  case (Cons b bs)
  from Cons.prems have "V d (keyWork (Hash_String (bh_PrevHash (b_Header b)))) = Some (PutUint64 w)"
    "MeetsTarget (Header_Hash (b_Header b)) (bh_Bits (b_Header b))" by (simp_all add: block_parent_def)
  from score_step [OF assms this(2,1), of "map b_Header bs" ids w0] obtain d1 where
    d1: "score_headers N (map b_Header (b # bs)) ids w0 d = score_headers N (map b_Header bs) (ids @ [block_id b]) (add_work w b) d1"
      "changes (scored_key {block_id b}) V d d1" "V d1 (keyWork (block_id b)) = Some (PutUint64 (add_work w b))"
    by (auto simp: block_id_def add_work_def)
  from Cons.prems have "on_top (block_id b) (n + 1) bs" by simp
  from Cons.IH [OF this d1(3), of "ids @ [block_id b]" "add_work w b"] obtain d' where
    d': "score_headers N (map b_Header bs) (ids @ [block_id b]) (add_work w b) d1 =
        Some ((ids @ [block_id b]) @ map block_id bs, if bs = [] then add_work w b else foldl add_work (add_work w b) bs, d')"
      "changes (scored_key (block_id ` set bs)) V d1 d'" by blast
  have "changes (scored_key (block_id ` set (b # bs))) V d d'"
    by (rule changes_trans [OF changes_mono [OF d1(2)] changes_mono [OF d'(2)]]) (auto simp: scored_key_def)
  with d1(1) d'(1) show ?case by auto
qed

lemma scored_kept:
  assumes "ldb_laws (np_L N) V" "changes (scored_key H) V d d'" "tip_state N V d n tip w" "tip \<notin> H"
  shows "tip_state N V d' n tip w"
proof -
  note v = changesD [OF assms(2)]
  have "GetTip (np_L N) (nc_u64 (np_J N)) d' = GetTip (np_L N) (nc_u64 (np_J N)) d"
    by (rule GetTip_cong [OF assms(1)]) (simp_all add: v)
  with assms(3,4) v show ?thesis by (simp add: tip_state_def)
qed

text \<open>The store stays typed: the work records that scoring writes have eight bytes.\<close>

lemma PutWork_typed:
  assumes "ldb_laws L V" "typed_store (V d)"
  shows "typed_store (V (snd (PutWork L d h c)))"
proof -
  let ?d = "snd (PutWork L d h c)"
  have v: "V ?d = (V d)(keyWork h \<mapsto> PutUint64 c)" by (simp add: PutWork_def put_u64_def ldb_Put_view [OF assms(1)])
  then have "changes (scored_key {h}) V d ?d" by (auto simp: changes_def scored_key_def)
  then have "acct_wf (V ?d) = acct_wf (V d)" by (rule acct_wf_changes) simp
  with assms(2) v show ?thesis by (auto simp: typed_store_def)
qed

lemma PutHeader_any_typed:
  assumes "ldb_laws L V" "typed_store (V d)"
  shows "typed_store (V (snd (PutHeader_any L J d h hdr)))"
proof -
  let ?d = "snd (PutHeader_any L J d h hdr)"
  have c: "changes (\<lambda>k. k = keyHeaderByHash h) V d ?d"
    by (auto simp: changes_def PutHeader_any_def put_json_def ldb_Put_view [OF assms(1)] split: sum.split)
  then have "changes (scored_key {h}) V d ?d" by (rule changes_mono) (simp add: scored_key_def)
  then have "acct_wf (V ?d) = acct_wf (V d)" by (rule acct_wf_changes) simp
  with assms(2) changesD [OF c] show ?thesis by (simp add: typed_store_def key_defs)
qed

lemma score_typed:
  assumes "ldb_laws (np_L N) V"
  shows "\<lbrakk>typed_store (V d); score_headers N hs ids w0 d = Some (ids', w', d')\<rbrakk> \<Longrightarrow> typed_store (V d')"
proof (induction hs arbitrary: ids w0 d)
  case (Cons hdr hs)
  have t: "typed_store (V (snd (PutWork (np_L N) (snd (PutHeader_any (np_L N) (nc_header (np_J N)) d h hdr)) h c)))" for h c
    by (rule PutWork_typed [OF assms PutHeader_any_typed [OF assms Cons.prems(1)]])
  let ?h = "Hash_String (Header_Hash hdr)"
  show ?case
  proof (cases "MeetsTarget (Header_Hash hdr) (bh_Bits hdr)")
    case True
    obtain p ok e where g: "GetWork (np_L N) d (Hash_String (bh_PrevHash hdr)) = Some (p, ok, e)"
      using Cons.prems(2) True by (auto simp: Let_def split: bind_splits)
    obtain wk where wk: "Work64 (bh_Bits hdr) = Some wk" using Work64_total by blast
    show ?thesis
    proof (cases "e \<noteq> None \<or> \<not> ok")
      case False
      with Cons.prems(2) True g wk Cons.IH [OF t, of "ids @ [?h]" "Cumulative p wk" ?h "Cumulative p wk"] show ?thesis
        by (simp add: Let_def)
    qed (use Cons.prems True g in \<open>simp add: Let_def\<close>)
  qed (use Cons.prems in \<open>simp add: Let_def\<close>)
qed simp

text \<open>A block on top of the tip: the call returns, and it moves the tip or leaves it.\<close>

lemma submit_on_tip:
  assumes "ldb_laws (np_L N) V" "typed_store (V d)" "tip_state N V d n tip w" "block_parent b = tip"
    "bh_Height (b_Header b) = n + 1" "n + 1 \<noteq> 0" "tip \<noteq> block_id b" "codec_ok (nc_u64 (np_J N)) (n + 1)"
    "fn_finalityEnabled (np_fin N) \<Longrightarrow> fn_checkpointInterval (np_fin N) \<noteq> 0 \<and> can_sign (np_fin N)"
  shows "\<exists>e d'. SubmitBlock N now f d b = Some (e, d') \<and> typed_store (V d') \<and>
    (if e = None then tip_state N V d' (n + 1) (block_id b) (add_work w b) else tip_state N V d' n tip w)"
proof -
  let ?h = "block_id b" and ?cum = "cum_work (V d) b"
  have cum: "?cum = add_work w b" using assms(3,4) by (simp add: cum_work_def add_work_def tip_state_def flip: block_parent_def)
  have codec: "codec_ok (nc_u64 (np_J N)) (bh_Height (b_Header b))" using assms(5,8) by simp
  define good where "good e d' \<longleftrightarrow> typed_store (V d') \<and>
      (if e = None then tip_state N V d' (n + 1) ?h (add_work w b) else tip_state N V d' n tip w)" for e :: err and d'
  have old: "good (Some x) d" for x using assms(2,3) by (simp add: good_def)
  have acc: "\<exists>e d'. accept_block N now f d b ?h (block_parent b) = Some (e, d') \<and> good e d'"
    if basic: "ValidateBlockBasic (np_env N) b = None"
  proof (cases "jc_Marshal (nc_block (np_J N)) b")
    case (Inl x)
    with old show ?thesis by (simp add: accept_block_def PutBlock_def Let_def)
  next
    case (Inr bs)
    let ?d = "stored_block N d b ?h ?cum"
    obtain e d' where r: "extend_tip N now ?d b ?h ?cum = Some (e, d')" "typed_store (V d')"
      using extend_tip_typed [OF assms(1) codec typed_store_stored [OF assms(1) Inr assms(2)] basic assms(9)] by blast
    have "tip_state N V d' (n + 1) ?h (add_work w b)" if "e = None"
      using tip_state_extended [OF assms(1) codec Inr] r(1) that assms(5) cum by simp
    moreover have "tip_state N V d' n tip w" if "e \<noteq> None"
      using extend_tip_effect(1) [OF assms(1) codec r(1) that] tip_state_stored [OF assms(1) Inr assms(3,7)] by simp
    moreover have "accept_block N now f d b ?h (block_parent b) = Some (e, d')"
      using accept_block_eq [OF assms(1,2) Inr, of now f ?h, folded block_parent_def] r(1) assms(3,4,5) by (simp add: tip_state_def)
    ultimately show ?thesis using r(2) by (auto simp: good_def)
  qed
  obtain v where "ValidateBlockStateOnMainParent (np_L N) (np_J N) (np_F N) (np_env N) f d b = Some v"
    using ValidateBlockStateOnMainParent_returns [of "np_L N" "np_J N" "np_F N" "np_env N" f d b] by blast
  with acc old assms(5,6) have "\<exists>e d'. SubmitBlock N now f d b = Some (e, d') \<and> good e d'"
    by (auto simp: SubmitBlock_def Let_def block_id_def block_parent_def split: option.split)
  then show ?thesis by (simp add: good_def)
qed

text \<open>A peer that serves the blocks of a branch: they are submitted in order up to the first one refused.\<close>

definition serves :: "'n network \<Rightarrow> sync_codecs \<Rightarrow> string \<Rightarrow> block list \<Rightarrow> bool" where
  "serves W J p bs \<longleftrightarrow> (\<forall>b \<in> set bs. \<forall>n. \<exists>br n'. fetchBlockByHash W J p (block_id b) n = (Inr br, n') \<and> bb_Block br = b)"

lemma block_eta: "\<lparr>b_Header = b_Header b, b_Txs = b_Txs b\<rparr> = (b :: block)"
  by simp

lemma fetch_submit_branch:
  assumes "ldb_laws (np_L N) V" "fn_finalityEnabled (np_fin N) \<Longrightarrow> fn_checkpointInterval (np_fin N) \<noteq> 0 \<and> can_sign (np_fin N)"
  shows "\<lbrakk>\<forall>b \<in> set bs. codec_ok (nc_u64 (np_J N)) (bh_Height (b_Header b)); serves W J p bs; on_top tip n bs; distinct (tip # map block_id bs); typed_store (V d); tip_state N V d n tip w\<rbrakk> \<Longrightarrow>
    \<exists>r s' d' k. fetch_submit N W J now f p (map block_id bs) (s, d) = Some (r, s', d') \<and> typed_store (V d') \<and> k \<le> length bs \<and>
      tip_state N V d' (n + of_nat k) (top_of tip (take k bs)) (foldl add_work w (take k bs)) \<and>
      (k < length bs \<longrightarrow> (\<exists>e d0. SubmitBlock N now f d0 (bs ! k) = Some (Some e, d') \<and>
         tip_state N V d0 (n + of_nat k) (top_of tip (take k bs)) (foldl add_work w (take k bs))))"
proof (induction bs arbitrary: tip n d w s)
  case Nil
  then show ?case by (auto simp: top_of_def)
next
  case (Cons b bs)
  from Cons.prems(2) obtain br s1 where f: "fetchBlockByHash W J p (block_id b) s = (Inr br, s1)" "bb_Block br = b"
    unfolding serves_def by (meson list.set_intros(1))
  from Cons.prems have "block_parent b = tip" "bh_Height (b_Header b) = n + 1" "n + 1 \<noteq> 0" "tip \<noteq> block_id b"
    "codec_ok (nc_u64 (np_J N)) (n + 1)" by auto
  from submit_on_tip [OF assms(1) Cons.prems(5,6) this assms(2), of now f] obtain e d1 where
    s: "SubmitBlock N now f d b = Some (e, d1)" "typed_store (V d1)"
      "if e = None then tip_state N V d1 (n + 1) (block_id b) (add_work w b) else tip_state N V d1 n tip w" by blast
  show ?case
  proof (cases e)
    case (Some x)
    with f s(1) have "fetch_submit N W J now f p (map block_id (b # bs)) (s, d) = Some (Some (SubmitFailed x), s1, d1)"
      by (simp add: block_eta)
    with Some s Cons.prems(6) show ?thesis
      by (intro exI [of _ "Some (SubmitFailed x)"] exI [of _ s1] exI [of _ d1] exI [of _ 0]) (auto simp: top_of_def)
  next
    case None
    from Cons.prems have "\<forall>b \<in> set bs. codec_ok (nc_u64 (np_J N)) (bh_Height (b_Header b))" "serves W J p bs" "on_top (block_id b) (n + 1) bs" "distinct (block_id b # map block_id bs)"
      by (auto simp: serves_def)
    note IH = Cons.IH [OF this s(2)]
    have "tip_state N V d1 (n + 1) (block_id b) (add_work w b)" using s(3) None by simp
    from IH [OF this, of s1] obtain r s' d' k where
      r: "fetch_submit N W J now f p (map block_id bs) (s1, d1) = Some (r, s', d')" "typed_store (V d')" "k \<le> length bs"
        "tip_state N V d' (n + 1 + of_nat k) (top_of (block_id b) (take k bs)) (foldl add_work (add_work w b) (take k bs))"
        "k < length bs \<longrightarrow> (\<exists>e d0. SubmitBlock N now f d0 (bs ! k) = Some (Some e, d') \<and>
          tip_state N V d0 (n + 1 + of_nat k) (top_of (block_id b) (take k bs)) (foldl add_work (add_work w b) (take k bs)))" by blast
    have "top_of tip (take (Suc k) (b # bs)) = top_of (block_id b) (take k bs)" by (simp add: top_of_def)
    moreover have "fetch_submit N W J now f p (map block_id (b # bs)) (s, d) = Some (r, s', d')"
      using f s(1) None r(1) by (simp add: block_eta)
    ultimately show ?thesis using r(2-5)
      by (intro exI [of _ r] exI [of _ s'] exI [of _ d'] exI [of _ "Suc k"]) (simp add: add.assoc)
  qed
qed

text \<open>
  The round follows a branch on top of the tip: when the chosen peer announces its headers, they
  carry more work than the tip, and the peer serves their blocks, then the round returns without an
  error and the tip has moved along the branch up to the first block that the node refuses, with its work.
\<close>

lemma syncOnce_catches_up:
  assumes "ldb_laws (np_L N) V" "typed_store (V d)" "tip_state N V d n tip w"
    "fn_finalityEnabled (np_fin N) \<Longrightarrow> fn_checkpointInterval (np_fin N) \<noteq> 0 \<and> can_sign (np_fin N)"
    "best_peer W J (g_ChainID (np_genesis N)) (sy_Peers (cfg_Sync (np_cfg N))) ([], 0, []) s = ((p, h, t), s1)" "p \<noteq> []" "n < h"
    "fetchHeaders W J p (n + 1) (min (int_of_u64 (h - n)) (sy_MaxBlocksPerRound (cfg_Sync (np_cfg N)))) s1 = (Inr ans, s2)"
    "ha_Headers ans = map b_Header bs" "bs \<noteq> []" "on_top tip n bs" "distinct (tip # map block_id bs)" "serves W J p bs"
    "w < foldl add_work w bs" "\<forall>b \<in> set bs. codec_ok (nc_u64 (np_J N)) (bh_Height (b_Header b))"
  shows "\<exists>s' d' k. syncOnce N W J reorg now f (s, d) = Some (None, s', d') \<and> typed_store (V d') \<and> k \<le> length bs \<and>
    tip_state N V d' (n + of_nat k) (top_of tip (take k bs)) (foldl add_work w (take k bs)) \<and>
    (k < length bs \<longrightarrow> (\<exists>e d0. SubmitBlock N now f d0 (bs ! k) = Some (Some e, d') \<and>
       tip_state N V d0 (n + of_nat k) (top_of tip (take k bs)) (foldl add_work w (take k bs))))"
proof -
  have v: "V d (keyWork tip) = Some (PutUint64 w)" "GetTip (np_L N) (nc_u64 (np_J N)) d = (n, tip, True, None)"
    "GetTipWork (np_L N) d = Some (w, True, None)"
    using assms(3) by (simp_all add: tip_state_def GetTipWork_def get_u64_def db_lookup_eq [OF assms(1)])
  from score_branch [OF assms(1,11) v(1), of "[]" 0] assms(10) obtain d1 where
    d1: "score_headers N (map b_Header bs) [] 0 d = Some (map block_id bs, foldl add_work w bs, d1)"
      "changes (scored_key (block_id ` set bs)) V d d1" by auto
  have ts: "tip_state N V d1 n tip w" by (rule scored_kept [OF assms(1) d1(2) assms(3)]) (use assms(12) in auto)
  from fetch_submit_branch [OF assms(1,4,15,13,11,12) score_typed [OF assms(1,2) d1(1)] ts, of now f s2] obtain r s' d' k where
    r: "fetch_submit N W J now f p (map block_id bs) (s2, d1) = Some (r, s', d')" "typed_store (V d')" "k \<le> length bs"
      "tip_state N V d' (n + of_nat k) (top_of tip (take k bs)) (foldl add_work w (take k bs))"
      "k < length bs \<longrightarrow> (\<exists>e d0. SubmitBlock N now f d0 (bs ! k) = Some (Some e, d') \<and>
         tip_state N V d0 (n + of_nat k) (top_of tip (take k bs)) (foldl add_work w (take k bs)))" by blast
  have "sync_fast N W J now f p h n w (s1, d) = Some (True, s', d')"
    using assms(8,9,10,14) d1(1) r(1) by (simp add: sync_fast_def Let_def min_def not_less split: if_splits)
  then have "syncOnce N W J reorg now f (s, d) = Some (None, s', d')"
    using assms(5-7) v(2,3) by (auto simp: syncOnce_def)
  with r(2-5) show ?thesis by blast
qed

section \<open>One peer decides the round\<close>

text \<open>The peer that claims more than all others is chosen, whatever is listed before and after it.\<close>

lemma best_peer_claim:
  assumes "\<And>n. \<exists>n'. fetchChainInfo W J p n = (Inr ci, n')" "ci_ChainID ci = chainID"
    "\<And>q n ci' n'. \<lbrakk>q \<in> set ps; q \<noteq> p; fetchChainInfo W J q n = (Inr ci', n'); ci_ChainID ci' = chainID\<rbrakk> \<Longrightarrow> ci_Height ci' < ci_Height ci"
    "p \<in> set ps \<and> fst (snd best) < ci_Height ci \<or> best = (p, ci_Height ci, ci_Tip ci)"
  shows "\<exists>n'. best_peer W J chainID ps best n = ((p, ci_Height ci, ci_Tip ci), n')"
  using assms(3,4)
proof (induction ps arbitrary: best n)
  case (Cons q ps)
  show ?case
  proof (cases "q = p")
    case True
    obtain n' where "fetchChainInfo W J p n = (Inr ci, n')" using assms(1) by blast
    with True assms(2) Cons show ?thesis by auto
  next
    case False
    obtain r n' where r: "fetchChainInfo W J q n = (r, n')" by fastforce
    have "\<exists>m. best_peer W J chainID ps best' n' = ((p, ci_Height ci, ci_Tip ci), m)"
      if "p \<in> set ps \<and> fst (snd best') < ci_Height ci \<or> best' = (p, ci_Height ci, ci_Tip ci)" for best'
      using Cons.IH [of best' n'] Cons.prems(1) that by (meson list.set_intros(2))
    moreover have "p \<in> set ps \<and> fst (snd best) < ci_Height ci \<or> best = (p, ci_Height ci, ci_Tip ci)"
      using Cons.prems(2) False by auto
    moreover have "ci_Height c < ci_Height ci" if "r = Inr c" "ci_ChainID c = chainID" for c
      using Cons.prems(1) [of q n c n'] r that False by simp
    ultimately show ?thesis using r by (auto simp: not_less split: sum.split dest: order.strict_trans2)
  qed
qed simp

text \<open>
  C16. The greatest claim decides the round, checked or not: when one peer claims the node's chain and a
  height above what every other peer of that chain claims, names no tip and offers no headers, then the round
  ends without an error, with the store as it was, whatever blocks the other peers have. The claim
  is the number in the peer's answer; nothing compares it with the work the peer reports.
\<close>
theorem syncOnce_captured:
  assumes "ldb_laws (np_L N) V" "typed_store (V d)" "GetTip (np_L N) (nc_u64 (np_J N)) d = (localH, tip, True, None)"
    "p \<in> set (sy_Peers (cfg_Sync (np_cfg N)))" "\<And>n. \<exists>n'. fetchChainInfo W J p n = (Inr ci, n')"
    "ci_ChainID ci = g_ChainID (np_genesis N)" "0 < ci_Height ci" "ci_Tip ci = []"
    "\<And>q n ci' n'. \<lbrakk>q \<in> set (sy_Peers (cfg_Sync (np_cfg N))); q \<noteq> p; fetchChainInfo W J q n = (Inr ci', n');
        ci_ChainID ci' = g_ChainID (np_genesis N)\<rbrakk> \<Longrightarrow> ci_Height ci' < ci_Height ci"
    "\<And>a c n h n'. fetchHeaders W J p a c n = (Inr h, n') \<Longrightarrow> ha_Headers h = []"
  shows "\<exists>n'. syncOnce N W J reorg now f (n, d) = Some (None, n', d)"
proof -
  have "\<exists>n1. best_peer W J (g_ChainID (np_genesis N)) (sy_Peers (cfg_Sync (np_cfg N))) ([], 0, []) n = ((p, ci_Height ci, ci_Tip ci), n1)"
    by (rule best_peer_claim [OF assms(5,6)]) (use assms(4,7,9) in auto)
  then obtain n1 where b: "best_peer W J (g_ChainID (np_genesis N)) (sy_Peers (cfg_Sync (np_cfg N))) ([], 0, []) n =
      ((p, ci_Height ci, []), n1)" using assms(8) by auto
  obtain w ok where g: "GetTipWork (np_L N) d = Some (w, ok, None)"
    using get_u64_typed [OF assms(1), of d keyTipWork] assms(2) by (auto simp: GetTipWork_def typed_store_def)
  have "\<exists>n'. sync_fast N W J now f p (ci_Height ci) localH (if \<not> ok then 0 else w) (n1, d) = Some (False, n', d)"
    using assms(10) by (auto simp: sync_fast_def Let_def split: prod.split sum.split)
  then obtain n2 where "sync_fast N W J now f p (ci_Height ci) localH (if \<not> ok then 0 else w) (n1, d) = Some (False, n2, d)" by blast
  with b g assms(3) show ?thesis by (simp add: syncOnce_def Let_def)
qed

text \<open>Two peers: one announces a block on top of the tip, the other only a greater height.\<close>

definition sample_network :: "unit network" where
  "sample_network = \<lparr>net_Get = (\<lambda>url n. (if url = ''a/chain/info'' then Inr (200, ''A'')
       else if url = ''b/chain/info'' then Inr (200, ''B'') else Inl (Err ''timeout''), n)),
     net_Post = (\<lambda>url body n. (Inl (Err ''timeout''), n))\<rparr>"

definition sample_sync_codecs :: sync_codecs where
  "sample_sync_codecs = \<lparr>sj_info = table_codec \<lparr>ci_ChainID = [], ci_Height = 0, ci_Tip = [], ci_TipWork = 0\<rparr>
       [(''A'', \<lparr>ci_ChainID = ''reserve-test'', ci_Height = 2, ci_Tip = ''h2'', ci_TipWork = 11\<rparr>),
        (''B'', \<lparr>ci_ChainID = ''reserve-test'', ci_Height = 9, ci_Tip = [], ci_TipWork = 0\<rparr>)],
     sj_locator = table_codec [] [], sj_locate = table_codec \<lparr>lr_Found = False, lr_Hash = [], lr_Height = 0\<rparr> [],
     sj_headers = table_codec \<lparr>ha_From = 0, ha_Count = 0, ha_Headers = []\<rparr> [],
     sj_block = table_codec \<lparr>br_Height = 0, br_Hash = [], br_Block = zero_block\<rparr> [],
     sj_byhash = table_codec \<lparr>bb_Hash = [], bb_Block = zero_block\<rparr> []\<rparr>"

definition sample_sync_node :: "((bytes \<times> bytes) list, unit, unit, unit) node" where
  "sample_sync_node = sample_node\<lparr>np_fin := (np_fin sample_node)\<lparr>fn_env := sample_env\<lparr>ne_cfg :=
     sample_config\<lparr>cfg_Sync := \<lparr>sy_Enabled = True, sy_Peers = [''a'', ''b''], sy_IntervalSeconds = 3, sy_MaxBlocksPerRound = 50\<rparr>\<rparr>\<rparr>\<rparr>\<rparr>"

theorem syncOnce_captured_witness:
  "\<exists>n'. syncOnce sample_sync_node sample_network sample_sync_codecs (\<lambda>p h d. (None, d)) 0 ()
     ((), sample_tip_store ''1'' ''h1'' 9) = Some (None, n', sample_tip_store ''1'' ''h1'' 9)"
proof -
  let ?d = "sample_tip_store ''1'' ''h1'' 9"
  have L: "np_L sample_sync_node = alist_db" "np_J sample_sync_node = sample_chain_codecs"
    "g_ChainID (np_genesis sample_sync_node) = ''reserve-test''" "sy_Peers (cfg_Sync (np_cfg sample_sync_node)) = [''a'', ''b'']"
    by (simp_all add: sample_sync_node_def sample_node_def sample_env_def sample_genesis_def)
  have "tip_state sample_node map_of ?d 1 ''h1'' 9" by (rule sample_tip_state) simp
  then have tip: "GetTip alist_db (nc_u64 sample_chain_codecs) ?d = (1, ''h1'', True, None)" by (simp add: tip_state_def)
  note net = fetchChainInfo_def fetchHeaders_def http_get_def decode_answer_def sample_network_def sample_sync_codecs_def table_codec_def
  have info: "fetchChainInfo sample_network sample_sync_codecs ''b'' n =
      (Inr \<lparr>ci_ChainID = ''reserve-test'', ci_Height = 9, ci_Tip = [], ci_TipWork = 0\<rparr>, n)"
    "fetchChainInfo sample_network sample_sync_codecs ''a'' n =
      (Inr \<lparr>ci_ChainID = ''reserve-test'', ci_Height = 2, ci_Tip = ''h2'', ci_TipWork = 11\<rparr>, n)" for n
    by (simp_all add: net)
  have hdr: "fetchHeaders sample_network sample_sync_codecs ''b'' a c n = (Inl (Err ''timeout''), n)" for a c n
    by (simp add: net)
  show ?thesis
    by (rule syncOnce_captured [where V = map_of and p = "''b''" and localH = 1 and tip = "''h1''" and
          ci = "\<lparr>ci_ChainID = ''reserve-test'', ci_Height = 9, ci_Tip = [], ci_TipWork = 0\<rparr>"])
      (auto simp: L tip info hdr alist_db_laws sample_store_typed)
qed

end
