(* ===== verification/Spec2Isabelle.thy ===== *)
theory Spec2Isabelle
  imports Genesis Fees Sha256_Vectors Crypto Config Participation Mining ReorgProps Otap Vault Slots SyncRound
begin

text \<open>
  Verification of ReserveOS, a proof-of-work chain with finality votes, written in Go.

  \<^bold>\<open>The program.\<close> A node (\<^verbatim>\<open>core/node\<close>) keeps blocks, headers, accounts and
  votes in a LevelDB database (\<^verbatim>\<open>internal/reservestorage\<close>, \<^verbatim>\<open>core/state\<close>). A submitted
  block is validated against the rules and the accounts, stored with the work of its chain, and
  extends the tip or competes with it; the heavier branch wins if it leads to the finalized block. Every few
  blocks the validators sign a checkpoint, and enough weight finalizes it (\<^verbatim>\<open>core/consensus\<close>). Transactions wait
  in a mempool from which blocks are mined. Fees go to pools, one of which is paid out by participation
  (\<^verbatim>\<open>core/economics\<close>). Missing blocks come from peers, over HTTP or over a queue of requests. Payments may go to
  one-time addresses (\<^verbatim>\<open>core/crypto/otap\<close>); keys lie in an encrypted vault; a storage daemon
  hands out the indices from which wallets derive addresses.

  \<^bold>\<open>Conventions.\<close> A Go string or byte slice is a \<open>string\<close>; \<^verbatim>\<open>uint32\<close> and
  \<^verbatim>\<open>uint64\<close> are words; \<^verbatim>\<open>int\<close> and \<^verbatim>\<open>int64\<close> are integers wrapped by \<open>i64\<close>; a
  \<^verbatim>\<open>float64\<close> is a rational rounded by \<open>f64\<close>. An error is a value of \<open>error option\<close>, and \<open>None\<close> in
  an outer \<open>option\<close> is a panic or an endless loop. The definitions carry the names of the source where
  these are free. The clock, random bytes, the order of map iterations and the result of an unstable sort are arguments.
  The database is a record \<open>leveldb\<close> of operations with the laws \<open>ldb_laws L V\<close>, where \<open>V\<close> is the map that
  a database stands for; \<open>alist_db\<close> satisfies them. JSON is a record \<open>codec\<close>, and \<open>codec_ok J x\<close> says that \<open>x\<close>
  survives encoding. The group library and \<^verbatim>\<open>golang.org/x/crypto\<close> are records with laws (those of scalars are
  stated on the multiples of the generator, since the curve has points of other orders), and toy instances show that the laws can hold. Functions that the repository calls and declares nowhere are arguments. SHA-256,
  SHA-512, AES-GCM, base64, \<^verbatim>\<open>container/heap\<close> and the other standard functions are modelled.

  \<^bold>\<open>Foundations.\<close>
  \<^item> \<open>Prelude\<close>: errors, words, byte encodings, loops with early return, and their lemmas.
  \<^item> \<open>Sha256\<close>, \<open>Sha256_Vectors\<close>, \<open>Sha512\<close>, \<open>Hashes\<close>: the hash functions, one test vector, hexadecimal text
    (\<^verbatim>\<open>core/chain/hash_parse.go\<close>), and the locale \<open>prefix_code\<close> of encodings that can be told apart when something follows.
  \<^item> \<open>LevelDB\<close>, \<open>Accounts\<close>: the database and \<^verbatim>\<open>core/state/state.go\<close>; balances and nonces, their updates,
    that the two declarations of \<^verbatim>\<open>AddBalance\<close> differ on an overdraft only, and that a restored export gives them back.
  \<^item> \<open>AesGcm\<close>: the authenticated encryption of the vault; what is sealed opens.
  \<^item> \<open>GoHeap\<close>: \<^verbatim>\<open>container/heap\<close>, proved a priority queue for every weak order (locales
    \<open>weak_order\<close>, \<open>prio_queue\<close>).

  \<^bold>\<open>Chain and consensus.\<close>
  \<^item> \<open>Chain\<close>, \<open>Genesis\<close>: headers, transactions, canonical bytes and the transaction root; the encodings determine
    what they encode, and roots commit to what the signing bytes of the transactions cover.
  \<^item> \<open>Pow\<close>: targets, work, retargeting and mining; mining ends at the first good nonce.
  \<^item> \<open>ChainStore\<close>, \<open>NetStore\<close>: the records of \<^verbatim>\<open>internal/reservestorage\<close>; what is put is got, and walks along parent
    links end (locale \<open>parent_walk\<close>, for headers and for blocks).
  \<^item> \<open>Config\<close>: \<^verbatim>\<open>core/node/config.go\<close>; what validation establishes.
  \<^item> \<open>Crypto\<close>, \<open>Otap\<close>: signatures, one-time addresses and memos; an output is detected by its owner and its claim verifies.
  \<^item> \<open>Finality\<close>, \<open>Quorum\<close>: votes, tallies and vote exchange; conflicting finalizations need double signatures,
    and every node votes, validator or not.

  \<^bold>\<open>The node.\<close>
  \<^item> \<open>Ledger\<close>, \<open>LedgerApply\<close>: block validation by simulation and application. The two simulations of the source implement one
    ledger (locale \<open>account_view\<close>, interpreted for the cached and for the plain accounts), and application agrees with it.
  \<^item> \<open>Mempool\<close>, \<open>MempoolProps\<close>: admission, replacement, expiry and draining; draining implements the greedy choice by fee rate.
  \<^item> \<open>Snapshots\<close>, \<open>Replay\<close>, \<open>ForkChoice\<close>: snapshot files, the rebuilding of accounts, the switch of the main chain.
  \<^item> \<open>Submit\<close>, \<open>SubmitProps\<close>, \<open>Mining\<close>: \<^verbatim>\<open>SubmitBlock\<close>, \<^verbatim>\<open>BuildNextBlockHeader\<close> and
    \<^verbatim>\<open>MineOne\<close> of \<^verbatim>\<open>core/node/node.go\<close>, across all of the above: the tip is the heaviest anchored block, the call
    returns and keeps the types of the store, and mining extends the tip.
  \<^item> \<open>SyncQueue\<close>, \<open>SyncRound\<close>: the queue of block requests as a step relation over interleaved workers, where no
    hash is lost; and \<^verbatim>\<open>syncOnce\<close>, which follows a heavier branch up to the first block refused
    (\<open>syncOnce_catches_up\<close>, for hashes without collisions) but lets one false claim of height end the round.
  \<^item> \<open>Reorg\<close>, \<open>ReorgProps\<close>: the reorganisation to the best header chain, over the locale \<open>path_collector\<close>;
    a branch known to leave the finalized block is refused.
  \<^item> \<open>Fees\<close>, \<open>Participation\<close>: the fee rules, the pools and the payout by epoch, which conserve amounts.

  \<^bold>\<open>Beside the node.\<close>
  \<^item> \<open>Vault\<close>: \<^verbatim>\<open>internal/reservekeyvault\<close>; entries survive a restart while no rotation of the key is due.
  \<^item> \<open>Slots\<close>: the tables and handlers of the storage daemon, with an invariant of every database reached with
    purposes free of colons.

  \<^bold>\<open>Loops and bounds.\<close> Loops over lists are structural recursions. Loops that may not end (mining, draining, parent walks,
  the passes over heights) are \<open>partial_function\<close>s or loops over words, and that they return is stated as such. No fuel is
  used. Bounds in hypotheses (totals below 1.8e17, heights below \<open>2 ^ 62\<close>, fewer than \<open>2 ^ 63\<close> slots) are those
  below which the source's arithmetic does not wrap; heights below \<open>2 ^ 44 - 1\<close> keep the slices whose capacity is a difference
  of heights within what can be allocated (\<open>make_panics\<close>). The sum of \<^verbatim>\<open>Block.SizeHint\<close> is not wrapped: the lengths of lists
  in memory keep it far below \<open>2 ^ 63\<close>.

  \<^bold>\<open>Where the code falls short.\<close> Some statements describe behaviour that is hardly meant: a block on top of the tip is stored and
  its transactions are never applied; a losing block takes its place in the height index; a negative output takes coins
  from its receiver; with issuance no block may carry fees; with a validator registry a quorum cannot be reached;
  nodes outside the validator set sign checkpoints; one peer can stop a round of synchronisation; the second
  account cannot get address slots, and with colons in the names two accounts can share a purpose.

  \<^bold>\<open>Not modelled.\<close> The HTTP handlers and the start of the node (\<^verbatim>\<open>Node.Start\<close>, lines 64 to 1232 of
  \<^verbatim>\<open>node.go\<close>, of which only the finality settings are translated): closures that decode a request, call an operation and
  encode its result. The peer-to-peer transport and its message handler (\<^verbatim>\<open>internal/reservep2p\<close>,
  \<^verbatim>\<open>p2p_gossip.go\<close>): connections and goroutines, and a handler that does not compile for undeclared names. The HTTP
  gossip (\<^verbatim>\<open>gossip.go\<close>, \<^verbatim>\<open>gossip_block.go\<close>): messages posted without reading the answer. The wallet,
  initialisation and platform database daemons, the RPC and web file servers and the entry points: input and output around
  operations that are modelled. Tickers, time limits of requests, and failures of the SQL database other than
  violated constraints.
\<close>

end
